(* ===== verification/Prelude.thy ===== *)
theory Prelude
  imports Main "HOL-Library.Word"
begin

text \<open>
  Shared vocabulary of the development: the machine integer types of the Rust sources, byte
  strings, Rust's saturating and checked arithmetic, slices and \<open>copy_from_slice\<close>, the
  little-endian encodings, and the \<open>?\<close> operator over an explicit state.  The lemmas are
  collected in \<open>named_theorems\<close> so that the component theories discharge arithmetic and subslice
  goals by naming one collection.
\<close>

unbundle bit_operations_syntax

section \<open>Types\<close>

type_synonym u8 = "8 word"
type_synonym u16 = "16 word"
type_synonym u32 = "32 word"
type_synonym u64 = "64 word"
type_synonym bytes = "u8 list"

text \<open>\<open>Result<T, E>\<close> is the sum \<open>'e + 'a\<close>; \<open>Inl\<close> is \<open>Err\<close> and \<open>Inr\<close> is \<open>Ok\<close>.\<close>

named_theorems word_arith \<open>readings of the u64 operations as natural numbers\<close>
named_theorems slice_simps \<open>slices, overwrites and fixed-offset fields of byte strings\<close>

section \<open>Byte strings\<close>

definition ascii :: "string \<Rightarrow> bytes" where
  "ascii s = map of_char s"

lemma length_ascii [simp]: "length (ascii s) = length s"
  by (simp add: ascii_def)

section \<open>usize and u64 arithmetic\<close>

text \<open>
  Lengths and indices (\<open>usize\<close>) are natural numbers; the operations that Rust defines by the
  64-bit width are written with the bound \<open>usize_max\<close>.
\<close>

definition usize_max :: nat where
  "usize_max = 2 ^ 64 - 1"

definition sat_add :: "nat \<Rightarrow> nat \<Rightarrow> nat" where
  "sat_add a b = min (a + b) usize_max"

definition checked_add :: "nat \<Rightarrow> nat \<Rightarrow> nat option" where
  "checked_add a b = (if a + b \<le> usize_max then Some (a + b) else None)"

definition checked_mul :: "nat \<Rightarrow> nat \<Rightarrow> nat option" where
  "checked_mul a b = (if a * b \<le> usize_max then Some (a * b) else None)"

lemma sat_add_exact: "a + b \<le> usize_max \<Longrightarrow> sat_add a b = a + b"
  by (simp add: sat_add_def)

lemma sat_add_le: "sat_add a b \<le> a + b"
  by (simp add: sat_add_def)

text \<open>The same operations on \<open>u64\<close>, kept at their width.\<close>

definition sat_add64 :: "u64 \<Rightarrow> u64 \<Rightarrow> u64" where
  "sat_add64 a b = (if unat a + unat b < 2 ^ 64 then a + b else - 1)"

definition sat_sub64 :: "u64 \<Rightarrow> u64 \<Rightarrow> u64" where
  "sat_sub64 a b = (if b \<le> a then a - b else 0)"

definition sat_mul64 :: "u64 \<Rightarrow> u64 \<Rightarrow> u64" where
  "sat_mul64 a b = (if unat a * unat b < 2 ^ 64 then a * b else - 1)"

definition checked_add64 :: "u64 \<Rightarrow> u64 \<Rightarrow> u64 option" where
  "checked_add64 a b = (if unat a + unat b < 2 ^ 64 then Some (a + b) else None)"

lemma unat_add64: "unat (a :: u64) + unat b < 2 ^ 64 \<Longrightarrow> unat (a + b) = unat a + unat b"
  by (simp add: unat_word_ariths)

lemma unat_sat_add64 [word_arith]: "unat (sat_add64 a b) = min (unat a + unat b) (2 ^ 64 - 1)"
  by (auto simp: sat_add64_def unat_word_ariths unsigned_minus_1_eq_mask mask_eq_exp_minus_1)

lemma unat_sat_sub64 [word_arith]: "unat (sat_sub64 a b) = unat a - unat b"
  by (simp add: sat_sub64_def unat_sub word_le_nat_alt)

lemma unat_sat_mul64 [word_arith]: "unat (sat_mul64 a b) = min (unat a * unat b) (2 ^ 64 - 1)"
  by (auto simp: sat_mul64_def unat_word_ariths unsigned_minus_1_eq_mask mask_eq_exp_minus_1)

lemma checked_add64_Some [word_arith]:
  "checked_add64 a b = Some c \<longleftrightarrow> unat a + unat b < 2 ^ 64 \<and> c = a + b"
  by (auto simp: checked_add64_def)

lemma checked_add64_None [word_arith]: "checked_add64 a b = None \<longleftrightarrow> 2 ^ 64 \<le> unat a + unat b"
  by (auto simp: checked_add64_def)

lemma unat_of_nat64: "n < 2 ^ 64 \<Longrightarrow> unat (word_of_nat n :: u64) = n"
  by (simp add: unat_of_nat take_bit_nat_eq_self)

lemma unat_of_nat32: "n < 2 ^ 32 \<Longrightarrow> unat (word_of_nat n :: u32) = n"
  by (simp add: unat_of_nat take_bit_nat_eq_self)

lemma unat_of_nat16: "n < 2 ^ 16 \<Longrightarrow> unat (word_of_nat n :: u16) = n"
  by (simp add: unat_of_nat take_bit_nat_eq_self)

lemma unat_lt64: "unat (a :: u64) < 2 ^ 64"
  using unsigned_less [of a] by simp

lemma unat_lt16: "unat (a :: u16) < 2 ^ 16"
  using unsigned_less [of a] by simp

lemma unat_lt32: "unat (a :: u32) < 2 ^ 32"
  using unsigned_less [of a] by simp

lemma unat_ucast_up [simp]: "unat (ucast (x :: u32) :: u64) = unat x"
  "unat (ucast (y :: u16) :: u32) = unat y" "unat (ucast (y :: u16) :: u64) = unat y"
  using unat_lt32 [of x] unat_lt16 [of y] by (simp_all add: unsigned_ucast_eq take_bit_nat_eq_self)

lemma div_ceil_bounds:
  fixes n d :: nat
  assumes "0 < d"
  shows "n \<le> (n + d - 1) div d * d" and "(n + d - 1) div d * d < n + d"
proof -
  have "n + d - 1 = (n + d - 1) div d * d + (n + d - 1) mod d" by simp
  moreover have "(n + d - 1) mod d < d" using assms by simp
  ultimately show "n \<le> (n + d - 1) div d * d" and "(n + d - 1) div d * d < n + d"
    using assms by linarith+
qed

text \<open>Bytes of a wider word, as the drivers extract them: \<open>((x >> k) & 0xff) as u8\<close>.\<close>

lemma and_0xff: "(x :: 'a::len word) AND 0xff = take_bit 8 x"
  by (simp add: take_bit_eq_mask mask_eq_exp_minus_1)

lemma unat_byte_of: "8 \<le> LENGTH('a) \<Longrightarrow>
    unat (ucast (drop_bit k (x :: 'a::len word) AND 0xff) :: u8) = unat x div 2 ^ k mod 256"
  by (simp only: and_0xff unsigned_ucast_eq unsigned_take_bit_eq unat_drop_bit_eq)
    (simp add: take_bit_eq_mod drop_bit_eq_div)

lemma unat_or_push_bit:
  fixes lo hi :: "'a::len word"
  assumes lo: "unat lo < 2 ^ k" and fits: "unat lo + 2 ^ k * unat hi < 2 ^ LENGTH('a)"
  shows "unat (lo OR push_bit k hi) = unat lo + 2 ^ k * unat hi"
proof -
  have "take_bit k lo = lo"
    using lo by (simp add: word_unat_eq_iff unsigned_take_bit_eq take_bit_nat_eq_self)
  then have "\<not> bit lo n" if "k \<le> n" for n
    using that by (metis bit_take_bit_iff leD)
  then have "lo AND push_bit k hi = 0"
    by (intro bit_word_eqI) (auto simp: bit_and_iff bit_push_bit_iff)
  then have "lo OR push_bit k hi = lo + push_bit k hi"
    by (simp add: disjunctive_add_eq_or)
  moreover have "unat (push_bit k hi) = 2 ^ k * unat hi"
    using fits by (simp add: unsigned_push_bit_eq push_bit_eq_mult [of k "unat hi"] take_bit_nat_eq_self mult.commute)
  ultimately show ?thesis
    using fits by (simp add: unat_word_ariths)
qed

lemma unat_join16: "unat ((ucast (a::u16) :: u32) OR push_bit 16 (ucast (b::u16))) = unat a + 2 ^ 16 * unat b"
proof -
  have "unat (ucast x :: u32) = unat x" for x :: u16
    using unat_lt16 [of x] by (simp add: unsigned_ucast_eq take_bit_nat_eq_self)
  then show ?thesis
    using unat_or_push_bit [of "ucast a :: u32" 16 "ucast b"] unat_lt16 [of a] unat_lt16 [of b] by simp
qed

lemma unat_join32: "unat (push_bit 32 (ucast (b::u32)) OR (ucast (a::u32) :: u64)) = unat a + 2 ^ 32 * unat b"
proof -
  have "unat (ucast x :: u64) = unat x" "unat x < 2 ^ 32" for x :: u32
    using unat_lt32 [of x] by (simp_all add: unsigned_ucast_eq take_bit_nat_eq_self)
  note this [of a] this [of b]
  then show ?thesis
    using unat_or_push_bit [of "ucast a :: u64" 32 "ucast b"] by (simp add: or.commute)
qed

text \<open>A \<open>OnceCell\<close> keeps the first value it is given; \<open>let _ = CELL.set(v)\<close> ignores the error.\<close>

definition once_set :: "'a option \<Rightarrow> 'a \<Rightarrow> 'a option" where
  "once_set c v = (case c of None \<Rightarrow> Some v | Some w \<Rightarrow> Some w)"

lemma once_set_simps [simp]: "once_set None v = Some v" "once_set (Some w) v = Some w"
  by (simp_all add: once_set_def)

text \<open>System calls return \<open>i32\<close>: a count clipped to \<open>i32::MAX\<close>, or a negated errno.\<close>

definition i32_max :: int where
  "i32_max = 2 ^ 31 - 1"

definition i32_try_from_or_max :: "nat \<Rightarrow> int" where
  "i32_try_from_or_max n = (if int n \<le> i32_max then int n else i32_max)"

definition EIO :: int where "EIO = 5"
definition EINVAL :: int where "EINVAL = 22"
definition ENOSPC :: int where "ENOSPC = 28"

section \<open>Slices\<close>

text \<open>
  \<open>subslice xs i j\<close> is Rust's \<open>&xs[i..j]\<close> for \<open>i \<le> j \<le> len\<close>; \<open>overwrite xs i ys\<close> is
  \<open>xs[i..i + ys.len()].copy_from_slice(ys)\<close> for \<open>i + ys.len() \<le> len\<close>.  Outside these ranges the
  source panics; the components' invariants keep every use inside them.
\<close>

definition subslice :: "'a list \<Rightarrow> nat \<Rightarrow> nat \<Rightarrow> 'a list" where
  "subslice xs i j = take (j - i) (drop i xs)"

definition overwrite :: "'a list \<Rightarrow> nat \<Rightarrow> 'a list \<Rightarrow> 'a list" where
  "overwrite xs i ys = take i xs @ ys @ drop (i + length ys) xs"

lemma length_subslice [simp]: "length (subslice xs i j) = min (j - i) (length xs - i)"
  by (simp add: subslice_def min.commute)

lemma length_overwrite [slice_simps]:
  "i + length ys \<le> length xs \<Longrightarrow> length (overwrite xs i ys) = length xs"
  by (simp add: overwrite_def)

lemma overwrite_Nil [simp]: "overwrite xs i [] = xs"
  by (simp add: overwrite_def)

lemma nth_overwrite:
  assumes "i + length ys \<le> length xs" and "k < length xs"
  shows "overwrite xs i ys ! k = (if i \<le> k \<and> k < i + length ys then ys ! (k - i) else xs ! k)"
  using assms by (auto simp: overwrite_def nth_append)

lemma subslice_split:
  "i \<le> j \<Longrightarrow> j \<le> k \<Longrightarrow> subslice xs i k = subslice xs i j @ subslice xs j k"
  using take_add [of "j - i" "k - j" "drop i xs"] by (simp add: subslice_def)

lemma nth_subslice: "i + k < j \<Longrightarrow> i + k < length xs \<Longrightarrow> subslice xs i j ! k = xs ! (i + k)"
  by (simp add: subslice_def)

lemma subslice_overwrite_same [slice_simps]:
  assumes "i + length ys \<le> length xs" and "j = i + length ys"
  shows "subslice (overwrite xs i ys) i j = ys"
  using assms by (simp add: subslice_def overwrite_def)

lemma subslice_overwrite_before [slice_simps]:
  assumes "j \<le> i" and "i + length ys \<le> length xs"
  shows "subslice (overwrite xs i ys) k j = subslice xs k j"
  using assms by (auto simp: nth_overwrite nth_subslice length_overwrite intro!: nth_equalityI)

lemma subslice_overwrite_after [slice_simps]:
  assumes "i + length ys \<le> k" and "i + length ys \<le> length xs"
  shows "subslice (overwrite xs i ys) k j = subslice xs k j"
  using assms by (auto simp: nth_overwrite nth_subslice length_overwrite intro!: nth_equalityI)

section \<open>Little-endian integers\<close>

fun to_le :: "nat \<Rightarrow> nat \<Rightarrow> bytes" where
  "to_le 0 v = []"
| "to_le (Suc n) v = word_of_nat (v mod 256) # to_le n (v div 256)"

fun from_le :: "bytes \<Rightarrow> nat" where
  "from_le [] = 0"
| "from_le (b # bs) = unat b + 256 * from_le bs"

lemma length_to_le [simp]: "length (to_le n v) = n"
  by (induction n arbitrary: v) simp_all

lemma from_le_to_le: "from_le (to_le n v) = v mod 256 ^ n"
proof (induction n arbitrary: v)
  case 0
  then show ?case by simp
next
  case (Suc n)
  have "unat (word_of_nat (v mod 256) :: u8) = v mod 256"
    by (simp add: unat_of_nat take_bit_nat_eq_self)
  then show ?case
    using Suc.IH [of "v div 256"] by (simp add: mod_mult2_eq)
qed

lemma from_le_append: "from_le (xs @ ys) = from_le xs + 256 ^ length xs * from_le ys"
  by (induction xs) (simp_all add: algebra_simps)

lemma from_le_bound: "from_le bs < 256 ^ length bs"
proof (induction bs)
  case Nil
  then show ?case by simp
next
  case (Cons b bs)
  have "unat b < 256" using unsigned_less [of b] by simp
  with Cons show ?case by simp
qed

definition u32_to_le_bytes :: "u32 \<Rightarrow> bytes" where
  "u32_to_le_bytes v = to_le 4 (unat v)"

definition u64_to_le_bytes :: "u64 \<Rightarrow> bytes" where
  "u64_to_le_bytes v = to_le 8 (unat v)"

definition u32_from_le_bytes :: "bytes \<Rightarrow> u32" where
  "u32_from_le_bytes bs = word_of_nat (from_le bs)"

definition u64_from_le_bytes :: "bytes \<Rightarrow> u64" where
  "u64_from_le_bytes bs = word_of_nat (from_le bs)"

lemma length_le_bytes [simp]:
  "length (u32_to_le_bytes v) = 4" "length (u64_to_le_bytes w) = 8"
  by (simp_all add: u32_to_le_bytes_def u64_to_le_bytes_def)

lemma u32_le_roundtrip [simp]: "u32_from_le_bytes (u32_to_le_bytes v) = v"
proof -
  have "unat v < 256 ^ 4" using unsigned_less [of v] by simp
  then show ?thesis
    by (simp add: u32_from_le_bytes_def u32_to_le_bytes_def from_le_to_le)
qed

lemma u64_le_roundtrip [simp]: "u64_from_le_bytes (u64_to_le_bytes v) = v"
proof -
  have "unat v < 256 ^ 8" using unsigned_less [of v] by simp
  then show ?thesis
    by (simp add: u64_from_le_bytes_def u64_to_le_bytes_def from_le_to_le)
qed

section \<open>The ? operator\<close>

text \<open>
  \<open>try_q (r, s) k\<close> is \<open>let x = r?; k\<close> over an explicit state \<open>s\<close>: an \<open>Err\<close> returns at once
  with the state reached so far.
\<close>

definition try_q :: "('e + 'a) \<times> 's \<Rightarrow> ('a \<Rightarrow> 's \<Rightarrow> ('e + 'b) \<times> 's) \<Rightarrow> ('e + 'b) \<times> 's" where
  "try_q m k = (case m of (Inl e, s) \<Rightarrow> (Inl e, s) | (Inr a, s) \<Rightarrow> k a s)"

lemma try_q_simps [simp]:
  "try_q (Inl e, s) k = (Inl e, s)"
  "try_q (Inr a, s) k = k a s"
  by (simp_all add: try_q_def)

lemma try_q_cases:
  assumes "try_q m k = (r, s')"
  obtains (err) e where "m = (Inl e, s')" and "r = Inl e"
  | (ok) a s where "m = (Inr a, s)" and "k a s = (r, s')"
  using assms by (cases m; cases "fst m") auto

lemma try_q_Inr:
  "try_q m k = (Inr b, s') \<longleftrightarrow> (\<exists>a s. m = (Inr a, s) \<and> k a s = (Inr b, s'))"
  by (cases m; cases "fst m") auto

lemma try_q_cong [fundef_cong]:
  "m = m' \<Longrightarrow> (\<And>a s. m' = (Inr a, s) \<Longrightarrow> k a s = k' a s) \<Longrightarrow> try_q m k = try_q m' k'"
  by (cases m'; cases "fst m'") auto

text \<open>\<open>u16::try_from(n).map_err(|_| ())\<close> and \<open>u32::try_from(n).map_err(|_| ())\<close>.\<close>

definition u16_try_from :: "nat \<Rightarrow> unit + u16" where
  "u16_try_from n = (if n < 2 ^ 16 then Inr (word_of_nat n) else Inl ())"

definition u32_try_from :: "nat \<Rightarrow> unit + u32" where
  "u32_try_from n = (if n < 2 ^ 32 then Inr (word_of_nat n) else Inl ())"

lemma u16_try_from_Inr: "u16_try_from n = Inr w \<longleftrightarrow> unat w = n"
proof
  show "unat w = n" if "u16_try_from n = Inr w"
    using that by (auto simp: u16_try_from_def unat_of_nat16 split: if_splits)
  show "u16_try_from n = Inr w" if "unat w = n"
    using that unat_lt16 [of w] by (auto simp: u16_try_from_def)
qed

lemma u32_try_from_Inr: "u32_try_from n = Inr w \<longleftrightarrow> unat w = n"
proof
  show "unat w = n" if "u32_try_from n = Inr w"
    using that by (auto simp: u32_try_from_def unat_of_nat32 split: if_splits)
  show "u32_try_from n = Inr w" if "unat w = n"
    using that unat_lt32 [of w] by (auto simp: u32_try_from_def)
qed

end
