(* ===== verification/Ahci.thy ===== *)
theory Ahci
  imports Prelude
begin

text \<open>
  The AHCI driver's access to the disk (\<open>kernel/src/drivers/storage/ahci.rs\<close>): the in-memory
  command structures, the polling loops over the port registers, \<open>transfer_sectors\<close> and its two
  wrappers \<open>read_sectors\<close> and \<open>write_sectors\<close>, and the IDENTIFY command that learns the capacity.
  The host bus adapter and the disk behind it are hardware: they are the parameter \<open>hba\<close>, and
  the locale \<open>ata_disk\<close> states what the driver relies on.  The sublocale at the end turns that
  hardware contract into the sector interface that the memory database and the model cache use.
\<close>

section \<open>Command structures\<close>

record command_header =
  cfl_flags :: u16
  prdtl :: u16
  prdbc :: u32
  ctba :: u32
  ctbau :: u32

record prdt_entry =
  dba :: u32
  dbau :: u32
  dbc_flags :: u32

record command_table =
  cfis :: bytes
  prdt :: prdt_entry

definition default_header :: command_header where
  "default_header = \<lparr>cfl_flags = 0, prdtl = 0, prdbc = 0, ctba = 0, ctbau = 0\<rparr>"

definition default_prdt :: prdt_entry where
  "default_prdt = \<lparr>dba = 0, dbau = 0, dbc_flags = 0\<rparr>"

section \<open>The adapter and the driver's statics\<close>

text \<open>
  The adapter: volatile reads and writes of its registers (addressed as 32-bit words from the
  start of the ABAR mapping), the memory it masters (slot 0 of the command list, the command
  table and the data buffer, which the CPU fills with \<open>hba_set_command\<close> and reads back with
  \<open>hba_buffer\<close>), and the physical addresses the kernel's page tables give for the table and the
  buffer.
\<close>

record 'd hba =
  hba_read :: "'d \<Rightarrow> nat \<Rightarrow> u32 \<times> 'd"
  hba_write :: "'d \<Rightarrow> nat \<Rightarrow> u32 \<Rightarrow> 'd"
  hba_set_command :: "'d \<Rightarrow> command_header \<Rightarrow> command_table \<Rightarrow> bytes \<Rightarrow> 'd"
  hba_buffer :: "'d \<Rightarrow> bytes"
  hba_ct_phys :: u64
  hba_data_phys :: u64

text \<open>The driver's \<open>OnceCell\<close> statics, the loaded model of \<open>env\<close>, and the device.\<close>

record 'd ahci =
  first_sata_port :: "nat option"
  first_sata_port_cl :: "nat option"
  first_sata_port_fis :: "nat option"
  model_cache_start_lba :: "u64 option"
  ssd_sector_count :: "u64 option"
  memory_db_header_lba :: "u64 option"
  model_info :: "(bytes \<times> string) option"
  dev :: 'd

definition SECTOR_SIZE :: nat where
  "SECTOR_SIZE = 512"

definition MODEL_IO_SECTORS :: nat where
  "MODEL_IO_SECTORS = 8192"

text \<open>Word offsets of the port registers.\<close>

definition PxIS :: nat where "PxIS = 4"
definition PxCMD :: nat where "PxCMD = 6"
definition PxTFD :: nat where "PxTFD = 8"
definition PxSIG :: nat where "PxSIG = 9"
definition PxSSTS :: nat where "PxSSTS = 10"
definition PxSERR :: nat where "PxSERR = 12"
definition PxCI :: nat where "PxCI = 14"

lemmas px_regs = PxIS_def PxCMD_def PxTFD_def PxSIG_def PxSSTS_def PxSERR_def PxCI_def

section \<open>Polling loops\<close>

text \<open>
  \<open>while reg & mask != 0 && n > 0 \<lbrace> n -= 1 \<rbrace>\<close>: the remaining count and the device after the last
  read.  The register is read once more when the count has reached 0.
\<close>

fun poll_while :: "'d hba \<Rightarrow> nat \<Rightarrow> u32 \<Rightarrow> nat \<Rightarrow> 'd \<Rightarrow> nat \<times> 'd" where
  "poll_while hba r msk 0 d = (0, snd (hba_read hba d r))"
| "poll_while hba r msk (Suc n) d =
    (let (v, d1) = hba_read hba d r
     in if v AND msk \<noteq> 0 then poll_while hba r msk n d1 else (Suc n, d1))"

text \<open>Reads whose values only go into a log message.\<close>

fun read_regs :: "'d hba \<Rightarrow> nat list \<Rightarrow> 'd \<Rightarrow> 'd" where
  "read_regs hba [] d = d"
| "read_regs hba (r # rs) d = read_regs hba rs (snd (hba_read hba d r))"

datatype wait_result = Completed | TaskFileError | TimedOut

fun wait_completion :: "'d hba \<Rightarrow> nat \<Rightarrow> nat \<Rightarrow> 'd \<Rightarrow> wait_result \<times> 'd" where
  "wait_completion hba port 0 d = (TimedOut, snd (hba_read hba d (port + PxCI)))"
| "wait_completion hba port (Suc t) d =
    (let (ci, d1) = hba_read hba d (port + PxCI)
     in if ci AND 1 \<noteq> 0
        then (let (px_is, d2) = hba_read hba d1 (port + PxIS)
              in if px_is AND push_bit 30 1 \<noteq> 0 then (TaskFileError, d2)
                 else wait_completion hba port t d2)
        else (Completed, d1))"

definition stop_port :: "'d hba \<Rightarrow> nat \<Rightarrow> 'd \<Rightarrow> 'd" where
  "stop_port hba port d =
    (let (cmd, d1) = hba_read hba d (port + PxCMD);
         cmd1 = cmd AND NOT 1;
         cmd2 = cmd1 AND NOT (push_bit 4 1);
         d2 = hba_write hba d1 (port + PxCMD) cmd2
     in snd (poll_while hba (port + PxCMD) (push_bit 15 1 OR push_bit 14 1) 1000 d2))"

definition start_port :: "'d hba \<Rightarrow> nat \<Rightarrow> 'd \<Rightarrow> 'd" where
  "start_port hba port d =
    (let d1 = snd (poll_while hba (port + PxCMD) (push_bit 15 1) 1000 d);
         (cmd, d2) = hba_read hba d1 (port + PxCMD);
         cmd1 = cmd OR push_bit 4 1;
         d3 = hba_write hba d2 (port + PxCMD) cmd1
     in hba_write hba d3 (port + PxCMD) (cmd1 OR 1))"

section \<open>Sector transfers\<close>

definition transfer_header :: "'d hba \<Rightarrow> bool \<Rightarrow> command_header" where
  "transfer_header hba is_write = default_header
    \<lparr>cfl_flags := 5 OR (if is_write then push_bit 6 1 else 0),
     prdtl := 1,
     ctba := ucast (hba_ct_phys hba),
     ctbau := ucast (drop_bit 32 (hba_ct_phys hba))\<rparr>"

definition transfer_prdt :: "'d hba \<Rightarrow> u16 \<Rightarrow> prdt_entry" where
  "transfer_prdt hba count = default_prdt
    \<lparr>dba := ucast (hba_data_phys hba),
     dbau := ucast (drop_bit 32 (hba_data_phys hba)),
     dbc_flags := (ucast count * 512 - 1) AND 0x3fffff\<rparr>"

definition transfer_cfis :: "u64 \<Rightarrow> u16 \<Rightarrow> bool \<Rightarrow> bytes" where
  "transfer_cfis lba count is_write = (replicate 64 0)
    [0 := 0x27,
     1 := 0x80,
     2 := (if is_write then 0x35 else 0x25),
     4 := ucast (lba AND 0xff),
     5 := ucast (drop_bit 8 lba AND 0xff),
     6 := ucast (drop_bit 16 lba AND 0xff),
     7 := 0x40,
     8 := ucast (drop_bit 24 lba AND 0xff),
     9 := ucast (drop_bit 32 lba AND 0xff),
     10 := ucast (drop_bit 40 lba AND 0xff),
     12 := ucast (count AND 0xff),
     13 := ucast (drop_bit 8 count)]"

definition transfer_table :: "'d hba \<Rightarrow> u64 \<Rightarrow> u16 \<Rightarrow> bool \<Rightarrow> command_table" where
  "transfer_table hba lba count is_write =
    \<lparr>cfis = transfer_cfis lba count is_write, prdt = transfer_prdt hba count\<rparr>"

text \<open>
  \<open>transfer_sectors\<close>: the buffer is passed by value and the result carries the buffer that the
  adapter leaves behind.
\<close>

definition transfer_sectors ::
  "'d hba \<Rightarrow> nat \<Rightarrow> 'd ahci \<Rightarrow> u64 \<Rightarrow> u16 \<Rightarrow> bytes \<Rightarrow> bool \<Rightarrow> (unit + bytes) \<times> 'd ahci" where
  "transfer_sectors hba port st lba count buf is_write =
    (case first_sata_port_cl st of None \<Rightarrow> (Inl (), st)
     | Some cl \<Rightarrow>
      (let (wait, d1) = poll_while hba (port + PxTFD) (push_bit 7 1 OR push_bit 3 1) 10000 (dev st)
       in if wait = 0 then (Inl (), st\<lparr>dev := read_regs hba [port + PxTFD] d1\<rparr>)
          else
            (let d2 = hba_write hba d1 (port + PxIS) 0xffffffff;
                 d3 = hba_write hba d2 (port + PxSERR) 0xffffffff;
                 d4 = hba_set_command hba d3 (transfer_header hba is_write)
                        (transfer_table hba lba count is_write) buf;
                 d5 = hba_write hba d4 (port + PxCI) 1;
                 (res, d6) = wait_completion hba port (if is_write then 50000 else 1000) d5
             in case res of
                  TaskFileError \<Rightarrow>
                    (Inl (), st\<lparr>dev := read_regs hba [port + PxIS, port + PxSERR, port + PxTFD] d6\<rparr>)
                | TimedOut \<Rightarrow>
                    (Inl (), st\<lparr>dev := read_regs hba [port + PxIS, port + PxTFD] d6\<rparr>)
                | Completed \<Rightarrow> (Inr (hba_buffer hba d6), st\<lparr>dev := d6\<rparr>))))"

text \<open>
  \<open>read_sectors\<close> fills a buffer of \<open>count\<close> sectors (the callers' buffers are zeroed or freshly
  allocated); \<open>write_sectors\<close> sends the first \<open>count\<close> sectors of the buffer.
\<close>

definition read_sectors ::
  "'d hba \<Rightarrow> 'd ahci \<Rightarrow> u64 \<Rightarrow> u16 \<Rightarrow> (unit + bytes) \<times> 'd ahci" where
  "read_sectors hba st lba count =
    (case first_sata_port st of None \<Rightarrow> (Inl (), st)
     | Some port \<Rightarrow> transfer_sectors hba port st lba count (replicate (unat count * 512) 0) False)"

definition write_sectors ::
  "'d hba \<Rightarrow> 'd ahci \<Rightarrow> u64 \<Rightarrow> u16 \<Rightarrow> bytes \<Rightarrow> (unit + unit) \<times> 'd ahci" where
  "write_sectors hba st lba count buf =
    (case first_sata_port st of None \<Rightarrow> (Inl (), st)
     | Some port \<Rightarrow>
        (case transfer_sectors hba port st lba count buf True of
           (Inl e, st') \<Rightarrow> (Inl e, st') | (Inr _, st') \<Rightarrow> (Inr (), st')))"

section \<open>IDENTIFY DEVICE\<close>

definition identify_word :: "bytes \<Rightarrow> nat \<Rightarrow> u16" where
  "identify_word data i = word_of_nat (from_le (subslice data (2 * i) (2 * i + 2)))"

definition identify_capacity :: "bytes \<Rightarrow> u64" where
  "identify_capacity data =
    (if identify_word data 83 AND push_bit 10 1 \<noteq> 0
     then (let low = (ucast (identify_word data 100) :: u32)
                       OR push_bit 16 (ucast (identify_word data 101));
               high = (ucast (identify_word data 102) :: u32)
                       OR push_bit 16 (ucast (identify_word data 103))
           in push_bit 32 (ucast high) OR ucast low)
     else ucast ((ucast (identify_word data 60) :: u32)
                   OR push_bit 16 (ucast (identify_word data 61))))"

definition identify_table :: "'d hba \<Rightarrow> command_table" where
  "identify_table hba =
    \<lparr>cfis = (replicate 64 0)[0 := 0x27, 1 := 0x80, 2 := 0xec],
     prdt = default_prdt\<lparr>dba := ucast (hba_data_phys hba),
       dbau := ucast (drop_bit 32 (hba_data_phys hba)), dbc_flags := 511\<rparr>\<rparr>"

definition identify_device :: "'d hba \<Rightarrow> nat \<Rightarrow> 'd ahci \<Rightarrow> 'd ahci" where
  "identify_device hba port st =
    (let d1 = start_port hba port (dev st);
         d2 = hba_set_command hba d1 (transfer_header hba False) (identify_table hba)
                (replicate 512 0);
         d3 = hba_write hba d2 (port + PxCI) 1;
         (res, d4) = wait_completion hba port 500 d3
     in if res = TimedOut then st\<lparr>dev := d4\<rparr>
        else st\<lparr>ssd_sector_count :=
                  once_set (ssd_sector_count st) (identify_capacity (hba_buffer hba d4)),
                dev := d4\<rparr>)"

section \<open>What a command asks of the disk\<close>

text \<open>The ATA reading of a Register Host-to-Device FIS: 48-bit LBA and 16-bit sector count.\<close>

definition fis_lba :: "bytes \<Rightarrow> nat" where
  "fis_lba c = from_le [c ! 4, c ! 5, c ! 6, c ! 8, c ! 9, c ! 10]"

definition fis_count :: "bytes \<Rightarrow> nat" where
  "fis_count c = from_le [c ! 12, c ! 13]"

text \<open>
  A well-formed DMA command in slot 0: a five-dword FIS with the command bit, READ or WRITE DMA EXT
  in LBA mode, the direction bit of the header agreeing with it, and one PRDT entry that describes
  exactly the sectors transferred, at the addresses of the table and of the buffer.
\<close>

definition dma_command :: "'d hba \<Rightarrow> bool \<Rightarrow> command_header \<Rightarrow> command_table \<Rightarrow> bool" where
  "dma_command hba w h t \<longleftrightarrow>
    cfl_flags h = (if w then 0x45 else 5) \<and> prdtl h = 1 \<and>
    ctba h = ucast (hba_ct_phys hba) \<and> ctbau h = ucast (drop_bit 32 (hba_ct_phys hba)) \<and>
    dba (prdt t) = ucast (hba_data_phys hba) \<and>
    dbau (prdt t) = ucast (drop_bit 32 (hba_data_phys hba)) \<and>
    length (cfis t) = 64 \<and> cfis t ! 0 = 0x27 \<and> cfis t ! 1 = 0x80 \<and>
    cfis t ! 2 = (if w then 0x35 else 0x25) \<and> cfis t ! 7 = 0x40 \<and>
    0 < fis_count (cfis t) \<and> unat (dbc_flags (prdt t)) + 1 = fis_count (cfis t) * 512"

definition read_range :: "(nat \<Rightarrow> bytes) \<Rightarrow> nat \<Rightarrow> nat \<Rightarrow> bytes" where
  "read_range c lba n = concat (map c [lba..<lba + n])"

definition write_range :: "(nat \<Rightarrow> bytes) \<Rightarrow> nat \<Rightarrow> nat \<Rightarrow> bytes \<Rightarrow> nat \<Rightarrow> bytes" where
  "write_range c lba n b i =
    (if lba \<le> i \<and> i < lba + n then subslice b ((i - lba) * 512) ((i - lba) * 512 + 512) else c i)"

lemma transfer_cfis_nth:
  "length (transfer_cfis lba n w) = 64"
  "transfer_cfis lba n w ! 0 = 0x27" "transfer_cfis lba n w ! Suc 0 = 0x80"
  "transfer_cfis lba n w ! 2 = (if w then 0x35 else 0x25)" "transfer_cfis lba n w ! 7 = 0x40"
  "transfer_cfis lba n w ! 4 = ucast (drop_bit 0 lba AND 0xff)"
  "transfer_cfis lba n w ! 5 = ucast (drop_bit 8 lba AND 0xff)"
  "transfer_cfis lba n w ! 6 = ucast (drop_bit 16 lba AND 0xff)"
  "transfer_cfis lba n w ! 8 = ucast (drop_bit 24 lba AND 0xff)"
  "transfer_cfis lba n w ! 9 = ucast (drop_bit 32 lba AND 0xff)"
  "transfer_cfis lba n w ! 10 = ucast (drop_bit 40 lba AND 0xff)"
  "transfer_cfis lba n w ! 12 = ucast (drop_bit 0 n AND 0xff)"
  "transfer_cfis lba n w ! 13 = ucast (drop_bit 8 n)"
  unfolding transfer_cfis_def drop_bit_0 id_apply
  by (simp_all only: length_list_update length_replicate nth_list_update) simp_all

lemma from_le_digits:
  fixes x :: nat
  assumes "x < 2 ^ 48" and "unat b0 = x mod 256" and "unat b1 = x div 2 ^ 8 mod 256"
    and "unat b2 = x div 2 ^ 16 mod 256" and "unat b3 = x div 2 ^ 24 mod 256"
    and "unat b4 = x div 2 ^ 32 mod 256" and "unat b5 = x div 2 ^ 40 mod 256"
  shows "from_le [b0, b1, b2, b3, b4, b5] = x"
proof -
  have chain: "x div 2 ^ 16 = x div 2 ^ 8 div 256" "x div 2 ^ 24 = x div 2 ^ 16 div 256"
    "x div 2 ^ 32 = x div 2 ^ 24 div 256" "x div 2 ^ 40 = x div 2 ^ 32 div 256"
    by (simp_all flip: div_mult2_eq)
  have top: "x div 2 ^ 40 mod 256 = x div 2 ^ 40"
    using assms(1) by (intro mod_less) (simp add: less_mult_imp_div_less)
  have split: "y = y mod 256 + 256 * (y div 256)" for y :: nat
    by simp
  show ?thesis
    using split [of x] split [of "x div 2 ^ 8"] split [of "x div 2 ^ 16"] split [of "x div 2 ^ 24"]
      split [of "x div 2 ^ 32"]
    unfolding from_le.simps assms(2-) top chain(1) [symmetric] chain(2) [symmetric]
      chain(3) [symmetric] chain(4) [symmetric]
    by simp
qed

lemma fis_lba_transfer [simp]:
  assumes "unat lba < 2 ^ 48"
  shows "fis_lba (transfer_cfis lba n w) = unat lba"
  unfolding fis_lba_def transfer_cfis_nth
  by (rule from_le_digits [OF assms]) (subst unat_byte_of; simp)+

lemma fis_count_transfer [simp]: "fis_count (transfer_cfis lba n w) = unat n"
proof -
  have "unat (ucast (drop_bit 8 n) :: u8) = unat n div 256"
    unfolding unsigned_ucast_eq unat_drop_bit_eq unfolding drop_bit_eq_div
    using unat_lt16 [of n]
    by (intro take_bit_nat_eq_self [THEN trans]) (auto intro: less_mult_imp_div_less)
  then show ?thesis
    using unat_byte_of [of 0 n] by (simp add: fis_count_def transfer_cfis_nth)
qed

lemma transfer_dbc:
  assumes "0 < unat count" and "unat count \<le> MODEL_IO_SECTORS"
  shows "unat (dbc_flags (transfer_prdt hba count)) + 1 = unat count * 512"
proof -
  have up: "unat (ucast count :: u32) = unat count"
    using unat_lt16 [of count] by (simp add: unsigned_ucast_eq take_bit_nat_eq_self)
  have mul: "unat ((ucast count :: u32) * 512) = unat count * 512"
    using assms(2) up by (simp add: unat_word_ariths MODEL_IO_SECTORS_def)
  have "(1 :: u32) \<le> ucast count * 512"
    using assms(1) mul by (simp add: word_le_nat_alt)
  then have sub: "unat ((ucast count :: u32) * 512 - 1) = unat count * 512 - 1"
    using mul by (simp add: unat_sub)
  have dbc: "dbc_flags (transfer_prdt hba count) = (ucast count * 512 - 1) AND 0x3fffff"
    by (simp add: transfer_prdt_def)
  have "x AND 0x3fffff = take_bit 22 x" for x :: u32
    by (simp add: take_bit_eq_mask mask_eq_exp_minus_1)
  then have "unat (dbc_flags (transfer_prdt hba count)) = take_bit 22 (unat count * 512 - 1)"
    by (simp only: dbc sub unsigned_take_bit_eq)
  also have "\<dots> = unat count * 512 - 1"
    using assms(2) by (simp add: take_bit_nat_eq_self MODEL_IO_SECTORS_def)
  finally show ?thesis
    using assms(1) by simp
qed

lemma cfis_transfer_table [simp]: "cfis (transfer_table hba lba n w) = transfer_cfis lba n w"
  by (simp add: transfer_table_def)

lemma transfer_dma_command:
  assumes "0 < unat count" and "unat count \<le> MODEL_IO_SECTORS"
  shows "dma_command hba w (transfer_header hba w) (transfer_table hba lba count w)"
  using assms transfer_dbc [OF assms]
  by (simp add: dma_command_def transfer_table_def transfer_cfis_nth transfer_header_def
      default_header_def) (simp add: transfer_prdt_def)

section \<open>Contents of a range of sectors\<close>

lemma read_range_0 [simp]: "read_range c lba 0 = []"
  by (simp add: read_range_def)

lemma read_range_Suc: "read_range c lba (Suc n) = read_range c lba n @ c (lba + n)"
  by (simp add: read_range_def)

lemma read_range_1 [simp]: "read_range c lba (Suc 0) = c lba"
  by (simp add: read_range_def)

lemma read_range_add: "read_range c lba (m + n) = read_range c lba m @ read_range c (lba + m) n"
  by (induction n) (simp_all add: read_range_Suc add.assoc)

lemma length_read_range: "(\<And>i. length (c i) = 512) \<Longrightarrow> length (read_range c lba n) = n * 512"
  by (induction n) (simp_all add: read_range_Suc)

lemma read_range_cong:
  "(\<And>i. lba \<le> i \<Longrightarrow> i < lba + n \<Longrightarrow> c i = c' i) \<Longrightarrow> read_range c lba n = read_range c' lba n"
  unfolding read_range_def by (intro arg_cong [where f = concat] map_cong) auto

lemma write_range_outside: "i < lba \<or> lba + n \<le> i \<Longrightarrow> write_range c lba n b i = c i"
  by (auto simp: write_range_def)

lemma read_write_range: "length b = n * 512 \<Longrightarrow> read_range (write_range c lba n b) lba n = b"
proof (induction n arbitrary: b)
  case (Suc n)
  let ?b = "take (n * 512) b"
  have "read_range (write_range c lba (Suc n) b) lba n = read_range (write_range c lba n ?b) lba n"
  proof (rule read_range_cong)
    fix i assume i: "lba \<le> i" "i < lba + n"
    then have "(i - lba) * 512 + 512 \<le> n * 512" by simp
    then have "subslice b ((i - lba) * 512) ((i - lba) * 512 + 512)
        = subslice ?b ((i - lba) * 512) ((i - lba) * 512 + 512)"
      by (simp add: subslice_def drop_take min_def)
    then show "write_range c lba (Suc n) b i = write_range c lba n ?b i"
      using i by (simp add: write_range_def)
  qed
  also have "\<dots> = ?b"
    using Suc by simp
  finally have "read_range (write_range c lba (Suc n) b) lba (Suc n) = ?b @ drop (n * 512) b"
    using Suc.prems by (simp add: read_range_Suc write_range_def subslice_def)
  then show ?case by simp
qed simp

section \<open>The sector interface\<close>

text \<open>
  What the memory database and the model cache rely on.  \<open>ready\<close> is the state in which the
  interface may be used, \<open>keeps\<close> says that only the device has changed.
\<close>

locale sector_store =
  fixes rd :: "'s \<Rightarrow> u64 \<Rightarrow> u16 \<Rightarrow> (unit + bytes) \<times> 's"
    and wr :: "'s \<Rightarrow> u64 \<Rightarrow> u16 \<Rightarrow> bytes \<Rightarrow> (unit + unit) \<times> 's"
    and contents :: "'s \<Rightarrow> nat \<Rightarrow> bytes"
    and ready :: "'s \<Rightarrow> bool"
    and keeps :: "'s \<Rightarrow> 's \<Rightarrow> bool"
  assumes contents_length: "ready s \<Longrightarrow> length (contents s i) = 512"
    and keeps_refl: "keeps s s"
    and keeps_trans: "keeps s s' \<Longrightarrow> keeps s' s'' \<Longrightarrow> keeps s s''"
    and keeps_ready: "keeps s s' \<Longrightarrow> ready s \<Longrightarrow> ready s'"
    and rd_law: "\<lbrakk>ready s; 0 < unat n; unat n \<le> MODEL_IO_SECTORS; rd s lba n = (r, s')\<rbrakk> \<Longrightarrow>
        keeps s s' \<and> contents s' = contents s \<and>
        (\<forall>b. r = Inr b \<longrightarrow> unat lba < 2 ^ 48 \<longrightarrow> b = read_range (contents s) (unat lba) (unat n))"
    and wr_law: "\<lbrakk>ready s; 0 < unat n; unat n \<le> MODEL_IO_SECTORS; unat lba < 2 ^ 48;
        length b = unat n * 512; wr s lba n b = (q, s')\<rbrakk> \<Longrightarrow>
        keeps s s' \<and>
        (q = Inr () \<longrightarrow> contents s' = write_range (contents s) (unat lba) (unat n) b) \<and>
        (\<forall>i. contents s' i = contents s i \<or>
             contents s' i = write_range (contents s) (unat lba) (unat n) b i)"
begin

lemma read_after_write:
  assumes "ready s" and "0 < unat n" and "unat n \<le> MODEL_IO_SECTORS" and "unat lba < 2 ^ 48"
    and "length b = unat n * 512"
    and w: "wr s lba n b = (Inr (), s1)" and r: "rd s1 lba n = (Inr b', s2)"
  shows "b' = b"
proof -
  have "keeps s s1" and c: "contents s1 = write_range (contents s) (unat lba) (unat n) b"
    using wr_law [OF assms(1-5) w] by auto
  then have "ready s1"
    using assms(1) keeps_ready by blast
  then have "b' = read_range (contents s1) (unat lba) (unat n)"
    using rd_law [OF _ assms(2,3) r] assms(4) by simp
  then show ?thesis
    using c assms(5) by (simp add: read_write_range)
qed

lemma write_outside:
  assumes "ready s" and "0 < unat n" and "unat n \<le> MODEL_IO_SECTORS" and "unat lba < 2 ^ 48"
    and "length b = unat n * 512" and "wr s lba n b = (r, s')"
    and "i < unat lba \<or> unat lba + unat n \<le> i"
  shows "contents s' i = contents s i"
  using wr_law [OF assms(1-6)] write_range_outside [OF assms(7)] by metis

end

section \<open>The hardware contract\<close>

text \<open>
  What the driver relies on of the adapter and the disk on port \<open>port\<close>.  \<open>sect d\<close> is what the disk
  holds once every command that has been issued has ended; \<open>inflight d\<close> remembers the last DMA
  command together with the contents it started from.  Reading a register, acknowledging
  interrupts and errors, and filling slot 0 do not touch the disk.  Issuing a read leaves the
  disk alone; issuing a write leaves every sector either as it was or as the command asks.  When
  \<open>PxCI\<close> is seen clear, the command has been carried out in full.
\<close>

locale ata_disk =
  fixes hba :: "'d hba"
    and sect :: "'d \<Rightarrow> nat \<Rightarrow> bytes"
    and inflight :: "'d \<Rightarrow> ((nat \<Rightarrow> bytes) \<times> command_header \<times> command_table \<times> bytes) option"
    and port :: nat
  assumes sect_length: "length (sect d i) = 512"
    and read_keeps: "hba_read hba d r = (v, d') \<Longrightarrow> sect d' = sect d \<and> inflight d' = inflight d"
    and ack_keeps: "r \<in> {PxIS, PxSERR} \<Longrightarrow> sect (hba_write hba d (port + r) v) = sect d"
    and set_keeps: "sect (hba_set_command hba d h t b) = sect d"
    and issue_inflight: "dma_command hba w h t \<Longrightarrow>
        inflight (hba_write hba (hba_set_command hba d h t b) (port + PxCI) 1) = Some (sect d, h, t, b)"
    and issue_read: "dma_command hba False h t \<Longrightarrow>
        sect (hba_write hba (hba_set_command hba d h t b) (port + PxCI) 1) = sect d"
    and issue_write: "\<lbrakk>dma_command hba True h t; length b = fis_count (cfis t) * 512\<rbrakk> \<Longrightarrow>
        sect (hba_write hba (hba_set_command hba d h t b) (port + PxCI) 1) i
          \<in> {sect d i, write_range (sect d) (fis_lba (cfis t)) (fis_count (cfis t)) b i}"
    and done_read: "\<lbrakk>inflight d = Some (c, h, t, b); dma_command hba False h t;
        hba_read hba d (port + PxCI) = (v, d'); v AND 1 = 0\<rbrakk> \<Longrightarrow>
        hba_buffer hba d' = read_range c (fis_lba (cfis t)) (fis_count (cfis t))"
    and done_write: "\<lbrakk>inflight d = Some (c, h, t, b); dma_command hba True h t;
        length b = fis_count (cfis t) * 512;
        hba_read hba d (port + PxCI) = (v, d'); v AND 1 = 0\<rbrakk> \<Longrightarrow>
        sect d' = write_range c (fis_lba (cfis t)) (fis_count (cfis t)) b"
begin

lemma snd_read_keeps: "sect (snd (hba_read hba d r)) = sect d" "inflight (snd (hba_read hba d r)) = inflight d"
  using read_keeps [of d r] by (metis prod.collapse)+

lemma poll_while_keeps: "poll_while hba r m n d = (k, d') \<Longrightarrow> sect d' = sect d"
  by (induction n arbitrary: d)
    (auto simp: snd_read_keeps split: prod.splits if_splits dest!: read_keeps)

lemma read_regs_keeps [simp]: "sect (read_regs hba rs d) = sect d"
  by (induction rs arbitrary: d) (simp_all add: snd_read_keeps)

lemma wait_completion_keeps:
  "wait_completion hba p n d = (r, d') \<Longrightarrow> sect d' = sect d \<and> inflight d' = inflight d"
proof (induction n arbitrary: d)
  case (Suc n)
  obtain ci d1 where r1: "hba_read hba d (p + PxCI) = (ci, d1)" by force
  obtain px d2 where r2: "hba_read hba d1 (p + PxIS) = (px, d2)" by force
  show ?case
    using Suc r1 r2 read_keeps [OF r1] read_keeps [OF r2] by (auto split: if_splits)
qed (auto simp: snd_read_keeps)

lemma wait_completion_done:
  "wait_completion hba p n d = (Completed, d') \<Longrightarrow>
    \<exists>d0 v. inflight d0 = inflight d \<and> hba_read hba d0 (p + PxCI) = (v, d') \<and> v AND 1 = 0"
proof (induction n arbitrary: d)
  case (Suc n)
  obtain ci d1 where r1: "hba_read hba d (p + PxCI) = (ci, d1)" by force
  obtain px d2 where r2: "hba_read hba d1 (p + PxIS) = (px, d2)" by force
  show ?case
  proof (cases "ci AND 1 = 0")
    case True
    then show ?thesis using Suc.prems r1 by auto
  next
    case False
    then have "wait_completion hba p n d2 = (Completed, d')"
      using Suc.prems r1 r2 by (simp split: if_splits)
    moreover have "inflight d2 = inflight d"
      using read_keeps [OF r1] read_keeps [OF r2] by simp
    ultimately show ?thesis using Suc.IH by metis
  qed
qed simp

text \<open>One transfer, split at the three points where it can end.\<close>

lemma transfer_cases:
  assumes "transfer_sectors hba port st lba n b w = (r, st')"
  obtains (early) d' where "r = Inl ()" "st' = st\<lparr>dev := d'\<rparr>" "sect d' = sect (dev st)"
  | (failed) d0 d' where "r = Inl ()" "st' = st\<lparr>dev := d'\<rparr>" "sect d0 = sect (dev st)"
      "sect d' = sect (hba_write hba (hba_set_command hba d0 (transfer_header hba w)
        (transfer_table hba lba n w) b) (port + PxCI) 1)"
  | (completed) d0 d' where "r = Inr (hba_buffer hba d')" "st' = st\<lparr>dev := d'\<rparr>"
      "sect d0 = sect (dev st)"
      "wait_completion hba port (if w then 50000 else 1000)
        (hba_write hba (hba_set_command hba d0 (transfer_header hba w)
          (transfer_table hba lba n w) b) (port + PxCI) 1) = (Completed, d')"
proof (cases "first_sata_port_cl st")
  case None
  then show ?thesis
    using assms early [of "dev st"] by (simp add: transfer_sectors_def)
next
  case (Some cl)
  obtain k d1 where p: "poll_while hba (port + PxTFD) (push_bit 7 1 OR push_bit 3 1) 10000 (dev st) = (k, d1)"
    by force
  note k1 = poll_while_keeps [OF p]
  define d3 where "d3 = hba_write hba (hba_write hba d1 (port + PxIS) 0xffffffff) (port + PxSERR) 0xffffffff"
  have k3: "sect d3 = sect (dev st)"
    by (simp add: d3_def k1 ack_keeps)
  let ?d5 = "hba_write hba (hba_set_command hba d3 (transfer_header hba w)
        (transfer_table hba lba n w) b) (port + PxCI) 1"
  obtain q d6 where w6: "wait_completion hba port (if w then 50000 else 1000) ?d5 = (q, d6)"
    by force
  have k6: "sect d6 = sect ?d5"
    using wait_completion_keeps [OF w6] by simp
  note eq = assms [unfolded transfer_sectors_def Some option.case p Let_def prod.case d3_def [symmetric] w6]
  show ?thesis
  proof (cases "k = 0")
    case True
    then show ?thesis
      using eq early [of "read_regs hba [port + PxTFD] d1"] k1 by (simp add: snd_read_keeps)
  next
    case False
    note eq' = eq [unfolded if_not_P [OF False]]
    show ?thesis
    proof (cases q)
      case Completed
      then show ?thesis
        using eq' w6 by (intro completed [OF _ _ k3, of d6]) auto
    next
      case TaskFileError
      then show ?thesis
        using eq' k6
        by (intro failed [OF _ _ k3, of "read_regs hba [port + PxIS, port + PxSERR, port + PxTFD] d6"])
            (auto simp: snd_read_keeps)
    next
      case TimedOut
      then show ?thesis
        using eq' k6
        by (intro failed [OF _ _ k3, of "read_regs hba [port + PxIS, port + PxTFD] d6"])
            (auto simp: snd_read_keeps)
    qed
  qed
qed

lemma transfer_read_law:
  assumes n: "0 < unat n" "unat n \<le> MODEL_IO_SECTORS"
    and t: "transfer_sectors hba port st lba n b False = (r, st')"
  shows "st' = st\<lparr>dev := dev st'\<rparr> \<and> sect (dev st') = sect (dev st) \<and>
    (\<forall>b'. r = Inr b' \<longrightarrow> b' = read_range (sect (dev st)) (fis_lba (transfer_cfis lba n False)) (unat n))"
proof -
  note cmd = transfer_dma_command [OF n, of hba False lba]
  show ?thesis
    using t
  proof (cases rule: transfer_cases)
    case early
    then show ?thesis by simp
  next
    case failed
    then show ?thesis
      using issue_read [OF cmd] by simp
  next
    case (completed d0 d')
    let ?d5 = "hba_write hba (hba_set_command hba d0 (transfer_header hba False)
      (transfer_table hba lba n False) b) (port + PxCI) 1"
    obtain d6 v where "inflight d6 = inflight ?d5" "hba_read hba d6 (port + PxCI) = (v, d')" "v AND 1 = 0"
      using wait_completion_done [OF completed(4)] by blast
    then have "hba_buffer hba d' = read_range (sect d0) (fis_lba (transfer_cfis lba n False)) (unat n)"
      using done_read [of d6 "sect d0" "transfer_header hba False" "transfer_table hba lba n False" b]
        issue_inflight [OF cmd] cmd by simp
    moreover have "sect d' = sect (dev st)"
      using wait_completion_keeps [OF completed(4)] issue_read [OF cmd]
        completed(3) by simp
    ultimately show ?thesis
      using completed by simp
  qed
qed

lemma transfer_write_law:
  assumes n: "0 < unat n" "unat n \<le> MODEL_IO_SECTORS" and lba: "unat lba < 2 ^ 48"
    and b: "length b = unat n * 512"
    and t: "transfer_sectors hba port st lba n b True = (r, st')"
  shows "st' = st\<lparr>dev := dev st'\<rparr> \<and>
    (\<forall>b'. r = Inr b' \<longrightarrow> sect (dev st') = write_range (sect (dev st)) (unat lba) (unat n) b) \<and>
    (\<forall>i. sect (dev st') i = sect (dev st) i \<or>
         sect (dev st') i = write_range (sect (dev st)) (unat lba) (unat n) b i)"
proof -
  note cmd = transfer_dma_command [OF n, of hba True lba]
  show ?thesis
    using t
  proof (cases rule: transfer_cases)
    case early
    then show ?thesis by simp
  next
    case (failed d0 d')
    then show ?thesis
      using issue_write [OF cmd, of b d0] lba b by simp
  next
    case (completed d0 d')
    let ?d5 = "hba_write hba (hba_set_command hba d0 (transfer_header hba True)
      (transfer_table hba lba n True) b) (port + PxCI) 1"
    obtain d6 v where "inflight d6 = inflight ?d5" "hba_read hba d6 (port + PxCI) = (v, d')" "v AND 1 = 0"
      using wait_completion_done [OF completed(4)] by blast
    then have "sect d' = write_range (sect d0) (unat lba) (unat n) b"
      using done_write [of d6 "sect d0" "transfer_header hba True" "transfer_table hba lba n True" b]
        issue_inflight [OF cmd] cmd lba b by simp
    then show ?thesis
      using completed by simp
  qed
qed

end

text \<open>The driver state in which sector operations reach the disk, and what they leave alone.\<close>

definition port_ready :: "nat \<Rightarrow> 'd ahci \<Rightarrow> bool" where
  "port_ready port st \<longleftrightarrow> first_sata_port st \<in> {None, Some port}"

definition only_dev :: "'d ahci \<Rightarrow> 'd ahci \<Rightarrow> bool" where
  "only_dev st st' \<longleftrightarrow> st' = st\<lparr>dev := dev st'\<rparr>"

sublocale ata_disk \<subseteq> sector_store "read_sectors hba" "write_sectors hba"
  "\<lambda>st. sect (dev st)" "port_ready port" only_dev
proof
  fix s s' s'' :: "'d ahci" and i n lba r q b
  show "length (sect (dev s) i) = 512"
    by (rule sect_length)
  show "only_dev s s"
    by (simp add: only_dev_def)
  show "only_dev s s' \<Longrightarrow> only_dev s' s'' \<Longrightarrow> only_dev s s''"
    by (cases s, cases s', cases s'') (simp add: only_dev_def)
  show "only_dev s s' \<Longrightarrow> port_ready port s \<Longrightarrow> port_ready port s'"
    unfolding only_dev_def port_ready_def by (metis ahci.ext_inject ahci.surjective ahci.update_convs(8))
  show "only_dev s s' \<and> sect (dev s') = sect (dev s) \<and>
      (\<forall>b. r = Inr b \<longrightarrow> unat lba < 2 ^ 48 \<longrightarrow> b = read_range (sect (dev s)) (unat lba) (unat n))"
    if "port_ready port s" "0 < unat n" "unat n \<le> MODEL_IO_SECTORS" "read_sectors hba s lba n = (r, s')"
    using that transfer_read_law [OF that(2,3)]
    by (fastforce simp: read_sectors_def port_ready_def only_dev_def split: option.splits)
  show "only_dev s s' \<and>
      (q = Inr () \<longrightarrow> sect (dev s') = write_range (sect (dev s)) (unat lba) (unat n) b) \<and>
      (\<forall>i. sect (dev s') i = sect (dev s) i \<or>
           sect (dev s') i = write_range (sect (dev s)) (unat lba) (unat n) b i)"
    if "port_ready port s" "0 < unat n" "unat n \<le> MODEL_IO_SECTORS" "unat lba < 2 ^ 48"
      "length b = unat n * 512" "write_sectors hba s lba n b = (q, s')"
    using that transfer_write_law [OF that(2-5)]
    by (fastforce simp: write_sectors_def port_ready_def only_dev_def
        split: option.splits prod.splits sum.splits)
qed

context ata_disk
begin

lemmas sectors_roundtrip = read_after_write
  and sectors_frame = write_outside
  and sectors_write_law = wr_law
  and sectors_read_law = rd_law

end

section \<open>A disk that meets the contract\<close>

text \<open>
  A disk that carries out every command as soon as it is issued, on port 2 of the controller (word
  offset 128).  Its state is the contents before the last command and that command.
\<close>

record ref_disk =
  ref_base :: "nat \<Rightarrow> bytes"
  ref_slot :: "(command_header \<times> command_table \<times> bytes) option"
  ref_cmd :: "((nat \<Rightarrow> bytes) \<times> command_header \<times> command_table \<times> bytes) option"

definition pad_sector :: "bytes \<Rightarrow> bytes" where
  "pad_sector b = take 512 (b @ replicate 512 0)"

definition fis_is_write :: "command_table \<Rightarrow> bool" where
  "fis_is_write t \<longleftrightarrow> cfis t ! 2 = 0x35"

definition ref_sect :: "ref_disk \<Rightarrow> nat \<Rightarrow> bytes" where
  "ref_sect d i = pad_sector (case ref_cmd d of None \<Rightarrow> ref_base d i
     | Some (c, h, t, b) \<Rightarrow>
         if fis_is_write t then write_range (pad_sector \<circ> c) (fis_lba (cfis t)) (fis_count (cfis t)) b i
         else c i)"

definition ref_inflight ::
  "ref_disk \<Rightarrow> ((nat \<Rightarrow> bytes) \<times> command_header \<times> command_table \<times> bytes) option" where
  "ref_inflight d = map_option (\<lambda>(c, cmd). (pad_sector \<circ> c, cmd)) (ref_cmd d)"

definition ref_hba :: "ref_disk hba" where
  "ref_hba = \<lparr>hba_read = \<lambda>d r. (0, d),
     hba_write = \<lambda>d r v. if r = 142
       then d\<lparr>ref_cmd := map_option (Pair (ref_sect d)) (ref_slot d), ref_base := ref_sect d\<rparr> else d,
     hba_set_command = \<lambda>d h t b. d\<lparr>ref_slot := Some (h, t, b)\<rparr>,
     hba_buffer = \<lambda>d. case ref_cmd d of None \<Rightarrow> []
       | Some (c, h, t, b) \<Rightarrow> read_range (pad_sector \<circ> c) (fis_lba (cfis t)) (fis_count (cfis t)),
     hba_ct_phys = 0x1000, hba_data_phys = 0x2000\<rparr>"

definition ref_port :: nat where
  "ref_port = 128"

definition ref_ahci :: "ref_disk ahci" where
  "ref_ahci = \<lparr>first_sata_port = Some ref_port, first_sata_port_cl = Some 0,
     first_sata_port_fis = Some 0, model_cache_start_lba = None, ssd_sector_count = Some 4000000,
     memory_db_header_lba = None, model_info = None,
     dev = \<lparr>ref_base = \<lambda>_. [], ref_slot = None, ref_cmd = None\<rparr>\<rparr>"

lemma pad_sector_id [simp]: "length b = 512 \<Longrightarrow> pad_sector b = b"
  by (simp add: pad_sector_def)

lemma length_pad_sector [simp]: "length (pad_sector b) = 512"
  by (simp add: pad_sector_def)

lemma pad_ref_sect [simp]: "pad_sector \<circ> ref_sect d = ref_sect d"
  by (rule ext) (simp add: ref_sect_def)

lemma length_write_range:
  assumes c: "\<And>i. length (c i) = 512" and b: "length b = n * 512"
  shows "length (write_range c lba n b i) = 512"
proof (cases "lba \<le> i \<and> i < lba + n")
  case True
  then have "512 \<le> n * 512 - (i - lba) * 512" by linarith
  then show ?thesis
    using True b by (simp add: write_range_def)
qed (use c in \<open>auto simp: write_range_def\<close>)

lemma dma_command_is_write [simp]: "dma_command hba w h t \<Longrightarrow> fis_is_write t = w"
  by (simp add: dma_command_def fis_is_write_def)

lemma ref_sect_slot [simp]: "ref_sect (d\<lparr>ref_slot := x\<rparr>) = ref_sect d"
  by (rule ext) (simp add: ref_sect_def split: option.split prod.split)

lemma ref_hba_issue:
  "ref_cmd (hba_write ref_hba (hba_set_command ref_hba d h t b) (ref_port + PxCI) 1)
    = Some (ref_sect d, h, t, b)"
  by (simp add: ref_hba_def ref_port_def px_regs)

lemma ref_sect_write:
  assumes "ref_cmd d = Some (c, h, t, b)" and "fis_is_write t" and "length b = fis_count (cfis t) * 512"
  shows "ref_sect d = write_range (pad_sector \<circ> c) (fis_lba (cfis t)) (fis_count (cfis t)) b"
  using assms by (intro ext) (simp add: ref_sect_def length_write_range)

lemma ref_sect_read: "ref_cmd d = Some (c, h, t, b) \<Longrightarrow> \<not> fis_is_write t \<Longrightarrow> ref_sect d = pad_sector \<circ> c"
  by (intro ext) (simp add: ref_sect_def)

interpretation ref: ata_disk ref_hba ref_sect ref_inflight ref_port
proof
  fix d d' :: ref_disk and h t b c r v i w
  show "length (ref_sect d i) = 512"
    by (simp add: ref_sect_def)
  show "hba_read ref_hba d r = (v, d') \<Longrightarrow> ref_sect d' = ref_sect d \<and> ref_inflight d' = ref_inflight d"
    by (simp add: ref_hba_def)
  show "r \<in> {PxIS, PxSERR} \<Longrightarrow> ref_sect (hba_write ref_hba d (ref_port + r) v) = ref_sect d"
    by (auto simp: ref_hba_def ref_port_def px_regs)
  show "ref_sect (hba_set_command ref_hba d h t b) = ref_sect d"
    by (simp add: ref_hba_def)
  let ?d' = "hba_write ref_hba (hba_set_command ref_hba d h t b) (ref_port + PxCI) 1"
  show "ref_inflight ?d' = Some (ref_sect d, h, t, b)"
    by (simp add: ref_inflight_def ref_hba_issue)
  show "ref_sect ?d' = ref_sect d" if "dma_command ref_hba False h t"
    using ref_sect_read [OF ref_hba_issue] that by simp
  show "ref_sect ?d' i \<in> {ref_sect d i,
      write_range (ref_sect d) (fis_lba (cfis t)) (fis_count (cfis t)) b i}"
    if "dma_command ref_hba True h t" "length b = fis_count (cfis t) * 512"
    using ref_sect_write [OF ref_hba_issue] that by simp
  assume "ref_inflight d = Some (c, h, t, b)" and read: "hba_read ref_hba d (ref_port + PxCI) = (v, d')"
  then obtain c' where c': "ref_cmd d = Some (c', h, t, b)" "c = pad_sector \<circ> c'"
    by (auto simp: ref_inflight_def)
  have d': "d' = d"
    using read by (simp add: ref_hba_def)
  show "hba_buffer ref_hba d' = read_range c (fis_lba (cfis t)) (fis_count (cfis t))"
    using c' d' by (simp add: ref_hba_def)
  show "ref_sect d' = write_range c (fis_lba (cfis t)) (fis_count (cfis t)) b"
    if "dma_command ref_hba True h t" "length b = fis_count (cfis t) * 512"
    using ref_sect_write [OF c'(1)] that c'(2) d' by simp
qed

lemma ref_poll_while [simp]: "poll_while ref_hba r m n d = (n, d)"
  by (cases n) (simp_all add: ref_hba_def)

lemma ref_wait_completion [simp]:
  "0 < n \<Longrightarrow> wait_completion ref_hba p n d = (Completed, d)"
  by (cases n) (simp_all add: ref_hba_def)

definition ref_issue ::
  "u64 \<Rightarrow> u16 \<Rightarrow> bytes \<Rightarrow> bool \<Rightarrow> ref_disk \<Rightarrow> ref_disk" where
  "ref_issue lba n b w d = d\<lparr>ref_base := ref_sect d,
     ref_slot := Some (transfer_header ref_hba w, transfer_table ref_hba lba n w, b),
     ref_cmd := Some (ref_sect d, transfer_header ref_hba w, transfer_table ref_hba lba n w, b)\<rparr>"

lemma ref_hba_set_issue:
  "hba_write ref_hba (hba_set_command ref_hba d h t b) (ref_port + PxCI) 1
    = d\<lparr>ref_base := ref_sect d, ref_slot := Some (h, t, b), ref_cmd := Some (ref_sect d, h, t, b)\<rparr>"
  by (simp add: ref_hba_def ref_port_def px_regs)

lemma ref_transfer:
  assumes "first_sata_port_cl st = Some cl" and "unat lba < 2 ^ 48"
  shows "transfer_sectors ref_hba ref_port st lba n b w
    = (Inr (read_range (ref_sect (dev st)) (unat lba) (unat n)), st\<lparr>dev := ref_issue lba n b w (dev st)\<rparr>)"
proof -
  have acks: "hba_write ref_hba d (ref_port + PxIS) v = d" "hba_write ref_hba d (ref_port + PxSERR) v = d"
    for d v by (simp_all add: ref_hba_def ref_port_def px_regs)
  have issue: "hba_write ref_hba (hba_set_command ref_hba d (transfer_header ref_hba w)
      (transfer_table ref_hba lba n w) b) (ref_port + PxCI) 1 = ref_issue lba n b w d" for d
    by (simp add: ref_hba_set_issue ref_issue_def)
  have buf: "hba_buffer ref_hba (ref_issue lba n b w d) = read_range (ref_sect d) (unat lba) (unat n)" for d
    using assms(2) by (simp add: ref_hba_def [THEN arg_cong [where f = hba_buffer]] ref_issue_def)
  show ?thesis
    by (simp add: transfer_sectors_def assms(1) acks issue buf)
qed

lemma ref_read_sectors:
  assumes "first_sata_port st = Some ref_port" and "first_sata_port_cl st = Some cl" and "unat lba < 2 ^ 48"
  shows "read_sectors ref_hba st lba n = (Inr (read_range (ref_sect (dev st)) (unat lba) (unat n)),
    st\<lparr>dev := ref_issue lba n (replicate (unat n * 512) 0) False (dev st)\<rparr>)"
  using assms by (simp add: read_sectors_def ref_transfer)

lemma ref_write_sectors:
  assumes "first_sata_port st = Some ref_port" and "first_sata_port_cl st = Some cl" and "unat lba < 2 ^ 48"
  shows "write_sectors ref_hba st lba n b = (Inr (), st\<lparr>dev := ref_issue lba n b True (dev st)\<rparr>)"
  using assms by (simp add: write_sectors_def ref_transfer)

lemma ref_ahci_ready [simp]: "port_ready ref_port ref_ahci" "first_sata_port ref_ahci = Some ref_port"
  "first_sata_port_cl ref_ahci = Some 0"
  by (simp_all add: port_ready_def ref_ahci_def)

section \<open>Properties of the sector transfers\<close>

text \<open>
  C19.  Every transfer the driver issues, for an LBA below \<open>2 ^ 48\<close> and between 1 and 8192
  sectors, is a well-formed DMA command of the requested direction whose FIS names exactly that
  LBA and that sector count, and whose PRDT entry describes exactly \<open>count * 512\<close> bytes at the
  buffer's address.
\<close>

theorem transfer_command_exact:
  assumes "unat lba < 2 ^ 48" and "0 < unat count" and "unat count \<le> MODEL_IO_SECTORS"
  shows "dma_command hba w (transfer_header hba w) (transfer_table hba lba count w) \<and>
    fis_lba (cfis (transfer_table hba lba count w)) = unat lba \<and>
    fis_count (cfis (transfer_table hba lba count w)) = unat count"
  using transfer_dma_command [OF assms(2,3)] assms(1) by simp

theorem transfer_command_exact_witness:
  "dma_command ref_hba True (transfer_header ref_hba True) (transfer_table ref_hba 0x123456789a 8192 True) \<and>
    fis_lba (cfis (transfer_table ref_hba 0x123456789a 8192 True)) = 0x123456789a \<and>
    fis_count (cfis (transfer_table ref_hba 0x123456789a 8192 True)) = 8192"
  using transfer_command_exact [of "0x123456789a" 8192 ref_hba True]
  by (simp add: MODEL_IO_SECTORS_def)

text \<open>
  C20.  On any adapter and disk that keep the hardware contract, sectors written by a successful
  \<open>write_sectors\<close> are what a successful \<open>read_sectors\<close> of the same range returns.
\<close>

theorem sectors_read_after_write:
  assumes "ata_disk hba sect inflight port" and "port_ready port st"
    and "0 < unat n" and "unat n \<le> MODEL_IO_SECTORS" and "unat lba < 2 ^ 48"
    and "length b = unat n * 512"
    and "write_sectors hba st lba n b = (Inr (), st1)"
    and "read_sectors hba st1 lba n = (Inr b', st2)"
  shows "b' = b"
  using ata_disk.sectors_roundtrip [OF assms] .

theorem sectors_read_after_write_witness:
  "\<exists>st1 st2 b'. write_sectors ref_hba ref_ahci 2048 1 (replicate 512 7) = (Inr (), st1) \<and>
    read_sectors ref_hba st1 2048 1 = (Inr b', st2) \<and> b' = replicate 512 7"
proof -
  obtain st1 where w: "write_sectors ref_hba ref_ahci 2048 1 (replicate 512 7) = (Inr (), st1)"
    and p: "first_sata_port st1 = Some ref_port" "first_sata_port_cl st1 = Some 0"
    by (simp add: ref_write_sectors [where cl = 0])
  obtain st2 b' where r: "read_sectors ref_hba st1 2048 1 = (Inr b', st2)"
    using ref_read_sectors [OF p] by simp
  show ?thesis
    using sectors_read_after_write [OF ref.ata_disk_axioms ref_ahci_ready(1) _ _ _ _ w r] w r
    by (simp add: MODEL_IO_SECTORS_def)
qed

text \<open>
  C23.  \<open>write_sectors\<close> changes nothing outside the sectors it is asked to write, and each sector
  inside is afterwards either what it was or what was written, also when it returns an error.
\<close>

theorem write_sectors_frame:
  assumes "ata_disk hba sect inflight port" and "port_ready port st"
    and "0 < unat n" and "unat n \<le> MODEL_IO_SECTORS" and "unat lba < 2 ^ 48"
    and "length b = unat n * 512" and "write_sectors hba st lba n b = (r, st')"
  shows "st' = st\<lparr>dev := dev st'\<rparr> \<and>
    (\<forall>i. i < unat lba \<or> unat lba + unat n \<le> i \<longrightarrow> sect (dev st') i = sect (dev st) i) \<and>
    (\<forall>i. sect (dev st') i \<in> {sect (dev st) i, write_range (sect (dev st)) (unat lba) (unat n) b i}) \<and>
    (r = Inr () \<longrightarrow> sect (dev st') = write_range (sect (dev st)) (unat lba) (unat n) b)"
  using ata_disk.sectors_write_law [OF assms] ata_disk.sectors_frame [OF assms]
  by (auto simp: only_dev_def)

theorem write_sectors_frame_witness:
  "\<exists>r st'. write_sectors ref_hba ref_ahci 2048 1 (replicate 512 7) = (r, st') \<and>
    ref_sect (dev st') 2049 = ref_sect (dev ref_ahci) 2049"
proof -
  obtain r st' where w: "write_sectors ref_hba ref_ahci 2048 1 (replicate 512 7) = (r, st')"
    by force
  show ?thesis
    using write_sectors_frame [OF ref.ata_disk_axioms ref_ahci_ready(1) _ _ _ _ w]
    by (simp add: MODEL_IO_SECTORS_def w)
qed

lemma unat_identify_word:
  "unat (identify_word data i) = from_le (subslice data (2 * i) (2 * i + 2))"
proof -
  have "from_le (subslice data (2 * i) (2 * i + 2)) < 256 ^ length (subslice data (2 * i) (2 * i + 2))"
    by (rule from_le_bound)
  also have "\<dots> \<le> 256 ^ 2"
    by (intro power_increasing) auto
  finally show ?thesis
    by (simp add: identify_word_def unat_of_nat16)
qed

lemma from_le_word_pair:
  "a + 4 \<le> length data \<Longrightarrow> from_le (subslice data a (a + 4))
    = from_le (subslice data a (a + 2)) + 2 ^ 16 * from_le (subslice data (a + 2) (a + 4))"
  by (simp add: subslice_split [of a "a + 2" "a + 4"] from_le_append)

text \<open>
  C24.  The capacity taken from the IDENTIFY data is the 64-bit number in words 100 to 103 when
  bit 10 of word 83 announces 48-bit addressing, and the 32-bit number in words 60 and 61 otherwise.
\<close>

theorem identify_capacity_exact:
  assumes "length data = 512"
  shows "unat (identify_capacity data) =
    (if bit (identify_word data 83) 10 then from_le (subslice data 200 208)
     else from_le (subslice data 120 124))"
proof -
  have quad: "from_le (subslice data 200 208)
      = from_le (subslice data 200 204) + 2 ^ 32 * from_le (subslice data 204 208)"
    using assms from_le_append [of "subslice data 200 204" "subslice data 204 208"]
    by (simp add: subslice_split [of 200 204 208])
  have bit10: "identify_word data 83 AND push_bit 10 1 \<noteq> 0 \<longleftrightarrow> bit (identify_word data 83) 10"
    by (metis bit_iff_and_push_bit_not_eq_0)
  show ?thesis
    using from_le_word_pair [of 200 data] from_le_word_pair [of 204 data] from_le_word_pair [of 120 data]
    by (simp add: identify_capacity_def bit10 quad assms unat_join16 unat_join32 unat_identify_word del: push_bit_of_1)
qed

theorem identify_capacity_exact_witness:
  "unat (identify_capacity (replicate 166 0 @ [0, 4] @ replicate 32 0 @ [0x30, 0x12, 1, 0, 0, 0, 0, 0]
      @ replicate 304 0)) = 0x11230"
  using identify_capacity_exact [of "replicate 166 0 @ [0, 4] @ replicate 32 0
      @ [0x30, 0x12, 1, 0, 0, 0, 0, 0] @ replicate 304 0"]
  by (simp add: identify_word_def subslice_def bit_iff_odd drop_replicate take_Cons')

end
