(* ===== verification/MemoryDb.thy ===== *)
theory MemoryDb
  imports Ahci
begin

text \<open>
  The memory database of \<open>kernel/src/drivers/storage/ahci.rs\<close>: an append-only log of byte
  payloads kept on raw sectors right after the cached model.  One header sector is followed by
  32 map sectors (a map header and 31 sectors of 16-byte entries) and by the data sectors.  The
  theory holds the on-disk encodings, \<open>memory_db_recover_from_map\<close>, and the operations append,
  erase, read and ensure.
\<close>

section \<open>Constants and encodings\<close>

definition MEMORY_DB_MAGIC :: bytes where "MEMORY_DB_MAGIC = ascii ''MEMDB002''"
definition MEMORY_DB_VERSION :: u32 where "MEMORY_DB_VERSION = 2"
definition MEMORY_DB_TOTAL_SECTORS :: u64 where "MEMORY_DB_TOTAL_SECTORS = 131072"
definition MEMORY_DB_MAP_MAGIC :: bytes where "MEMORY_DB_MAP_MAGIC = ascii ''DMAP''"
definition MEMORY_DB_MAP_VERSION :: u32 where "MEMORY_DB_MAP_VERSION = 1"
definition MEMORY_DB_MAP_SECTORS :: u64 where "MEMORY_DB_MAP_SECTORS = 32"
definition MEMORY_DB_MAP_ENTRY_SIZE :: u64 where "MEMORY_DB_MAP_ENTRY_SIZE = 16"
definition MEMORY_DB_MAP_ENTRIES_PER_SECTOR :: u64 where
  "MEMORY_DB_MAP_ENTRIES_PER_SECTOR = word_of_nat SECTOR_SIZE div MEMORY_DB_MAP_ENTRY_SIZE"
definition MEMORY_DB_MAP_FLAG_ACTIVE :: u32 where "MEMORY_DB_MAP_FLAG_ACTIVE = push_bit 0 1"
definition MEMORY_DB_ERASE_CHUNK_SECTORS :: u16 where "MEMORY_DB_ERASE_CHUNK_SECTORS = 8"

definition memory_db_map_entry_capacity :: u64 where
  "memory_db_map_entry_capacity =
    sat_sub64 MEMORY_DB_MAP_SECTORS 1 * MEMORY_DB_MAP_ENTRIES_PER_SECTOR"

record memory_db_header =
  magic :: bytes
  version :: u32
  sector_size :: u32
  header_lba :: u64
  data_lba :: u64
  total_sectors :: u64
  next_append_lba :: u64
  last_ssd_lba :: u64
  model_start_lba :: u64
  model_last_lba :: u64
  map_lba :: u64
  map_entries_used :: u64
  map_sectors :: u64

record memory_db_map_entry =
  start_lba :: u64
  payload_bytes :: u32
  entry_flags :: u32

definition sectors_for_bytes :: "nat \<Rightarrow> u64" where
  "sectors_for_bytes n = word_of_nat ((n + SECTOR_SIZE - 1) div SECTOR_SIZE)"

definition write_le_u32 :: "bytes \<Rightarrow> nat \<Rightarrow> u32 \<Rightarrow> bytes" where
  "write_le_u32 buf off v = overwrite buf off (u32_to_le_bytes v)"

definition write_le_u64 :: "bytes \<Rightarrow> nat \<Rightarrow> u64 \<Rightarrow> bytes" where
  "write_le_u64 buf off v = overwrite buf off (u64_to_le_bytes v)"

definition le_u32 :: "bytes \<Rightarrow> nat \<Rightarrow> u32" where
  "le_u32 buf off = u32_from_le_bytes (subslice buf off (off + 4))"

definition le_u64 :: "bytes \<Rightarrow> nat \<Rightarrow> u64" where
  "le_u64 buf off = u64_from_le_bytes (subslice buf off (off + 8))"

definition zero_sector :: bytes where
  "zero_sector = replicate SECTOR_SIZE 0"

definition memory_db_map_entry_location :: "u64 \<Rightarrow> unit + u64 \<times> nat" where
  "memory_db_map_entry_location entry_index =
    (if memory_db_map_entry_capacity \<le> entry_index then Inl ()
     else Inr (entry_index div MEMORY_DB_MAP_ENTRIES_PER_SECTOR,
       unat (sat_mul64 (entry_index mod MEMORY_DB_MAP_ENTRIES_PER_SECTOR) MEMORY_DB_MAP_ENTRY_SIZE)))"

section \<open>The map\<close>

definition parse_map_header :: "bytes \<Rightarrow> unit + u64 \<times> u64" where
  "parse_map_header map_header =
    (if subslice map_header 0 4 \<noteq> MEMORY_DB_MAP_MAGIC then Inl ()
     else if le_u32 map_header 4 \<noteq> MEMORY_DB_MAP_VERSION then Inl ()
     else if ucast (le_u32 map_header 8) \<noteq> MEMORY_DB_MAP_ENTRY_SIZE then Inl ()
     else if ucast (le_u32 map_header 12) \<noteq> memory_db_map_entry_capacity
       \<or> ucast (le_u32 map_header 12) < le_u64 map_header 16 then Inl ()
     else Inr (ucast (le_u32 map_header 8), le_u64 map_header 16))"

definition memory_db_read_map_header ::
  "'d hba \<Rightarrow> 'd ahci \<Rightarrow> u64 \<Rightarrow> (unit + u64 \<times> u64) \<times> 'd ahci" where
  "memory_db_read_map_header hba st lba =
    try_q (read_sectors hba st lba 1) (\<lambda>map_header st. (parse_map_header map_header, st))"

definition map_header_bytes :: "u64 \<Rightarrow> bytes" where
  "map_header_bytes used =
    write_le_u64
      (write_le_u32
        (write_le_u32
          (write_le_u32 (overwrite zero_sector 0 MEMORY_DB_MAP_MAGIC) 4 MEMORY_DB_MAP_VERSION)
          8 16)
        12 (ucast memory_db_map_entry_capacity))
      16 used"

definition memory_db_write_map_header ::
  "'d hba \<Rightarrow> 'd ahci \<Rightarrow> u64 \<Rightarrow> u64 \<Rightarrow> (unit + unit) \<times> 'd ahci" where
  "memory_db_write_map_header hba st lba used = write_sectors hba st lba 1 (map_header_bytes used)"

definition parse_map_entry :: "bytes \<Rightarrow> nat \<Rightarrow> memory_db_map_entry" where
  "parse_map_entry sector off =
    \<lparr>start_lba = le_u64 sector off, payload_bytes = le_u32 sector (off + 8),
     entry_flags = le_u32 sector (off + 12)\<rparr>"

definition memory_db_read_map_entry ::
  "'d hba \<Rightarrow> 'd ahci \<Rightarrow> u64 \<Rightarrow> u64 \<Rightarrow> (unit + memory_db_map_entry) \<times> 'd ahci" where
  "memory_db_read_map_entry hba st lba entry_index =
    (case memory_db_map_entry_location entry_index of Inl e \<Rightarrow> (Inl e, st)
     | Inr (sector_offset, entry_offset) \<Rightarrow>
        try_q (read_sectors hba st (sat_add64 lba (sector_offset + 1)) 1)
          (\<lambda>sector st. (Inr (parse_map_entry sector entry_offset), st)))"

definition put_map_entry :: "bytes \<Rightarrow> nat \<Rightarrow> u64 \<Rightarrow> u32 \<Rightarrow> u32 \<Rightarrow> bytes" where
  "put_map_entry sector off start payload fl =
    write_le_u32 (write_le_u32 (write_le_u64 sector off start) (off + 8) payload) (off + 12) fl"

definition memory_db_write_map_entry ::
  "'d hba \<Rightarrow> 'd ahci \<Rightarrow> u64 \<Rightarrow> u64 \<Rightarrow> u64 \<Rightarrow> u32 \<Rightarrow> u32 \<Rightarrow> (unit + unit) \<times> 'd ahci" where
  "memory_db_write_map_entry hba st lba entry_index start payload fl =
    (case memory_db_map_entry_location entry_index of Inl e \<Rightarrow> (Inl e, st)
     | Inr (sector_offset, entry_offset) \<Rightarrow>
        (let entry_lba = sat_add64 lba (sector_offset + 1)
         in try_q (read_sectors hba st entry_lba 1)
              (\<lambda>sector st. write_sectors hba st entry_lba 1
                 (put_map_entry sector entry_offset start payload fl))))"

section \<open>The header\<close>

definition memory_db_register_state :: "'d ahci \<Rightarrow> u64 \<Rightarrow> 'd ahci" where
  "memory_db_register_state st db_lba =
    st\<lparr>memory_db_header_lba := once_set (memory_db_header_lba st) db_lba\<rparr>"

definition parse_header :: "bytes \<Rightarrow> unit + memory_db_header" where
  "parse_header header =
    (if subslice header 0 8 \<noteq> MEMORY_DB_MAGIC then Inl ()
     else if le_u32 header 8 \<noteq> MEMORY_DB_VERSION then Inl ()
     else if le_u32 header 12 \<noteq> word_of_nat SECTOR_SIZE then Inl ()
     else Inr \<lparr>magic = subslice header 0 8, version = le_u32 header 8, sector_size = le_u32 header 12,
       header_lba = le_u64 header 16, data_lba = le_u64 header 24, total_sectors = le_u64 header 32,
       next_append_lba = le_u64 header 40, last_ssd_lba = le_u64 header 48,
       model_start_lba = le_u64 header 56, model_last_lba = le_u64 header 64,
       map_lba = le_u64 header 72, map_entries_used = le_u64 header 80, map_sectors = le_u64 header 88\<rparr>)"

definition memory_db_read_header ::
  "'d hba \<Rightarrow> 'd ahci \<Rightarrow> u64 \<Rightarrow> (unit + memory_db_header) \<times> 'd ahci" where
  "memory_db_read_header hba st db_lba =
    try_q (read_sectors hba st db_lba 1) (\<lambda>header st. (parse_header header, st))"

definition header_fields :: "memory_db_header \<Rightarrow> (nat \<times> bytes) list" where
  "header_fields state =
    [(0, magic state), (8, u32_to_le_bytes (version state)), (12, u32_to_le_bytes (sector_size state)),
     (16, u64_to_le_bytes (header_lba state)), (24, u64_to_le_bytes (data_lba state)),
     (32, u64_to_le_bytes (total_sectors state)), (40, u64_to_le_bytes (next_append_lba state)),
     (48, u64_to_le_bytes (last_ssd_lba state)), (56, u64_to_le_bytes (model_start_lba state)),
     (64, u64_to_le_bytes (model_last_lba state)), (72, u64_to_le_bytes (map_lba state)),
     (80, u64_to_le_bytes (map_entries_used state)), (88, u64_to_le_bytes (map_sectors state))]"

definition header_bytes :: "memory_db_header \<Rightarrow> bytes" where
  "header_bytes state =
    fold (\<lambda>(off, field) header. overwrite header off field) (header_fields state) zero_sector"

definition memory_db_write_header ::
  "'d hba \<Rightarrow> 'd ahci \<Rightarrow> memory_db_header \<Rightarrow> (unit + unit) \<times> 'd ahci" where
  "memory_db_write_header hba st state =
    (case memory_db_header_lba st of None \<Rightarrow> (Inl (), st)
     | Some db_lba \<Rightarrow>
        if header_lba state \<noteq> db_lba then (Inl (), st)
        else write_sectors hba st db_lba 1 (header_bytes state))"

section \<open>Recovery\<close>

fun recover_loop ::
  "'d hba \<Rightarrow> 'd ahci \<Rightarrow> u64 \<Rightarrow> u64 \<Rightarrow> nat \<Rightarrow> u64 \<Rightarrow> u64 \<Rightarrow> (unit + u64 \<times> u64) \<times> 'd ahci" where
  "recover_loop hba st lba db_data_end 0 cursor recovered = (Inr (cursor, recovered), st)"
| "recover_loop hba st lba db_data_end (Suc k) cursor recovered =
    try_q (memory_db_read_map_entry hba st lba recovered) (\<lambda>entry st.
      if entry_flags entry AND MEMORY_DB_MAP_FLAG_ACTIVE = 0 then (Inr (cursor, recovered), st)
      else if payload_bytes entry = 0 then (Inr (cursor, recovered), st)
      else case checked_add64 cursor (sectors_for_bytes (unat (payload_bytes entry))) of
          None \<Rightarrow> (Inl (), st)
        | Some next_cursor \<Rightarrow>
            if start_lba entry \<noteq> cursor \<or> db_data_end < next_cursor
            then (Inr (cursor, recovered), st)
            else recover_loop hba st lba db_data_end k next_cursor (recovered + 1))"

text \<open>The second component is the caller's header, updated in place.\<close>

definition memory_db_recover_from_map ::
  "'d hba \<Rightarrow> 'd ahci \<Rightarrow> memory_db_header \<Rightarrow> (unit + unit) \<times> memory_db_header \<times> 'd ahci" where
  "memory_db_recover_from_map hba st state =
    (if map_lba state = 0 \<or> map_sectors state \<noteq> MEMORY_DB_MAP_SECTORS then (Inl (), state, st)
     else let db_data_end = sat_add64 (data_lba state) (total_sectors state)
     in case memory_db_read_map_header hba st (map_lba state) of
          (Inl e, st) \<Rightarrow> (Inl e, state, st)
        | (Inr (_, used_from_map_header), st) \<Rightarrow>
            (case recover_loop hba st (map_lba state) db_data_end
                    (unat (min used_from_map_header memory_db_map_entry_capacity))
                    (data_lba state) 0 of
               (Inl e, st) \<Rightarrow> (Inl e, state, st)
             | (Inr (cursor, recovered), st) \<Rightarrow>
                (let state = state\<lparr>next_append_lba := cursor, map_entries_used := recovered\<rparr>
                 in if next_append_lba state < data_lba state \<or> db_data_end < next_append_lba state
                    then (Inl (), state, st)
                    else (Inr (), state, st))))"

section \<open>Append\<close>

text \<open>
  One iteration of the write loop: the full sectors of the chunk straight from the payload, then a
  zero-padded tail sector.  The result is the next LBA and the number of bytes consumed.
\<close>

definition append_chunk_len :: "u64 \<Rightarrow> u64 \<Rightarrow> bytes \<Rightarrow> nat" where
  "append_chunk_len db_end_exclusive write_lba data =
    (let available_bytes = min (unat (sat_sub64 db_end_exclusive write_lba) * SECTOR_SIZE) usize_max
     in min (min (length data) available_bytes) (MODEL_IO_SECTORS * SECTOR_SIZE))"

definition append_chunk ::
  "'d hba \<Rightarrow> 'd ahci \<Rightarrow> u64 \<Rightarrow> u64 \<Rightarrow> bytes \<Rightarrow> (unit + u64 \<times> nat) \<times> 'd ahci" where
  "append_chunk hba st db_end_exclusive write_lba data =
    (if sat_sub64 db_end_exclusive write_lba = 0 then (Inl (), st)
     else let chunk_len = append_chunk_len db_end_exclusive write_lba data;
              full_sectors = chunk_len div SECTOR_SIZE;
              tail_bytes = chunk_len - full_sectors * SECTOR_SIZE
        in if chunk_len = 0 then (Inl (), st)
        else try_q
          (if 0 < full_sectors
           then (case u16_try_from full_sectors of Inl e \<Rightarrow> (Inl e, st)
             | Inr sectors \<Rightarrow>
                try_q (write_sectors hba st write_lba sectors (take (full_sectors * SECTOR_SIZE) data))
                  (\<lambda>_ st. (Inr (write_lba + ucast sectors), st)))
           else (Inr write_lba, st))
          (\<lambda>write_lba st.
            if 0 < tail_bytes
            then try_q (write_sectors hba st write_lba 1
                    (overwrite zero_sector 0 (subslice data (full_sectors * SECTOR_SIZE) chunk_len)))
                  (\<lambda>_ st. (Inr (write_lba + 1, chunk_len), st))
            else (Inr (write_lba, chunk_len), st)))"

lemma append_chunk_consumes:
  "append_chunk hba st e l data = (Inr (l', n), st') \<Longrightarrow> n = append_chunk_len e l data \<and> 0 < n"
  by (auto simp: append_chunk_def Let_def try_q_Inr split: if_splits)

function append_loop ::
  "'d hba \<Rightarrow> 'd ahci \<Rightarrow> u64 \<Rightarrow> u64 \<Rightarrow> nat \<Rightarrow> bytes \<Rightarrow> (unit + u64 \<times> nat) \<times> 'd ahci" where
  "append_loop hba st db_end_exclusive write_lba written data =
    (if data = [] then (Inr (write_lba, written), st)
     else try_q (append_chunk hba st db_end_exclusive write_lba data)
       (\<lambda>(write_lba, n) st. append_loop hba st db_end_exclusive write_lba (written + n) (drop n data)))"
  by pat_completeness auto

termination
  by (relation "measure (\<lambda>(hba, st, e, l, w, data). length data)")
    (auto dest!: append_chunk_consumes)

declare append_loop.simps [simp del]

text \<open>After the payload: its map entry, then the map header, then the header.\<close>

definition append_commit ::
  "'d hba \<Rightarrow> 'd ahci \<Rightarrow> memory_db_header \<Rightarrow> bytes \<Rightarrow> u64 \<Rightarrow> nat \<Rightarrow> (unit + nat) \<times> 'd ahci" where
  "append_commit hba st state data write_lba written =
    (case u32_try_from (length data) of Inl e \<Rightarrow> (Inl e, st)
     | Inr payload_u32 \<Rightarrow>
        try_q (memory_db_write_map_entry hba st (map_lba state) (map_entries_used state)
                (next_append_lba state) payload_u32 MEMORY_DB_MAP_FLAG_ACTIVE) (\<lambda>_ st.
         (let state = state\<lparr>map_entries_used := map_entries_used state + 1,
                            next_append_lba := write_lba\<rparr>
          in try_q (memory_db_write_map_header hba st (map_lba state) (map_entries_used state))
              (\<lambda>_ st. try_q (memory_db_write_header hba st state)
                (\<lambda>_ st. (Inr written, st))))))"

text \<open>From the recovered header on: the capacity checks, the payload, the closing writes.\<close>

definition append_write ::
  "'d hba \<Rightarrow> 'd ahci \<Rightarrow> memory_db_header \<Rightarrow> bytes \<Rightarrow> (unit + nat) \<times> 'd ahci" where
  "append_write hba st state data =
    (if memory_db_map_entry_capacity \<le> map_entries_used state then (Inl (), st)
     else case ssd_sector_count st of None \<Rightarrow> (Inl (), st)
     | Some capacity_sectors \<Rightarrow>
       (let db_data_end = sat_add64 (data_lba state) (total_sectors state);
            disk_last_exclusive = sat_add64 capacity_sectors 1;
            db_end_exclusive = min db_data_end disk_last_exclusive
        in if next_append_lba state < data_lba state \<or> db_end_exclusive \<le> next_append_lba state
           then (Inl (), st)
           else try_q (append_loop hba st db_end_exclusive (next_append_lba state) 0 data)
            (\<lambda>(write_lba, written) st. append_commit hba st state data write_lba written)))"

text \<open>\<open>None\<close> is the null pointer; otherwise the payload is the byte string of length \<open>data_len\<close>.\<close>

definition append_memory_db :: "'d hba \<Rightarrow> 'd ahci \<Rightarrow> bytes option \<Rightarrow> (unit + nat) \<times> 'd ahci" where
  "append_memory_db hba st payload =
    (case memory_db_header_lba st of None \<Rightarrow> (Inl (), st)
     | Some db_lba \<Rightarrow>
      (case payload of None \<Rightarrow> (Inr 0, st)
       | Some data \<Rightarrow>
        if data = [] then (Inr 0, st)
        else try_q (memory_db_read_header hba st db_lba) (\<lambda>state st.
          if map_lba state \<noteq> sat_add64 db_lba 1 \<or> map_sectors state \<noteq> MEMORY_DB_MAP_SECTORS
          then (Inl (), st)
          else case memory_db_recover_from_map hba st state of
            (_, state, st) \<Rightarrow> append_write hba st state data)))"

section \<open>Erase\<close>

lemma erase_step_decreases:
  assumes "(lba :: u64) < e"
  shows "unat e - unat (sat_add64 lba (min (sat_sub64 e lba) (ucast MEMORY_DB_ERASE_CHUNK_SECTORS)))
    < unat e - unat lba"
proof -
  have lt: "unat lba < unat e"
    using assms by (simp add: word_less_nat_alt)
  have "unat (min (sat_sub64 e lba) (ucast MEMORY_DB_ERASE_CHUNK_SECTORS)) = min (unat e - unat lba) 8"
    by (simp add: min_def word_le_nat_alt unat_sat_sub64 MEMORY_DB_ERASE_CHUNK_SECTORS_def)
  then have "unat (sat_add64 lba (min (sat_sub64 e lba) (ucast MEMORY_DB_ERASE_CHUNK_SECTORS)))
      = min (unat lba + min (unat e - unat lba) 8) (2 ^ 64 - 1)"
    by (simp add: unat_sat_add64)
  moreover have "unat e < 2 ^ 64"
    by (rule unat_lt64)
  ultimately show ?thesis
    using lt by linarith
qed

lemma erase_sectors_ucast:
  assumes "u16_try_from (unat (min r (ucast MEMORY_DB_ERASE_CHUNK_SECTORS))) = Inr sectors"
  shows "ucast sectors = min (r :: u64) (ucast MEMORY_DB_ERASE_CHUNK_SECTORS)"
  using assms by (simp add: u16_try_from_Inr word_unat_eq_iff)

function erase_loop :: "'d hba \<Rightarrow> 'd ahci \<Rightarrow> u64 \<Rightarrow> u64 \<Rightarrow> (unit + unit) \<times> 'd ahci" where
  "erase_loop hba st lba db_end_exclusive =
    (if lba < db_end_exclusive
     then let remaining = sat_sub64 db_end_exclusive lba;
              count = min remaining (ucast MEMORY_DB_ERASE_CHUNK_SECTORS)
          in case u16_try_from (unat count) of Inl e \<Rightarrow> (Inl e, st)
             | Inr sectors \<Rightarrow>
                try_q (write_sectors hba st lba sectors
                        (take (unat sectors * SECTOR_SIZE)
                          (replicate (unat MEMORY_DB_ERASE_CHUNK_SECTORS * SECTOR_SIZE) 0)))
                  (\<lambda>_ st. erase_loop hba st (sat_add64 lba (ucast sectors)) db_end_exclusive)
     else (Inr (), st))"
  by pat_completeness auto

termination
  by (relation "measure (\<lambda>(hba, st, lba, e). unat e - unat lba)")
    (simp_all only: in_measure prod.case erase_sectors_ucast erase_step_decreases wf_measure)

declare erase_loop.simps [simp del]

definition erase_memory_db :: "'d hba \<Rightarrow> 'd ahci \<Rightarrow> (unit + unit) \<times> 'd ahci" where
  "erase_memory_db hba st =
    (case memory_db_header_lba st of None \<Rightarrow> (Inl (), st)
     | Some db_lba \<Rightarrow>
      try_q (memory_db_read_header hba st db_lba) (\<lambda>state st.
        if header_lba state \<noteq> db_lba \<or> map_lba state \<noteq> sat_add64 db_lba 1
           \<or> map_sectors state \<noteq> MEMORY_DB_MAP_SECTORS \<or> total_sectors state \<noteq> MEMORY_DB_TOTAL_SECTORS
        then (Inl (), st)
        else case ssd_sector_count st of None \<Rightarrow> (Inl (), st)
        | Some capacity_sectors \<Rightarrow>
          (case checked_add64 db_lba MEMORY_DB_TOTAL_SECTORS of None \<Rightarrow> (Inl (), st)
           | Some db_end_exclusive \<Rightarrow>
            if capacity_sectors < db_end_exclusive then (Inl (), st)
            else try_q (erase_loop hba st db_lba db_end_exclusive) (\<lambda>_ st.
              try_q (memory_db_write_map_header hba st (map_lba state) 0) (\<lambda>_ st.
                memory_db_write_header hba st
                  \<lparr>magic = MEMORY_DB_MAGIC, version = MEMORY_DB_VERSION,
                   sector_size = word_of_nat SECTOR_SIZE, header_lba = db_lba,
                   data_lba = data_lba state, total_sectors = MEMORY_DB_TOTAL_SECTORS,
                   next_append_lba = data_lba state, last_ssd_lba = sat_sub64 capacity_sectors 1,
                   model_start_lba = model_start_lba state, model_last_lba = model_last_lba state,
                   map_lba = map_lba state, map_entries_used = 0,
                   map_sectors = MEMORY_DB_MAP_SECTORS\<rparr>)))))"

section \<open>Read\<close>

function read_entry_loop ::
  "'d hba \<Rightarrow> 'd ahci \<Rightarrow> u64 \<Rightarrow> u64 \<Rightarrow> nat \<Rightarrow> nat \<Rightarrow> nat \<Rightarrow> bytes \<Rightarrow> (unit + nat \<times> bytes) \<times> 'd ahci" where
  "read_entry_loop hba st usable_tail start payload entry_offset remaining acc =
    (if entry_offset < payload \<and> 0 < remaining
     then let to_copy = min (min (payload - entry_offset) remaining) SECTOR_SIZE
       in case checked_add64 start (word_of_nat (entry_offset div SECTOR_SIZE)) of
            None \<Rightarrow> (Inl (), st)
          | Some read_lba \<Rightarrow>
             if usable_tail \<le> read_lba then (Inl (), st)
             else try_q (read_sectors hba st read_lba 1) (\<lambda>sector st.
               read_entry_loop hba st usable_tail start payload (entry_offset + to_copy)
                 (remaining - to_copy) (acc @ take to_copy sector))
     else (Inr (remaining, acc), st))"
  by pat_completeness auto

termination
  by (relation "measure (\<lambda>(hba, st, u, s, payload, off, r, acc). payload - off)")
    (auto simp: SECTOR_SIZE_def)

declare read_entry_loop.simps [simp del]

text \<open>\<open>k\<close> is \<open>entries_remaining\<close>; the result is the bytes stored into the caller's buffer.\<close>

fun read_entries_loop ::
  "'d hba \<Rightarrow> 'd ahci \<Rightarrow> u64 \<Rightarrow> u64 \<Rightarrow> u64 \<Rightarrow> nat \<Rightarrow> nat \<Rightarrow> bytes \<Rightarrow> (unit + bytes) \<times> 'd ahci" where
  "read_entries_loop hba st usable_tail lba used 0 remaining acc = (Inr acc, st)"
| "read_entries_loop hba st usable_tail lba used (Suc k) remaining acc =
    (if remaining = 0 then (Inr acc, st)
     else try_q (memory_db_read_map_entry hba st lba (used - word_of_nat (Suc k))) (\<lambda>entry st.
       if entry_flags entry AND MEMORY_DB_MAP_FLAG_ACTIVE = 0 then (Inr acc, st)
       else if payload_bytes entry = 0 then (Inr acc, st)
       else try_q (read_entry_loop hba st usable_tail (start_lba entry)
                     (unat (payload_bytes entry)) 0 remaining acc) (\<lambda>(remaining, acc) st.
              read_entries_loop hba st usable_tail lba used k remaining acc)))"

text \<open>From the recovered header on.\<close>

definition read_entries :: "'d hba \<Rightarrow> 'd ahci \<Rightarrow> memory_db_header \<Rightarrow> nat \<Rightarrow> (unit + bytes) \<times> 'd ahci" where
  "read_entries hba st state buf_len =
    (case ssd_sector_count st of None \<Rightarrow> (Inl (), st)
     | Some capacity_sectors \<Rightarrow>
      (let db_data_end = sat_add64 (data_lba state) (total_sectors state);
           usable_tail = (if db_data_end < capacity_sectors then capacity_sectors else db_data_end)
       in if next_append_lba state < data_lba state \<or> db_data_end < next_append_lba state
          then (Inl (), st)
          else let entries_remaining = min (map_entries_used state) memory_db_map_entry_capacity
          in if entries_remaining = 0 then (Inr [], st)
             else read_entries_loop hba st usable_tail (map_lba state) (map_entries_used state)
                    (unat entries_remaining) buf_len []))"

text \<open>\<open>None\<close> is a null buffer; otherwise the result is the prefix of the buffer that was filled.\<close>

definition read_memory_db :: "'d hba \<Rightarrow> 'd ahci \<Rightarrow> nat option \<Rightarrow> (unit + bytes) \<times> 'd ahci" where
  "read_memory_db hba st buf =
    (case memory_db_header_lba st of None \<Rightarrow> (Inl (), st)
     | Some db_lba \<Rightarrow>
      (case buf of None \<Rightarrow> (Inr [], st)
       | Some buf_len \<Rightarrow>
        if buf_len = 0 then (Inr [], st)
        else try_q (memory_db_read_header hba st db_lba) (\<lambda>state st.
          if map_lba state \<noteq> sat_add64 db_lba 1 \<or> map_sectors state \<noteq> MEMORY_DB_MAP_SECTORS
          then (Inl (), st)
          else case memory_db_recover_from_map hba st state of
            (_, state, st) \<Rightarrow> read_entries hba st state buf_len)))"

section \<open>Ensure\<close>

fun zero_sectors_from :: "'d hba \<Rightarrow> 'd ahci \<Rightarrow> u64 \<Rightarrow> nat \<Rightarrow> (unit + unit) \<times> 'd ahci" where
  "zero_sectors_from hba st lba 0 = (Inr (), st)"
| "zero_sectors_from hba st lba (Suc n) =
    try_q (write_sectors hba st lba 1 zero_sector) (\<lambda>_ st. zero_sectors_from hba st (lba + 1) n)"

definition fresh_header :: "u64 \<Rightarrow> u64 \<Rightarrow> u64 \<Rightarrow> u64 \<Rightarrow> memory_db_header" where
  "fresh_header db_lba capacity_sectors model_start model_last =
    \<lparr>magic = MEMORY_DB_MAGIC, version = MEMORY_DB_VERSION, sector_size = word_of_nat SECTOR_SIZE,
     header_lba = db_lba, data_lba = sat_add64 (sat_add64 db_lba 1) MEMORY_DB_MAP_SECTORS,
     total_sectors = MEMORY_DB_TOTAL_SECTORS,
     next_append_lba = sat_add64 (sat_add64 db_lba 1) MEMORY_DB_MAP_SECTORS,
     last_ssd_lba = sat_sub64 capacity_sectors 1,
     model_start_lba = model_start, model_last_lba = model_last, map_lba = sat_add64 db_lba 1,
     map_entries_used = 0, map_sectors = MEMORY_DB_MAP_SECTORS\<rparr>"

text \<open>The tail of \<open>ensure_memory_db\<close>: write and verify a fresh, empty database.\<close>

definition write_fresh_db ::
  "'d hba \<Rightarrow> 'd ahci \<Rightarrow> u64 \<Rightarrow> u64 \<Rightarrow> u64 \<Rightarrow> u64 \<Rightarrow> (unit + unit) \<times> 'd ahci" where
  "write_fresh_db hba st db_lba capacity_sectors model_start model_last =
    (let db_map_lba = sat_add64 db_lba 1;
         header = header_bytes (fresh_header db_lba capacity_sectors model_start model_last)
     in try_q (zero_sectors_from hba st db_map_lba (unat MEMORY_DB_MAP_SECTORS)) (\<lambda>_ st.
        try_q (memory_db_write_map_header hba st db_map_lba 0) (\<lambda>_ st.
        try_q (write_sectors hba st db_lba 1 header) (\<lambda>_ st.
        try_q (read_sectors hba st db_lba 1) (\<lambda>verify st.
          if subslice verify 0 8 \<noteq> MEMORY_DB_MAGIC then (Inl (), st)
          else (Inr (), memory_db_register_state st db_lba))))))"

definition existing_header_valid :: "bytes \<Rightarrow> u64 \<Rightarrow> u64 \<Rightarrow> u64 \<Rightarrow> u64 \<Rightarrow> bool" where
  "existing_header_valid existing db_lba db_map_lba db_data_lba db_end_exclusive \<longleftrightarrow>
    subslice existing 0 8 = MEMORY_DB_MAGIC \<and> le_u32 existing 8 = MEMORY_DB_VERSION \<and>
    le_u32 existing 12 = word_of_nat SECTOR_SIZE \<and> le_u64 existing 16 = db_lba \<and>
    le_u64 existing 24 = db_data_lba \<and> le_u64 existing 72 = db_map_lba \<and>
    le_u64 existing 88 = MEMORY_DB_MAP_SECTORS \<and> le_u64 existing 32 = MEMORY_DB_TOTAL_SECTORS \<and>
    db_data_lba \<le> le_u64 existing 40 \<and> le_u64 existing 40 \<le> db_end_exclusive \<and>
    le_u64 existing 80 \<le> memory_db_map_entry_capacity"

definition existing_header :: "bytes \<Rightarrow> u64 \<Rightarrow> u64 \<Rightarrow> memory_db_header" where
  "existing_header existing model_start model_last =
    \<lparr>magic = MEMORY_DB_MAGIC, version = le_u32 existing 8, sector_size = le_u32 existing 12,
     header_lba = le_u64 existing 16, data_lba = le_u64 existing 24,
     total_sectors = le_u64 existing 32, next_append_lba = le_u64 existing 40,
     last_ssd_lba = le_u64 existing 48, model_start_lba = model_start, model_last_lba = model_last,
     map_lba = le_u64 existing 72, map_entries_used = le_u64 existing 80,
     map_sectors = le_u64 existing 88\<rparr>"

text \<open>The branch of \<open>ensure_memory_db\<close> in which the header sector could be read.\<close>

definition ensure_existing ::
  "'d hba \<Rightarrow> 'd ahci \<Rightarrow> bytes \<Rightarrow> u64 \<Rightarrow> u64 \<Rightarrow> u64 \<Rightarrow> u64 \<Rightarrow> u64 \<Rightarrow> (unit + unit) \<times> 'd ahci" where
  "ensure_existing hba st existing db_lba capacity_sectors db_end_exclusive model_start model_last =
    (let db_map_lba = sat_add64 db_lba 1;
         db_data_lba = sat_add64 db_map_lba MEMORY_DB_MAP_SECTORS
     in case memory_db_read_map_header hba st (le_u64 existing 72) of (map_read, st) \<Rightarrow>
        if existing_header_valid existing db_lba db_map_lba db_data_lba db_end_exclusive \<and> \<not> isl map_read
        then case memory_db_recover_from_map hba st (existing_header existing model_start model_last) of
            (Inr _, state, st) \<Rightarrow>
              try_q (memory_db_write_map_header hba st (map_lba state) (map_entries_used state))
                (\<lambda>_ st. memory_db_write_header hba (memory_db_register_state st db_lba) state)
          | (Inl _, _, st) \<Rightarrow>
              write_fresh_db hba st db_lba capacity_sectors model_start model_last
        else write_fresh_db hba st db_lba capacity_sectors model_start model_last)"

definition ensure_memory_db ::
  "'d hba \<Rightarrow> 'd ahci \<Rightarrow> u64 \<Rightarrow> u64 \<Rightarrow> u64 \<Rightarrow> (unit + unit) \<times> 'd ahci" where
  "ensure_memory_db hba st db_lba model_start model_last =
    (case ssd_sector_count st of None \<Rightarrow> (Inl (), st)
     | Some capacity_sectors \<Rightarrow>
      (case checked_add64 db_lba MEMORY_DB_TOTAL_SECTORS of None \<Rightarrow> (Inl (), st)
       | Some db_end_exclusive \<Rightarrow>
        if capacity_sectors < db_end_exclusive then (Inl (), st)
        else
         (let db_map_lba = sat_add64 db_lba 1;
              db_data_lba = sat_add64 db_map_lba MEMORY_DB_MAP_SECTORS
          in if db_end_exclusive \<le> db_data_lba then (Inl (), st)
             else case read_sectors hba st db_lba 1 of
               (Inl _, st) \<Rightarrow> write_fresh_db hba st db_lba capacity_sectors model_start model_last
             | (Inr existing, st) \<Rightarrow>
                 ensure_existing hba st existing db_lba capacity_sectors db_end_exclusive
                   model_start model_last)))"

section \<open>System calls\<close>

definition sys_append_memory_db :: "'d hba \<Rightarrow> 'd ahci \<Rightarrow> bytes option \<Rightarrow> int \<times> 'd ahci" where
  "sys_append_memory_db hba st data =
    (if data = None then (- EINVAL, st)
     else case append_memory_db hba st data of
        (Inr written, st) \<Rightarrow> (i32_try_from_or_max written, st)
      | (Inl _, st) \<Rightarrow> (- ENOSPC, st))"

text \<open>The bytes stored into the caller's buffer accompany the return value.\<close>

definition sys_read_memory_db :: "'d hba \<Rightarrow> 'd ahci \<Rightarrow> nat option \<Rightarrow> (int \<times> bytes) \<times> 'd ahci" where
  "sys_read_memory_db hba st buf =
    (case buf of None \<Rightarrow> ((- EINVAL, []), st)
     | Some buf_len \<Rightarrow>
        if buf_len = 0 then ((0, []), st)
        else case read_memory_db hba st buf of
           (Inr bs, st) \<Rightarrow> ((i32_try_from_or_max (length bs), bs), st)
         | (Inl _, st) \<Rightarrow> ((- EIO, []), st))"

definition sys_erase_memory_db :: "'d hba \<Rightarrow> 'd ahci \<Rightarrow> int \<times> 'd ahci" where
  "sys_erase_memory_db hba st =
    (case erase_memory_db hba st of (Inr _, st) \<Rightarrow> (0, st) | (Inl _, st) \<Rightarrow> (- EIO, st))"

end
