(* ===== verification/MemoryDbLog.thy ===== *)
theory MemoryDbLog
  imports MemoryDb
begin

text \<open>
  The abstract view of the memory database: the log of payloads that the sectors hold.  The
  theory proves the encodings of the header, of the map header and of the map entries inverse to
  their parsers, shows that recovery finds the whole log, and that append, read, erase and ensure
  implement the operations of a log, also when a write fails half-way.
\<close>

section \<open>Encodings\<close>

named_theorems db_consts \<open>the constants of the memory database\<close>

lemma capacity_992 [db_consts]: "memory_db_map_entry_capacity = 992"
  unfolding memory_db_map_entry_capacity_def MEMORY_DB_MAP_ENTRIES_PER_SECTOR_def SECTOR_SIZE_def
    MEMORY_DB_MAP_ENTRY_SIZE_def MEMORY_DB_MAP_SECTORS_def
  by code_simp

lemma per_sector_32 [db_consts]: "MEMORY_DB_MAP_ENTRIES_PER_SECTOR = 32"
  unfolding MEMORY_DB_MAP_ENTRIES_PER_SECTOR_def SECTOR_SIZE_def MEMORY_DB_MAP_ENTRY_SIZE_def
  by code_simp

lemmas [db_consts] = MEMORY_DB_MAP_ENTRY_SIZE_def MEMORY_DB_MAP_SECTORS_def MEMORY_DB_VERSION_def
  MEMORY_DB_TOTAL_SECTORS_def MEMORY_DB_MAP_VERSION_def MEMORY_DB_MAP_FLAG_ACTIVE_def

lemma length_zero_sector [simp]: "length zero_sector = 512"
  by (simp add: zero_sector_def SECTOR_SIZE_def)

lemma length_magics [simp]: "length MEMORY_DB_MAGIC = 8" "length MEMORY_DB_MAP_MAGIC = 4"
  by (simp_all add: MEMORY_DB_MAGIC_def MEMORY_DB_MAP_MAGIC_def)

text \<open>A field written at one offset is read back there and leaves the others alone.\<close>

lemma length_write_le [simp]:
  "off + 4 \<le> length b \<Longrightarrow> length (write_le_u32 b off v) = length b"
  "off + 8 \<le> length b \<Longrightarrow> length (write_le_u64 b off w) = length b"
  by (simp_all add: write_le_u32_def write_le_u64_def length_overwrite)

lemma le_write_same [slice_simps]:
  "off + 4 \<le> length b \<Longrightarrow> le_u32 (write_le_u32 b off v) off = v"
  "off + 8 \<le> length b \<Longrightarrow> le_u64 (write_le_u64 b off w) off = w"
  by (simp_all add: le_u32_def le_u64_def write_le_u32_def write_le_u64_def subslice_overwrite_same)

lemma subslice_write_other [slice_simps]:
  "off + 4 \<le> length b \<Longrightarrow> j \<le> off \<or> off + 4 \<le> i \<Longrightarrow>
    subslice (write_le_u32 b off v) i j = subslice b i j"
  "off + 8 \<le> length b \<Longrightarrow> j \<le> off \<or> off + 8 \<le> i \<Longrightarrow>
    subslice (write_le_u64 b off w) i j = subslice b i j"
  by (auto simp: write_le_u32_def write_le_u64_def subslice_overwrite_before subslice_overwrite_after)

lemma le_write_other [slice_simps]:
  "off + 4 \<le> length b \<Longrightarrow> i + 4 \<le> off \<or> off + 4 \<le> i \<Longrightarrow> le_u32 (write_le_u32 b off v) i = le_u32 b i"
  "off + 8 \<le> length b \<Longrightarrow> i + 4 \<le> off \<or> off + 8 \<le> i \<Longrightarrow> le_u32 (write_le_u64 b off w) i = le_u32 b i"
  "off + 4 \<le> length b \<Longrightarrow> i + 8 \<le> off \<or> off + 4 \<le> i \<Longrightarrow> le_u64 (write_le_u32 b off v) i = le_u64 b i"
  "off + 8 \<le> length b \<Longrightarrow> i + 8 \<le> off \<or> off + 8 \<le> i \<Longrightarrow> le_u64 (write_le_u64 b off w) i = le_u64 b i"
  by (simp_all add: le_u32_def le_u64_def subslice_write_other)

lemma length_map_header_bytes [simp]: "length (map_header_bytes used) = 512"
  by (simp add: map_header_bytes_def length_overwrite)

lemma parse_map_header_bytes:
  assumes "used \<le> memory_db_map_entry_capacity"
  shows "parse_map_header (map_header_bytes used) = Inr (16, used)"
proof -
  have "(ucast (memory_db_map_entry_capacity) :: u32) = 992" "ucast (992 :: u32) = (992 :: u64)"
    "ucast (16 :: u32) = (16 :: u64)"
    by (simp_all add: capacity_992)
  then show ?thesis
    using assms
    by (simp add: parse_map_header_def map_header_bytes_def slice_simps length_overwrite not_less db_consts)
qed

lemma length_put_map_entry [simp]:
  "off + 16 \<le> length b \<Longrightarrow> length (put_map_entry b off s p f) = length b"
  by (simp add: put_map_entry_def)

lemma parse_put_map_entry:
  "off + 16 \<le> length b \<Longrightarrow>
    parse_map_entry (put_map_entry b off s p f) off = \<lparr>start_lba = s, payload_bytes = p, entry_flags = f\<rparr>"
  by (simp add: parse_map_entry_def put_map_entry_def slice_simps)

lemma parse_put_map_entry_other:
  "off + 16 \<le> length b \<Longrightarrow> i + 16 \<le> off \<or> off + 16 \<le> i \<Longrightarrow>
    parse_map_entry (put_map_entry b off s p f) i = parse_map_entry b i"
  by (auto simp: parse_map_entry_def put_map_entry_def slice_simps)

lemma length_header_bytes [simp]: "length (magic h) = 8 \<Longrightarrow> length (header_bytes h) = 512"
  by (simp add: header_bytes_def header_fields_def length_overwrite)

lemma header_bytes_fields:
  assumes "length (magic h) = 8"
  shows "subslice (header_bytes h) 0 8 = magic h" "le_u32 (header_bytes h) 8 = version h"
    "le_u32 (header_bytes h) 12 = sector_size h" "le_u64 (header_bytes h) 16 = header_lba h"
    "le_u64 (header_bytes h) 24 = data_lba h" "le_u64 (header_bytes h) 32 = total_sectors h"
    "le_u64 (header_bytes h) 40 = next_append_lba h" "le_u64 (header_bytes h) 48 = last_ssd_lba h"
    "le_u64 (header_bytes h) 56 = model_start_lba h" "le_u64 (header_bytes h) 64 = model_last_lba h"
    "le_u64 (header_bytes h) 72 = map_lba h" "le_u64 (header_bytes h) 80 = map_entries_used h"
    "le_u64 (header_bytes h) 88 = map_sectors h"
  using assms
  by (simp_all add: header_bytes_def header_fields_def le_u32_def le_u64_def slice_simps)

definition header_current :: "memory_db_header \<Rightarrow> bool" where
  "header_current h \<longleftrightarrow> magic h = MEMORY_DB_MAGIC \<and> version h = MEMORY_DB_VERSION \<and>
    sector_size h = word_of_nat SECTOR_SIZE"

lemma parse_header_bytes: "header_current h \<Longrightarrow> parse_header (header_bytes h) = Inr h"
  by (simp add: parse_header_def header_current_def header_bytes_fields)

section \<open>Layout of the log\<close>

definition w64 :: "nat \<Rightarrow> u64" where
  "w64 n = word_of_nat n"

lemma unat_w64: "n < 2 ^ 64 \<Longrightarrow> unat (w64 n) = n"
  by (simp add: w64_def unat_of_nat64)

lemma w64_unat [simp]: "w64 (unat x) = x"
  by (simp add: w64_def)

lemma w64_simps: "w64 0 = 0" "w64 (Suc 0) = 1" "w64 n + 1 = w64 (Suc n)"
  by (simp_all add: w64_def)

lemma w64_add: "w64 m + w64 n = w64 (m + n)"
  by (simp add: w64_def)

text \<open>First sector of the map, of the data, and the end of the data of a database at \<open>L\<close>.\<close>

definition map_at :: "nat \<Rightarrow> nat" where "map_at L = L + 1"
definition data_at :: "nat \<Rightarrow> nat" where "data_at L = L + 33"
definition end_at :: "nat \<Rightarrow> nat" where "end_at L = L + 33 + 131072"

lemmas db_layout = map_at_def data_at_def end_at_def

lemma unat_layout:
  assumes "end_at L < 2 ^ 48"
  shows "unat (w64 L) = L" "unat (w64 (map_at L)) = map_at L" "unat (w64 (data_at L)) = data_at L"
    "unat (w64 (end_at L)) = end_at L" "L < 2 ^ 48" "map_at L < 2 ^ 48" "data_at L < 2 ^ 48"
  using assms by (auto simp: unat_w64 db_layout)

lemma layout_words:
  assumes "end_at L < 2 ^ 48"
  shows "sat_add64 (w64 (data_at L)) MEMORY_DB_TOTAL_SECTORS = w64 (end_at L)"
    "sat_add64 (w64 L) 1 = w64 (map_at L)"
    "sat_add64 (w64 (map_at L)) MEMORY_DB_MAP_SECTORS = w64 (data_at L)"
  using assms unat_layout [OF assms]
  by (simp_all add: word_unat_eq_iff unat_sat_add64 db_consts db_layout)

text \<open>
  Sectors of a payload, and the first sector of the \<open>k\<close>-th payload of a database at \<open>L\<close>: one header
  sector and 32 map sectors come first.
\<close>

definition secs :: "nat \<Rightarrow> nat" where
  "secs n = (n + 511) div 512"

definition log_start :: "nat \<Rightarrow> bytes list \<Rightarrow> nat" where
  "log_start L log = data_at L + sum_list (map (secs \<circ> length) log)"

lemma log_start_Nil [simp]: "log_start L [] = data_at L"
  by (simp add: log_start_def)

lemma log_start_snoc [simp]: "log_start L (log @ [d]) = log_start L log + secs (length d)"
  by (simp add: log_start_def)

lemma log_start_take_Suc:
  "k < length log \<Longrightarrow> log_start L (take (Suc k) log) = log_start L (take k log) + secs (length (log ! k))"
  by (simp add: take_Suc_conv_app_nth)

lemma log_start_mono: "k \<le> n \<Longrightarrow> log_start L (take k log) \<le> log_start L (take n log)"
proof -
  assume "k \<le> n"
  then obtain m where "take n log = take k log @ take m (drop k log)"
    by (metis le_add_diff_inverse take_add)
  then show ?thesis by (simp add: log_start_def)
qed

lemma log_start_ge: "data_at L \<le> log_start L log"
  by (simp add: log_start_def)

lemma secs_bounds: "n \<le> secs n * 512" "secs n * 512 < n + 512"
  using div_ceil_bounds [of 512 n] by (simp_all add: secs_def)

lemma secs_exact: "n mod 512 = 0 \<Longrightarrow> secs n * 512 = n"
  by (auto simp: secs_def mod_eq_0_iff_dvd elim!: dvdE)

lemma secs_pos: "0 < n \<Longrightarrow> 0 < secs n"
  using secs_bounds(1) [of n] by (cases "secs n") auto

lemma unat_sectors_for_bytes: "n < 2 ^ 64 \<Longrightarrow> unat (sectors_for_bytes n) = secs n"
proof -
  assume "n < 2 ^ 64"
  then have "secs n < 2 ^ 64"
    using secs_bounds(2) [of n] by simp
  then show ?thesis
    unfolding sectors_for_bytes_def SECTOR_SIZE_def
    by (subst unat_of_nat64) (simp_all add: secs_def)
qed

text \<open>The map entry with index \<open>k\<close>, the header and the map header, as the sectors hold them.\<close>

definition disk_entry :: "(nat \<Rightarrow> bytes) \<Rightarrow> nat \<Rightarrow> nat \<Rightarrow> memory_db_map_entry" where
  "disk_entry c L k = parse_map_entry (c (L + 2 + k div 32)) (k mod 32 * 16)"

definition db_map :: "(nat \<Rightarrow> bytes) \<Rightarrow> nat \<Rightarrow> nat \<Rightarrow> bool" where
  "db_map c L n \<longleftrightarrow> parse_map_header (c (map_at L)) = Inr (16, w64 n) \<and> n \<le> 992"

definition db_entry :: "(nat \<Rightarrow> bytes) \<Rightarrow> nat \<Rightarrow> bytes list \<Rightarrow> nat \<Rightarrow> bool" where
  "db_entry c L log k \<longleftrightarrow>
    start_lba (disk_entry c L k) = w64 (log_start L (take k log)) \<and>
    payload_bytes (disk_entry c L k) = word_of_nat (length (log ! k)) \<and>
    entry_flags (disk_entry c L k) AND MEMORY_DB_MAP_FLAG_ACTIVE \<noteq> 0 \<and>
    0 < length (log ! k) \<and> length (log ! k) < 2 ^ 32 \<and>
    take (length (log ! k)) (read_range c (log_start L (take k log)) (secs (length (log ! k)))) = log ! k"

definition db_header :: "(nat \<Rightarrow> bytes) \<Rightarrow> nat \<Rightarrow> memory_db_header \<Rightarrow> bool" where
  "db_header c L h \<longleftrightarrow> parse_header (c L) = Inr h \<and>
    header_lba h = w64 L \<and> data_lba h = w64 (data_at L) \<and>
    total_sectors h = MEMORY_DB_TOTAL_SECTORS \<and> map_lba h = w64 (map_at L) \<and>
    map_sectors h = MEMORY_DB_MAP_SECTORS"

text \<open>
  \<open>db_log c L log\<close>: the sectors \<open>c\<close> hold the database at \<open>L\<close> with exactly the payloads \<open>log\<close>.
  \<open>db_synced\<close> adds that the header's own cursor and count agree with the map; after an interrupted
  append they may lag behind it.
\<close>

definition db_log :: "(nat \<Rightarrow> bytes) \<Rightarrow> nat \<Rightarrow> bytes list \<Rightarrow> bool" where
  "db_log c L log \<longleftrightarrow> (\<exists>h. db_header c L h) \<and> db_map c L (length log) \<and>
    (\<forall>k < length log. db_entry c L log k) \<and> log_start L log \<le> end_at L \<and>
    end_at L < 2 ^ 48"

definition db_synced :: "(nat \<Rightarrow> bytes) \<Rightarrow> nat \<Rightarrow> bytes list \<Rightarrow> bool" where
  "db_synced c L log \<longleftrightarrow> db_log c L log \<and>
    (\<exists>h. db_header c L h \<and> next_append_lba h = w64 (log_start L log) \<and>
         map_entries_used h = w64 (length log))"

section \<open>Updates of the sectors and the log\<close>

lemma db_entry_cong:
  assumes "take k log' = take k log" and "log' ! k = log ! k"
    and "c' (L + 2 + k div 32) = c (L + 2 + k div 32)"
    and "\<And>i. log_start L (take k log) \<le> i \<Longrightarrow> i < log_start L (take k log) + secs (length (log ! k)) \<Longrightarrow> c' i = c i"
  shows "db_entry c' L log' k = db_entry c L log k"
proof -
  have "read_range c' (log_start L (take k log)) (secs (length (log ! k)))
      = read_range c (log_start L (take k log)) (secs (length (log ! k)))"
    by (rule read_range_cong) (rule assms(4))
  then show ?thesis
    using assms(1-3) by (simp add: db_entry_def disk_entry_def)
qed

lemma db_entry_within: "k < length log \<Longrightarrow> log_start L (take k log) + secs (length (log ! k)) \<le> log_start L log"
  using log_start_mono [of "Suc k" "length log" L log] log_start_take_Suc [of k log L] by simp

text \<open>Sectors at or beyond the end of the log do not matter.\<close>

lemma db_log_beyond:
  assumes "db_log c L log" and "\<And>i. i < log_start L log \<Longrightarrow> c' i = c i"
  shows "db_log c' L log" and "db_header c' L = db_header c L"
proof -
  have ge: "L + 33 \<le> log_start L log" and len: "length log \<le> 992"
    using log_start_ge assms(1) by (auto simp: db_log_def db_map_def data_at_def)
  show hdr: "db_header c' L = db_header c L"
    using assms(2) [of L] ge by (intro ext) (simp add: db_header_def)
  have "db_entry c' L log k = db_entry c L log k" if k: "k < length log" for k
  proof (rule db_entry_cong)
    have "k div 32 < 31" using k len by simp
    then show "c' (L + 2 + k div 32) = c (L + 2 + k div 32)"
      using ge by (intro assms(2)) simp
    show "c' i = c i" if "i < log_start L (take k log) + secs (length (log ! k))" for i
      using that db_entry_within [OF k, of L] by (intro assms(2)) simp
  qed simp_all
  then show "db_log c' L log"
    using assms ge hdr by (simp add: db_log_def db_map_def map_at_def)
qed

lemma db_synced_beyond:
  "db_synced c L log \<Longrightarrow> (\<And>i. i < log_start L log \<Longrightarrow> c' i = c i) \<Longrightarrow> db_synced c' L log"
  using db_log_beyond [of c L log c'] by (simp add: db_synced_def)

text \<open>
  A payload that is on disk with its map entry but not yet counted by the map header.
\<close>

definition db_pending :: "(nat \<Rightarrow> bytes) \<Rightarrow> nat \<Rightarrow> bytes list \<Rightarrow> bytes \<Rightarrow> bool" where
  "db_pending c L log data \<longleftrightarrow> db_log c L log \<and> db_entry c L (log @ [data]) (length log) \<and>
    log_start L (log @ [data]) \<le> end_at L \<and> length log < 992"

lemma db_put_entry:
  fixes c L log and data :: bytes
  defines "n \<equiv> length log"
  defines "c' \<equiv> c(L + 2 + n div 32 := put_map_entry (c (L + 2 + n div 32)) (n mod 32 * 16)
      (w64 (log_start L log)) (word_of_nat (length data)) MEMORY_DB_MAP_FLAG_ACTIVE)"
  assumes db: "db_log c L log" and n: "n < 992" and len: "\<And>i. length (c i) = 512"
  shows "db_log c' L log" and "db_header c' L = db_header c L"
    and "disk_entry c' L n = \<lparr>start_lba = w64 (log_start L log), payload_bytes = word_of_nat (length data),
      entry_flags = MEMORY_DB_MAP_FLAG_ACTIVE\<rparr>"
proof -
  have off: "n mod 32 * 16 + 16 \<le> 512"
    using mod_less_divisor [of 32 n] by linarith
  have div: "n div 32 < 31"
    using n by simp
  show hdr: "db_header c' L = db_header c L"
    by (intro ext) (simp add: db_header_def c'_def)
  show "disk_entry c' L n = \<lparr>start_lba = w64 (log_start L log), payload_bytes = word_of_nat (length data),
      entry_flags = MEMORY_DB_MAP_FLAG_ACTIVE\<rparr>"
    using off len by (simp add: disk_entry_def c'_def parse_put_map_entry)
  have same: "disk_entry c' L k = disk_entry c L k" if "k < n" for k
  proof (cases "k div 32 = n div 32")
    case True
    then have "k mod 32 < n mod 32"
      using that by (metis div_mult_mod_eq nat_add_left_cancel_less)
    then have "k mod 32 * 16 + 16 \<le> n mod 32 * 16" by simp
    then show ?thesis
      using True off len by (simp add: disk_entry_def c'_def parse_put_map_entry_other)
  qed (simp add: disk_entry_def c'_def)
  have data: "read_range c' a m = read_range c a m" if "L + 33 \<le> a" for a m
    using that div by (intro read_range_cong) (simp add: c'_def)
  have "db_entry c' L log k = db_entry c L log k" if "k < n" for k
    using same [OF that] data [OF order_trans [OF _ log_start_ge]]
    by (simp add: db_entry_def data_at_def)
  then show "db_log c' L log"
    using db hdr by (simp add: db_log_def n_def db_map_def c'_def map_at_def)
qed

text \<open>
  A payload written behind the log, with a header \<open>h\<close> whose cursor and count are those of the log:
  the state in which an append makes its three closing writes.
\<close>

definition append_ready :: "(nat \<Rightarrow> bytes) \<Rightarrow> nat \<Rightarrow> bytes list \<Rightarrow> bytes \<Rightarrow> memory_db_header \<Rightarrow> bool" where
  "append_ready c L log data h \<longleftrightarrow> db_log c L log \<and> length log < 992 \<and> data \<noteq> [] \<and>
    take (length data) (read_range c (log_start L log) (secs (length data))) = data \<and>
    log_start L (log @ [data]) \<le> end_at L \<and>
    header_current h \<and> header_lba h = w64 L \<and> data_lba h = w64 (data_at L) \<and>
    total_sectors h = MEMORY_DB_TOTAL_SECTORS \<and> map_lba h = w64 (map_at L) \<and>
    map_sectors h = MEMORY_DB_MAP_SECTORS \<and> next_append_lba h = w64 (log_start L log) \<and>
    map_entries_used h = w64 (length log)"

text \<open>A header whose layout is that of a database at \<open>L\<close> and whose cursor is that of the log.\<close>

definition header_of_log :: "nat \<Rightarrow> bytes list \<Rightarrow> memory_db_header \<Rightarrow> bool" where
  "header_of_log L log h \<longleftrightarrow> header_current h \<and> header_lba h = w64 L \<and> data_lba h = w64 (data_at L) \<and>
    total_sectors h = MEMORY_DB_TOTAL_SECTORS \<and> map_lba h = w64 (map_at L) \<and>
    map_sectors h = MEMORY_DB_MAP_SECTORS \<and> next_append_lba h = w64 (log_start L log) \<and>
    map_entries_used h = w64 (length log)"

lemma append_ready_put:
  fixes c L log and data :: bytes
  defines "n \<equiv> length log"
  defines "c' \<equiv> c(L + 2 + n div 32 := put_map_entry (c (L + 2 + n div 32)) (n mod 32 * 16)
      (w64 (log_start L log)) (word_of_nat (length data)) MEMORY_DB_MAP_FLAG_ACTIVE)"
  assumes rdy: "append_ready c L log data h" and p: "length data < 2 ^ 32" and len: "\<And>i. length (c i) = 512"
  shows "db_pending c' L log data"
proof -
  have db: "db_log c L log" and n: "n < 992"
    using rdy by (auto simp: append_ready_def n_def)
  note put = db_put_entry [OF db n [unfolded n_def] len, of data, folded n_def, folded c'_def]
  have "n div 32 < 31"
    using n by simp
  then have "read_range c' (log_start L log) m = read_range c (log_start L log) m" for m
    using log_start_ge [of L log] by (intro read_range_cong) (simp add: c'_def data_at_def)
  then have "db_entry c' L (log @ [data]) n"
    using put(3) rdy p by (simp add: db_entry_def append_ready_def n_def MEMORY_DB_MAP_FLAG_ACTIVE_def)
  then show ?thesis
    using put(1) rdy n by (simp add: db_pending_def append_ready_def n_def)
qed

lemma db_commit:
  assumes "db_pending c L log data"
  defines "c' \<equiv> c(map_at L := map_header_bytes (w64 (Suc (length log))))"
  shows "db_log c' L (log @ [data])" and "db_header c' L = db_header c L"
proof -
  have db: "db_log c L log" and ent: "db_entry c L (log @ [data]) (length log)"
    and le: "log_start L (log @ [data]) \<le> end_at L" and n: "length log < 992"
    using assms(1) by (auto simp: db_pending_def)
  show hdr: "db_header c' L = db_header c L"
    by (intro ext) (simp add: db_header_def c'_def map_at_def)
  have entries: "db_entry c' L (log @ [data]) k = db_entry c L (log @ [data]) k" for k
    by (rule db_entry_cong) (use log_start_ge [of L "take k (log @ [data])"] in
        \<open>auto simp: c'_def db_layout\<close>)
  have old: "db_entry c L (log @ [data]) k = db_entry c L log k" if "k < length log" for k
    by (rule db_entry_cong) (use that in \<open>auto simp: nth_append\<close>)
  have "w64 (Suc (length log)) \<le> memory_db_map_entry_capacity"
    using n unat_w64 [of "Suc (length log)"] by (simp add: capacity_992 word_le_nat_alt)
  then have "db_map c' L (length (log @ [data]))"
    using n by (simp add: db_map_def c'_def parse_map_header_bytes)
  then show "db_log c' L (log @ [data])"
    using db le hdr entries old ent by (auto simp: db_log_def less_Suc_eq)
qed

lemma db_sync:
  assumes "db_log c L log" and "header_current h" and "header_lba h = w64 L" and "data_lba h = w64 (data_at L)"
    and "total_sectors h = MEMORY_DB_TOTAL_SECTORS" and "map_lba h = w64 (map_at L)"
    and "map_sectors h = MEMORY_DB_MAP_SECTORS"
  defines "c' \<equiv> c(L := header_bytes h)"
  shows "db_log c' L log" and "db_header c' L h"
proof -
  show hdr: "db_header c' L h"
    using assms(2-7) by (simp add: db_header_def c'_def parse_header_bytes)
  have "db_entry c' L log k = db_entry c L log k" for k
    by (rule db_entry_cong) (use log_start_ge [of L "take k log"] in \<open>auto simp: c'_def db_layout\<close>)
  then show "db_log c' L log"
    using assms(1) hdr by (auto simp: db_log_def db_map_def c'_def map_at_def)
qed

lemma db_header_current: "db_header c L h \<Longrightarrow> header_current h"
  by (auto simp: db_header_def parse_header_def header_current_def split: if_splits)

section \<open>One sector at a time\<close>

lemma only_devD:
  assumes "only_dev st st'"
  shows "memory_db_header_lba st' = memory_db_header_lba st" "ssd_sector_count st' = ssd_sector_count st"
    "model_cache_start_lba st' = model_cache_start_lba st" "model_info st' = model_info st"
    "first_sata_port st' = first_sata_port st" "first_sata_port_cl st' = first_sata_port_cl st"
  using assms unfolding only_dev_def by (cases st, cases st', simp)+

text \<open>No read fails from a state with the given statics, whatever the device has been through.\<close>

definition reads_ok :: "'d hba \<Rightarrow> 'd ahci \<Rightarrow> bool" where
  "reads_ok hba st \<longleftrightarrow> (\<forall>d lba n. \<not> isl (fst (read_sectors hba (st\<lparr>dev := d\<rparr>) lba n)))"

lemma reads_ok_keeps: "only_dev st st' \<Longrightarrow> reads_ok hba st' = reads_ok hba st"
  unfolding only_dev_def reads_ok_def by (metis ahci.surjective ahci.update_convs(8))

lemma reads_ok_read: "reads_ok hba st \<Longrightarrow> read_sectors hba st lba n \<noteq> (Inl e, st')"
  unfolding reads_ok_def
  by (metis ahci.surjective ahci.update_convs(8) fst_conv sum.disc(1))

lemma write_range_1: "length b = 512 \<Longrightarrow> write_range c a 1 b = c(a := b)"
  by (rule ext) (auto simp: write_range_def subslice_def)

lemma map_entry_location:
  assumes "k < 992"
  shows "memory_db_map_entry_location (w64 k) = Inr (w64 (k div 32), k mod 32 * 16)"
proof -
  have k: "unat (w64 k :: u64) = k"
    using assms by (simp add: unat_w64)
  have "\<not> (992 :: u64) \<le> w64 k"
    using assms k by (simp add: word_le_nat_alt)
  moreover have "(w64 k :: u64) div 32 = w64 (k div 32)"
    using assms k by (simp add: word_unat_eq_iff unat_div_distrib unat_w64)
  moreover have "unat ((w64 k :: u64) mod 32) = k mod 32"
    using k by (simp add: unat_mod_distrib)
  ultimately show ?thesis
    by (simp add: memory_db_map_entry_location_def db_consts unat_sat_mul64)
qed

lemma map_entry_lba:
  assumes "end_at L < 2 ^ 48" and "k < 992"
  shows "unat (sat_add64 (w64 (map_at L)) (w64 (k div 32) + 1)) = L + 2 + k div 32"
proof -
  have "unat (w64 (k div 32) + 1 :: u64) = k div 32 + 1"
    using assms(2) unat_add64 [of "w64 (k div 32)" 1] by (simp add: unat_w64)
  then show ?thesis
    using assms unat_layout [OF assms(1)] by (simp add: unat_sat_add64 map_at_def)
qed

text \<open>A payload written in two chunks, the first of which ends on a sector boundary.\<close>

lemma chunk_join:
  assumes "n \<le> length data" and "n = length data \<or> n mod 512 = 0"
  shows "secs (length data) = secs n + secs (length data - n)"
    and "\<lbrakk>\<And>i. length (c i) = 512; take n (read_range c l (secs n)) = take n data;
      take (length data - n) (read_range c (l + secs n) (secs (length data - n))) = drop n data\<rbrakk> \<Longrightarrow>
      take (length data) (read_range c l (secs (length data))) = data"
proof -
  show sum: "secs (length data) = secs n + secs (length data - n)"
    using assms by (auto simp: secs_def)
  assume c: "\<And>i. length (c i) = 512" "take n (read_range c l (secs n)) = take n data"
    "take (length data - n) (read_range c (l + secs n) (secs (length data - n))) = drop n data"
  show "take (length data) (read_range c l (secs (length data))) = data"
  proof (cases "n = length data")
    case False
    then have "secs n * 512 = n"
      using assms(2) secs_exact [of n] by auto
    then have "length (read_range c l (secs n)) = n"
      using length_read_range [OF c(1)] by simp
    then show ?thesis
      using c(2,3) assms(1) by (simp add: sum read_range_add)
  qed (use c(2) in simp)
qed

context ata_disk
begin

lemma read_one:
  assumes "port_ready port st" and "unat lba < 2 ^ 48" and "read_sectors hba st lba 1 = (r, st')"
  shows "only_dev st st'" "sect (dev st') = sect (dev st)"
    "(r = Inl () \<and> \<not> reads_ok hba st) \<or> r = Inr (sect (dev st) (unat lba))"
  using rd_law [OF assms(1) _ _ assms(3)] reads_ok_read [of hba st lba 1] assms(2,3)
  by (cases r; auto simp: MODEL_IO_SECTORS_def)+

lemma read_any:
  assumes "port_ready port st" and "read_sectors hba st lba 1 = (r, st')"
  shows "only_dev st st'" "sect (dev st') = sect (dev st)"
  using rd_law [OF assms(1) _ _ assms(2)] by (auto simp: MODEL_IO_SECTORS_def)

lemma write_one:
  assumes "port_ready port st" and "unat lba < 2 ^ 48" and "length b = 512"
    and "write_sectors hba st lba 1 b = (q, st')"
  shows "only_dev st st'" "q = Inr () \<Longrightarrow> sect (dev st') = (sect (dev st))(unat lba := b)"
    "sect (dev st') \<in> {sect (dev st), (sect (dev st))(unat lba := b)}"
proof -
  have law: "only_dev st st' \<and> (q = Inr () \<longrightarrow> sect (dev st') = (sect (dev st))(unat lba := b)) \<and>
      (\<forall>i. sect (dev st') i = sect (dev st) i \<or> sect (dev st') i = ((sect (dev st))(unat lba := b)) i)"
    using wr_law [OF assms(1) _ _ assms(2) _ assms(4)] assms(3)
    by (simp add: MODEL_IO_SECTORS_def write_range_1 [simplified])
  then show "only_dev st st'" "q = Inr () \<Longrightarrow> sect (dev st') = (sect (dev st))(unat lba := b)"
    by simp_all
  have "sect (dev st') = sect (dev st)" if "sect (dev st') (unat lba) = sect (dev st) (unat lba)"
    using law that by (intro ext) (metis fun_upd_apply)
  moreover have "sect (dev st') = (sect (dev st))(unat lba := b)"
    if "sect (dev st') (unat lba) = b"
    using law that by (intro ext) (metis fun_upd_apply)
  ultimately show "sect (dev st') \<in> {sect (dev st), (sect (dev st))(unat lba := b)}"
    using law by (metis fun_upd_same insertCI)
qed

lemma read_map_entry:
  assumes "port_ready port st" and "end_at L < 2 ^ 48" and "k < 992"
    and "memory_db_read_map_entry hba st (w64 (map_at L)) (w64 k) = (r, st')"
  shows "only_dev st st'" "sect (dev st') = sect (dev st)"
    "(r = Inl () \<and> \<not> reads_ok hba st) \<or> r = Inr (disk_entry (sect (dev st)) L k)"
proof -
  let ?lba = "sat_add64 (w64 (map_at L)) (w64 (k div 32) + 1) :: u64"
  have lba: "unat ?lba = L + 2 + k div 32"
    by (rule map_entry_lba [OF assms(2,3)])
  obtain q s1 where rd: "read_sectors hba st ?lba 1 = (q, s1)" by force
  note one = read_one [OF assms(1) _ rd]
  have lt: "unat ?lba < 2 ^ 48"
    using assms(2,3) lba by (simp add: db_layout)
  show "only_dev st st'" "sect (dev st') = sect (dev st)"
    "(r = Inl () \<and> \<not> reads_ok hba st) \<or> r = Inr (disk_entry (sect (dev st)) L k)"
    using assms(4) one [OF lt] rd lba
    by (auto simp: memory_db_read_map_entry_def map_entry_location [OF assms(3)] disk_entry_def)
qed

lemma recover_loop_log:
  assumes "port_ready port st" and db: "db_log (sect (dev st)) L log"
    and "n \<le> length log" and "k = length log - n"
    and "recover_loop hba st (w64 (map_at L)) (w64 (end_at L)) k
      (w64 (log_start L (take n log))) (w64 n) = (r, st')"
  shows "only_dev st st' \<and> sect (dev st') = sect (dev st) \<and>
    ((r = Inl () \<and> \<not> reads_ok hba st) \<or> r = Inr (w64 (log_start L log), w64 (length log)))"
  using assms
proof (induction k arbitrary: st n)
  case 0
  then show ?case by (simp add: keeps_refl)
next
  case (Suc k)
  have n: "n < length log" and len: "length log \<le> 992" and bound: "end_at L < 2 ^ 48"
    and ent: "db_entry (sect (dev st)) L log n"
    using Suc.prems by (auto simp: db_log_def db_map_def)
  let ?p = "length (log ! n)"
  have p: "unat (word_of_nat ?p :: u32) = ?p" "(word_of_nat ?p :: u32) \<noteq> 0"
    using ent unat_of_nat32 [of ?p] by (auto simp: db_entry_def)
  have nxt: "log_start L (take (Suc n) log) = log_start L (take n log) + secs ?p"
    using n by (rule log_start_take_Suc)
  have le: "log_start L (take (Suc n) log) \<le> end_at L"
    using log_start_mono [of "Suc n" "length log" L log] n Suc.prems(2) by (simp add: db_log_def)
  have cur: "unat (w64 (log_start L (take n log)) :: u64) = log_start L (take n log)"
    using le nxt bound by (simp add: unat_w64)
  have secs: "unat (sectors_for_bytes ?p) = secs ?p"
    using ent by (intro unat_sectors_for_bytes) (simp add: db_entry_def)
  have nextw: "checked_add64 (w64 (log_start L (take n log))) (sectors_for_bytes ?p)
      = Some (w64 (log_start L (take (Suc n) log)))"
    using cur secs le nxt bound
    by (simp add: checked_add64_def word_unat_eq_iff unat_add64 unat_w64)
  have fits: "\<not> w64 (end_at L) < (w64 (log_start L (take (Suc n) log)) :: u64)"
    using le bound unat_w64 [of "end_at L"] unat_w64 [of "log_start L (take (Suc n) log)"]
    by (simp add: word_less_nat_alt not_less)
  obtain q s1 where rd: "memory_db_read_map_entry hba st (w64 (map_at L)) (w64 n) = (q, s1)"
    by force
  note one = read_map_entry [OF Suc.prems(1) bound _ rd]
  show ?case
  proof (cases "q = Inl ()")
    case True
    then show ?thesis
      using Suc.prems(5) rd one n len by simp
  next
    case False
    then have q: "q = Inr (disk_entry (sect (dev st)) L n)" and s1: "only_dev st s1" "sect (dev s1) = sect (dev st)"
      using one n len by auto
    have "recover_loop hba s1 (w64 (map_at L)) (w64 (end_at L)) k
        (w64 (log_start L (take (Suc n) log))) (w64 (Suc n)) = (r, st')"
      using Suc.prems(5) rd q ent nextw fits p
      by (simp add: db_entry_def w64_simps(3))
    moreover have "port_ready port s1"
      using s1(1) Suc.prems(1) keeps_ready by blast
    moreover have "k = length log - Suc n"
      using Suc.prems(4) by simp
    ultimately show ?thesis
      using Suc.IH [of s1 "Suc n"] Suc.prems(2) s1 n keeps_trans [of st s1 st'] reads_ok_keeps [OF s1(1)] by auto
  qed
qed

lemma recover_log:
  assumes "port_ready port st" and db: "db_log (sect (dev st)) L log" and "data_lba h = w64 (data_at L)"
    and "total_sectors h = MEMORY_DB_TOTAL_SECTORS" and "map_lba h = w64 (map_at L)"
    and "map_sectors h = MEMORY_DB_MAP_SECTORS"
    and rec: "memory_db_recover_from_map hba st h = (r, h', st')"
  shows "only_dev st st'" "sect (dev st') = sect (dev st)"
    "(r = Inl () \<and> h' = h \<and> \<not> reads_ok hba st) \<or>
     (r = Inr () \<and> h' = h\<lparr>next_append_lba := w64 (log_start L log),
        map_entries_used := w64 (length log)\<rparr>)"
proof -
  let ?e = "sat_add64 (w64 (data_at L)) MEMORY_DB_TOTAL_SECTORS :: u64"
  have bound: "end_at L < 2 ^ 48" and len: "length log \<le> 992"
    and le: "log_start L log \<le> end_at L"
    and hdr: "parse_map_header (sect (dev st) (map_at L)) = Inr (16, w64 (length log))"
    using db by (auto simp: db_log_def db_map_def)
  have L1: "unat (w64 (map_at L) :: u64) = map_at L" and L33: "unat (w64 (data_at L) :: u64) = data_at L"
    and n: "unat (w64 (length log) :: u64) = length log"
    and cur: "unat (w64 (log_start L log) :: u64) = log_start L log"
    using unat_layout [OF bound] len le bound by (simp_all add: unat_w64)
  have e: "?e = w64 (end_at L)"
    by (rule layout_words(1) [OF bound])
  have m: "min (w64 (length log)) memory_db_map_entry_capacity = (w64 (length log) :: u64)"
    using n len by (simp add: min_def word_le_nat_alt db_consts)
  have nz: "(w64 (map_at L) :: u64) \<noteq> 0"
    using L1 by (auto simp: map_at_def)
  obtain q s1 where rd: "read_sectors hba st (w64 (map_at L)) 1 = (q, s1)" by force
  have one: "only_dev st s1" "sect (dev s1) = sect (dev st)" "(q = Inl () \<and> \<not> reads_ok hba st) \<or> q = Inr (sect (dev st) (map_at L))"
    using read_one [OF assms(1) _ rd] L1 unat_layout(6) [OF bound] by auto
  obtain q2 s2 where loop: "recover_loop hba s1 (w64 (map_at L)) (w64 (end_at L))
      (length log) (w64 (data_at L)) (w64 0) = (q2, s2)" by force
  have two: "only_dev s1 s2 \<and> sect (dev s2) = sect (dev s1) \<and>
      ((q2 = Inl () \<and> \<not> reads_ok hba s1) \<or> q2 = Inr (w64 (log_start L log), w64 (length log)))"
    using recover_loop_log [of s1 L log 0 "length log" q2 s2] loop db one assms(1) keeps_ready by auto
  have ge: "\<not> (w64 (log_start L log) :: u64) < w64 (data_at L)"
    "\<not> (w64 (end_at L) :: u64) < w64 (log_start L log)"
    using cur L33 le bound log_start_ge [of L log] unat_w64 [of "end_at L"]
    by (simp_all add: word_less_nat_alt)
  note eqs = memory_db_recover_from_map_def memory_db_read_map_header_def assms(3-6) rd e Let_def
  show "only_dev st st'" "sect (dev st') = sect (dev st)"
    "(r = Inl () \<and> h' = h \<and> \<not> reads_ok hba st) \<or>
     (r = Inr () \<and> h' = h\<lparr>next_append_lba := w64 (log_start L log),
        map_entries_used := w64 (length log)\<rparr>)"
    using rec one two loop [unfolded w64_simps(1)] ge keeps_trans [of st s1 s2]
      reads_ok_keeps [of st s1 hba]
    by (auto simp: eqs nz [simplified] hdr [simplified] m n)
qed

text \<open>The full sectors of one chunk.\<close>

lemma write_full_sectors:
  assumes "port_ready port st" and f: "0 < f" "f \<le> MODEL_IO_SECTORS" and l: "l + f < 2 ^ 48"
    and "f * 512 \<le> length data"
    and "try_q (write_sectors hba st (w64 l) (word_of_nat f) (take (f * 512) data))
      (\<lambda>_ st. (Inr (w64 l + ucast (word_of_nat f :: u16)), st)) = (q, st')"
  shows "only_dev st st' \<and> (\<forall>i. i < l \<or> l + f \<le> i \<longrightarrow> sect (dev st') i = sect (dev st) i) \<and>
    (q = Inl () \<or> q = Inr (w64 (l + f)) \<and> read_range (sect (dev st')) l f = take (f * 512) data)"
proof -
  have uf: "unat (word_of_nat f :: u16) = f"
    using f by (intro unat_of_nat16) (simp add: MODEL_IO_SECTORS_def)
  have ul: "unat (w64 l) = l"
    using l by (simp add: unat_w64)
  have nxt: "w64 l + ucast (word_of_nat f :: u16) = w64 (l + f)"
    using l uf ul by (simp add: word_unat_eq_iff unat_add64 unat_w64)
  obtain q1 s1 where w: "write_sectors hba st (w64 l) (word_of_nat f) (take (f * 512) data) = (q1, s1)"
    by force
  have pre: "0 < unat (word_of_nat f :: u16)" "unat (word_of_nat f :: u16) \<le> MODEL_IO_SECTORS"
    "unat (w64 l) < 2 ^ 48" "length (take (f * 512) data) = unat (word_of_nat f :: u16) * 512"
    using f l assms(5) uf ul by auto
  note law = wr_law [OF assms(1) pre w] and frame = write_outside [OF assms(1) pre w]
  show ?thesis
    using law frame assms(6) w nxt uf ul pre(4)
    by (cases q1) (auto simp: read_write_range)
qed

lemma append_chunk_len_w64:
  assumes "l < e" and "e < 2 ^ 48"
  shows "append_chunk_len (w64 e) (w64 l) data = min (min (length data) ((e - l) * 512)) (8192 * 512)"
proof -
  have "unat (sat_sub64 (w64 e) (w64 l)) = e - l"
    using assms by (simp add: unat_sat_sub64 unat_w64)
  moreover have "min ((e - l) * 512) usize_max = (e - l) * 512"
    using assms by (simp add: min_def usize_max_def)
  ultimately show ?thesis
    by (simp add: append_chunk_len_def SECTOR_SIZE_def MODEL_IO_SECTORS_def Let_def)
qed

text \<open>The tail sector of one chunk.\<close>

lemma write_tail_sector:
  assumes "port_ready port st" and l: "l + 1 < 2 ^ 48" and t: "0 < length t" "length t \<le> 512"
    and "try_q (write_sectors hba st (w64 l) 1 (overwrite zero_sector 0 t))
      (\<lambda>_ st. (Inr (w64 l + 1, n), st)) = (q, st')"
  shows "only_dev st st' \<and> (\<forall>i. i \<noteq> l \<longrightarrow> sect (dev st') i = sect (dev st) i) \<and>
    (q = Inl () \<or> q = Inr (w64 (Suc l), n) \<and> take (length t) (sect (dev st') l) = t)"
proof -
  have ul: "unat (w64 l) = l" "unat (w64 l) < 2 ^ 48"
    using l by (simp_all add: unat_w64)
  have len: "length (overwrite zero_sector 0 t) = 512"
    using t by (simp add: length_overwrite)
  obtain q1 s1 where w: "write_sectors hba st (w64 l) 1 (overwrite zero_sector 0 t) = (q1, s1)"
    by force
  note one = write_one [OF assms(1) ul(2) len w]
  have "take (length t) (overwrite zero_sector 0 t) = t"
    by (simp add: overwrite_def)
  then show ?thesis
    using one assms(5) w ul(1) by (cases q1) (auto simp: w64_simps)
qed

lemma chunk_arith:
  assumes "n = min (min len ((e - l) * 512)) (8192 * 512)" and "l < e" and "0 < (len :: nat)"
  shows "0 < n" "n \<le> len" "n = len \<or> n mod 512 = 0" "secs n = n div 512 + (if 0 < n mod 512 then 1 else 0)"
    "l + secs n \<le> e" "n div 512 \<le> 8192"
proof -
  show "0 < n" "n \<le> len"
    using assms by simp_all
  show "n = len \<or> n mod 512 = 0"
    unfolding assms(1) min_def by auto
  have "n \<le> (e - l) * 512" "n \<le> 8192 * 512"
    using assms(1) by simp_all
  then show "l + secs n \<le> e" "n div 512 \<le> 8192"
    using assms(2) secs_bounds(2) [of n] by linarith+
  show "secs n = n div 512 + (if 0 < n mod 512 then 1 else 0)"
    unfolding secs_def minus_div_mult_eq_mod [symmetric] by (simp split: if_split) linarith
qed

lemma append_chunk_split:
  assumes "append_chunk hba st (w64 e) (w64 l) data = (q, st')" and "l < e" and e: "e < 2 ^ 48"
    and n: "n = append_chunk_len (w64 e) (w64 l) data" and "0 < n" "n div 512 \<le> 8192"
  shows "try_q (if 0 < n div 512
        then try_q (write_sectors hba st (w64 l) (word_of_nat (n div 512)) (take (n div 512 * 512) data))
          (\<lambda>_ st. (Inr (w64 l + ucast (word_of_nat (n div 512) :: u16)), st))
        else (Inr (w64 l), st))
      (\<lambda>write_lba st. if 0 < n mod 512
        then try_q (write_sectors hba st write_lba 1 (overwrite zero_sector 0 (subslice data (n div 512 * 512) n)))
          (\<lambda>_ st. (Inr (write_lba + 1, n), st))
        else (Inr (write_lba, n), st)) = (q, st')"
proof -
  have nz: "sat_sub64 (w64 e) (w64 l) \<noteq> 0"
    using assms(2) e unat_sat_sub64 [of "w64 e" "w64 l"] by (auto simp: unat_w64)
  have mod: "n - n div 512 * 512 = n mod 512"
    by (rule minus_div_mult_eq_mod)
  have "u16_try_from (n div 512) = Inr (word_of_nat (n div 512))"
    using assms(6) by (simp add: u16_try_from_def)
  then show ?thesis
    using assms(1,5) nz
    unfolding append_chunk_def Let_def n [symmetric] SECTOR_SIZE_def mod
    by (cases "0 < n div 512") simp_all
qed

lemma append_chunk_law:
  assumes "port_ready port st" and "l < e" and e: "e < 2 ^ 48" and "data \<noteq> []"
    and ch: "append_chunk hba st (w64 e) (w64 l) data = (q, st')"
  shows "only_dev st st' \<and> (\<forall>i. i < l \<or> e \<le> i \<longrightarrow> sect (dev st') i = sect (dev st) i) \<and>
    (q = Inl () \<or> (\<exists>n. q = Inr (w64 (l + secs n), n) \<and> 0 < n \<and> n \<le> length data \<and>
       l + secs n \<le> e \<and> (n = length data \<or> n mod 512 = 0) \<and>
       (\<forall>i. i < l \<or> l + secs n \<le> i \<longrightarrow> sect (dev st') i = sect (dev st) i) \<and>
       take n (read_range (sect (dev st')) l (secs n)) = take n data))"
proof -
  define n where "n = append_chunk_len (w64 e) (w64 l) data"
  note ar = chunk_arith [OF n_def [unfolded append_chunk_len_w64 [OF assms(2) e]] assms(2)]
  have ar: "0 < n" "n \<le> length data" "n = length data \<or> n mod 512 = 0"
    "secs n = n div 512 + (if 0 < n mod 512 then 1 else 0)" "l + secs n \<le> e" "n div 512 \<le> 8192"
    using ar assms(4) by auto
  let ?f = "n div 512"
  note split = append_chunk_split [OF ch assms(2) e n_def ar(1,6)]
  define m where "m = (if 0 < ?f
      then try_q (write_sectors hba st (w64 l) (word_of_nat ?f) (take (?f * 512) data))
        (\<lambda>_ st. (Inr (w64 l + ucast (word_of_nat ?f :: u16)), st))
      else (Inr (w64 l), st))"
  obtain q1 s1 where m: "m = (q1, s1)" by force
  have one: "only_dev st s1 \<and> (\<forall>i. i < l \<or> l + ?f \<le> i \<longrightarrow> sect (dev s1) i = sect (dev st) i) \<and>
    (q1 = Inl () \<or> q1 = Inr (w64 (l + ?f)) \<and> read_range (sect (dev s1)) l ?f = take (?f * 512) data)"
  proof (cases "0 < ?f")
    case True
    then show ?thesis
      using m ar e by (intro write_full_sectors [OF assms(1) True]) (auto simp: m_def MODEL_IO_SECTORS_def)
  qed (use m in \<open>simp add: m_def keeps_refl\<close>)
  then have r1: "port_ready port s1"
    using assms(1) keeps_ready by blast
  let ?t = "subslice data (?f * 512) n"
  have "min (length data - ?f * 512) (n mod 512) = n mod 512"
    using ar(2) div_mult_mod_eq [of n 512] by linarith
  then have t: "length ?t = n mod 512" "take (?f * 512) data @ ?t = take n data"
    using subslice_split [of 0 "?f * 512" n data] by (simp_all add: subslice_def minus_div_mult_eq_mod)
  consider "q1 = Inl ()" | "q1 = Inr (w64 (l + ?f))" "n mod 512 = 0" | "q1 = Inr (w64 (l + ?f))" "0 < n mod 512"
    using one by blast
  then show ?thesis
  proof cases
    case 1
    then have "q = Inl ()" "st' = s1"
      using split unfolding m_def [symmetric] m by simp_all
    then show ?thesis
      using one ar(4,5) by simp
  next
    case 2
    moreover have "?f * 512 = n"
      using 2 div_mult_mod_eq [of n 512] by linarith
    moreover have "q = Inr (w64 (l + ?f), n)" "st' = s1"
      using split 2 unfolding m_def [symmetric] m by simp_all
    ultimately show ?thesis
      using one ar by simp
  next
    case 3
    have w: "try_q (write_sectors hba s1 (w64 (l + ?f)) 1 (overwrite zero_sector 0 ?t))
        (\<lambda>_ st. (Inr (w64 (l + ?f) + 1, n), st)) = (q, st')"
      using split 3 unfolding m_def [symmetric] m by simp
    have sn: "secs n = Suc ?f"
      using ar(4) 3(2) by simp
    have tail: "only_dev s1 st' \<and> (\<forall>i. i \<noteq> l + ?f \<longrightarrow> sect (dev st') i = sect (dev s1) i) \<and>
        (q = Inl () \<or> q = Inr (w64 (Suc (l + ?f)), n) \<and> take (n mod 512) (sect (dev st') (l + ?f)) = ?t)"
      using write_tail_sector [OF r1 _ _ _ w] 3(2) ar e sn t(1) by auto
    have rr: "read_range (sect (dev st')) l ?f = read_range (sect (dev s1)) l ?f"
      using tail by (intro read_range_cong) auto
    have "take n (read_range (sect (dev st')) l (secs n)) = take n data"
      if "take (n mod 512) (sect (dev st') (l + ?f)) = ?t"
    proof -
      have "length (read_range (sect (dev s1)) l ?f) = ?f * 512"
        by (intro length_read_range sect_length)
      moreover have "n - ?f * 512 = n mod 512" "?f * 512 \<le> n"
        by (simp_all add: minus_div_mult_eq_mod)
      ultimately show ?thesis
        using that one 3(1) t(2) by (simp add: sn read_range_Suc rr)
    qed
    moreover have "\<forall>i. i < l \<or> l + secs n \<le> i \<longrightarrow> sect (dev st') i = sect (dev st) i"
      using tail one sn by simp
    moreover have "only_dev st st'"
      using tail one keeps_trans by blast
    ultimately show ?thesis
      using tail ar(1-3,5) sn by auto
  qed
qed

lemma append_loop_law:
  assumes "port_ready port st" and "l \<le> e" and "e < 2 ^ 48"
    and "append_loop hba st (w64 e) (w64 l) written data = (q, st')"
  shows "only_dev st st' \<and> (\<forall>i. i < l \<or> e \<le> i \<longrightarrow> sect (dev st') i = sect (dev st) i) \<and>
    (q = Inl () \<or> q = Inr (w64 (l + secs (length data)), written + length data) \<and>
       l + secs (length data) \<le> e \<and>
       take (length data) (read_range (sect (dev st')) l (secs (length data))) = data)"
  using assms
proof (induction "length data" arbitrary: st l written data rule: less_induct)
  case less
  show ?case
  proof (cases "data = [] \<or> l = e")
    case True
    have "append_chunk hba st (w64 e) (w64 e) data = (Inl (), st)"
      by (simp add: append_chunk_def sat_sub64_def)
    then show ?thesis
      using True less.prems(4) less.prems(2)
      by (subst (asm) append_loop.simps) (auto simp: keeps_refl secs_def split: if_splits)
  next
    case False
    then have ne: "data \<noteq> []" and le: "l < e"
      using less.prems(2) by auto
    obtain q1 s1 where ch: "append_chunk hba st (w64 e) (w64 l) data = (q1, s1)" by force
    note law = append_chunk_law [OF less.prems(1) le less.prems(3) ne ch]
    note eq = less.prems(4) [unfolded append_loop.simps [of hba st "w64 e" "w64 l" written data] if_not_P [OF ne] ch]
    show ?thesis
    proof (cases "q1 = Inl ()")
      case True
      then show ?thesis using eq law by simp
    next
      case False
      then obtain n where n: "q1 = Inr (w64 (l + secs n), n)" "0 < n" "n \<le> length data" "l + secs n \<le> e"
        "n = length data \<or> n mod 512 = 0" "only_dev st s1"
        "\<forall>i. i < l \<or> l + secs n \<le> i \<longrightarrow> sect (dev s1) i = sect (dev st) i"
        "take n (read_range (sect (dev s1)) l (secs n)) = take n data"
        using law by auto
      have IH: "only_dev s1 st' \<and>
          (\<forall>i. i < l + secs n \<or> e \<le> i \<longrightarrow> sect (dev st') i = sect (dev s1) i) \<and>
          (q = Inl () \<or> q = Inr (w64 (l + secs n + secs (length (drop n data))), written + n + length (drop n data)) \<and>
             l + secs n + secs (length (drop n data)) \<le> e \<and>
             take (length (drop n data)) (read_range (sect (dev st')) (l + secs n) (secs (length (drop n data))))
               = drop n data)"
        using eq n less.prems(1,3) keeps_ready [of st s1] ne
        by (intro less.hyps) auto
      have "read_range (sect (dev st')) l (secs n) = read_range (sect (dev s1)) l (secs n)"
        using IH by (intro read_range_cong) auto
      then have "take (length data) (read_range (sect (dev st')) l (secs (length data))) = data"
        if "take (length (drop n data)) (read_range (sect (dev st')) (l + secs n) (secs (length (drop n data))))
            = drop n data"
        using chunk_join(2) [OF n(3,5) sect_length] n(8) that by simp
      then show ?thesis
        using IH n(3,4,6,7) chunk_join(1) [OF n(3,5)] keeps_trans [of st s1 st'] by (auto simp: add.assoc)
    qed
  qed
qed

lemma write_map_entry_law:
  assumes "port_ready port st" and "end_at L < 2 ^ 48" and "n < 992"
    and "memory_db_write_map_entry hba st (w64 (map_at L)) (w64 n) start payload fl = (q, st')"
  defines "c' \<equiv> (sect (dev st))(L + 2 + n div 32 :=
      put_map_entry (sect (dev st) (L + 2 + n div 32)) (n mod 32 * 16) start payload fl)"
  shows "only_dev st st' \<and> sect (dev st') \<in> {sect (dev st), c'} \<and> (q = Inr () \<longrightarrow> sect (dev st') = c')"
proof -
  let ?lba = "sat_add64 (w64 (map_at L)) (w64 (n div 32) + 1)"
  have lba: "unat ?lba = L + 2 + n div 32" and lt: "unat ?lba < 2 ^ 48"
    using map_entry_lba [OF assms(2,3)] assms(2,3) by (simp_all add: db_layout)
  have off: "n mod 32 * 16 + 16 \<le> 512"
    using mod_less_divisor [of 32 n] by linarith
  obtain q1 s1 where rd: "read_sectors hba st ?lba 1 = (q1, s1)" by force
  note one = read_one [OF assms(1) lt rd]
  let ?b = "put_map_entry (sect (dev st) (L + 2 + n div 32)) (n mod 32 * 16) start payload fl"
  have len: "length ?b = 512"
    using off sect_length by simp
  show ?thesis
  proof (cases "q1 = Inl ()")
    case True
    then show ?thesis
      using assms(4) rd one
      by (auto simp: memory_db_write_map_entry_def map_entry_location [OF assms(3)])
  next
    case False
    then have w: "write_sectors hba s1 ?lba 1 ?b = (q, st')"
      using assms(4) rd one lba
      by (simp add: memory_db_write_map_entry_def map_entry_location [OF assms(3)])
    have r1: "port_ready port s1"
      using one(1) assms(1) keeps_ready by blast
    show ?thesis
      using write_one [OF r1 lt len w] one keeps_trans [of st s1 st'] lba by (auto simp: c'_def)
  qed
qed

lemma write_map_header_law:
  assumes "port_ready port st" and "end_at L < 2 ^ 48"
    and "memory_db_write_map_header hba st (w64 (map_at L)) u = (q, st')"
  defines "c' \<equiv> (sect (dev st))(map_at L := map_header_bytes u)"
  shows "only_dev st st' \<and> sect (dev st') \<in> {sect (dev st), c'} \<and> (q = Inr () \<longrightarrow> sect (dev st') = c')"
  using write_one [OF assms(1) _ _ assms(3) [unfolded memory_db_write_map_header_def]]
    unat_layout [OF assms(2)] by (auto simp: c'_def)

lemma write_header_law:
  assumes "port_ready port st" and "end_at L < 2 ^ 48" and "header_current h" and "header_lba h = w64 L"
    and "memory_db_header_lba st = Some (w64 L)" and "memory_db_write_header hba st h = (q, st')"
  defines "c' \<equiv> (sect (dev st))(L := header_bytes h)"
  shows "only_dev st st' \<and> sect (dev st') \<in> {sect (dev st), c'} \<and> (q = Inr () \<longrightarrow> sect (dev st') = c')"
proof -
  have w: "write_sectors hba st (w64 L) 1 (header_bytes h) = (q, st')"
    using assms(4-6) by (simp add: memory_db_write_header_def)
  have "length (header_bytes h) = 512"
    using assms(3) by (simp add: header_current_def)
  then show ?thesis
    using write_one [OF assms(1) _ _ w] unat_layout [OF assms(2)] by (auto simp: c'_def)
qed

lemma append_publish:
  assumes st: "port_ready port st" "memory_db_header_lba st = Some (w64 L)"
    and pend: "db_pending (sect (dev st)) L log data"
    and h: "header_current h" "header_lba h = w64 L" "data_lba h = w64 (data_at L)"
      "total_sectors h = MEMORY_DB_TOTAL_SECTORS" "map_lba h = w64 (map_at L)"
      "map_sectors h = MEMORY_DB_MAP_SECTORS" "next_append_lba h = w64 (log_start L (log @ [data]))"
      "map_entries_used h = w64 (length (log @ [data]))"
    and ap: "try_q (memory_db_write_map_header hba st (w64 (map_at L)) (w64 (Suc (length log))))
      (\<lambda>_ st. try_q (memory_db_write_header hba st h) (\<lambda>_ st. (Inr written, st))) = (r, st')"
  shows "only_dev st st' \<and> (\<forall>i. i < L \<or> data_at L \<le> i \<longrightarrow> sect (dev st') i = sect (dev st) i) \<and>
    (db_log (sect (dev st')) L log \<or> db_log (sect (dev st')) L (log @ [data])) \<and>
    (db_header (sect (dev st')) L = db_header (sect (dev st)) L \<or> db_synced (sect (dev st')) L (log @ [data])) \<and>
    (\<forall>m. r = Inr m \<longrightarrow> m = written \<and> db_synced (sect (dev st')) L (log @ [data]))"
proof -
  have bound: "end_at L < 2 ^ 48" and db: "db_log (sect (dev st)) L log"
    using pend by (auto simp: db_pending_def db_log_def)
  obtain q1 s1 where w1: "memory_db_write_map_header hba st (w64 (map_at L)) (w64 (Suc (length log))) = (q1, s1)"
    by force
  note law1 = write_map_header_law [OF st(1) bound w1]
  obtain q2 s2 where w2: "memory_db_write_header hba s1 h = (q2, s2)" by force
  have "port_ready port s1" "memory_db_header_lba s1 = Some (w64 L)"
    using law1 st keeps_ready only_devD(1) by (blast, metis)
  note law2 = write_header_law [OF this(1) bound h(1,2) this(2) w2]
  show ?thesis
  proof (cases "q1 = Inr ()")
    case False
    then have "r = Inl ()" "st' = s1"
      using ap w1 by (cases q1; simp)+
    then show ?thesis
      using law1 db db_commit [OF pend] by (auto simp: db_layout)
  next
    case True
    then have c1: "db_log (sect (dev s1)) L (log @ [data])"
      using law1 db_commit(1) [OF pend] by simp
    note syn = db_sync [OF c1 h(1-6)]
    have s2: "st' = s2" "r = (case q2 of Inl _ \<Rightarrow> Inl () | Inr _ \<Rightarrow> Inr written)"
      using ap w1 w2 True by (cases q2; simp)+
    have "db_log (sect (dev s2)) L (log @ [data])"
      using law2 c1 syn(1) by auto
    moreover have "q2 = Inr () \<Longrightarrow> db_synced (sect (dev s2)) L (log @ [data])"
      using law2 syn h(7,8) by (auto simp: db_synced_def)
    moreover have "db_header (sect (dev s2)) L = db_header (sect (dev st)) L \<or>
        db_synced (sect (dev s2)) L (log @ [data])"
      using law1 law2 syn h(7,8) True db_commit(2) [OF pend] by (auto simp: db_synced_def)
    moreover have "\<forall>i. i < L \<or> data_at L \<le> i \<longrightarrow> sect (dev s2) i = sect (dev st) i"
      using law1 law2 by (auto simp: db_layout)
    ultimately show ?thesis
      using s2 law1 law2 keeps_trans [of st s1 s2] by (cases q2) auto
  qed
qed

lemma append_commit_law:
  assumes st: "port_ready port st" "memory_db_header_lba st = Some (w64 L)"
    and rdy: "append_ready (sect (dev st)) L log data h"
    and ap: "append_commit hba st h data (w64 (log_start L (log @ [data]))) written = (r, st')"
  shows "only_dev st st' \<and> (\<forall>i. i < L \<or> data_at L \<le> i \<longrightarrow> sect (dev st') i = sect (dev st) i) \<and>
    (db_log (sect (dev st')) L log \<or> db_log (sect (dev st')) L (log @ [data])) \<and>
    (db_header (sect (dev st')) L = db_header (sect (dev st)) L \<or> db_synced (sect (dev st')) L (log @ [data])) \<and>
    (\<forall>m. r = Inr m \<longrightarrow> m = written \<and> db_synced (sect (dev st')) L (log @ [data]))"
proof (cases "u32_try_from (length data)")
  case (Inl e)
  then show ?thesis
    using ap rdy by (auto simp: append_commit_def append_ready_def keeps_refl)
next
  case (Inr p32)
  let ?n = "length log" and ?c = "sect (dev st)"
  have db: "db_log ?c L log" and n: "?n < 992" and bound: "end_at L < 2 ^ 48"
    using rdy by (auto simp: append_ready_def db_log_def)
  have p32: "p32 = word_of_nat (length data)" "length data < 2 ^ 32"
    using Inr by (auto simp: u32_try_from_def split: if_splits)
  obtain q1 s1 where w1: "memory_db_write_map_entry hba st (w64 (map_at L)) (w64 ?n)
      (w64 (log_start L log)) p32 MEMORY_DB_MAP_FLAG_ACTIVE = (q1, s1)" by force
  note law1 = write_map_entry_law [OF st(1) bound n w1]
  note put = db_put_entry [OF db n sect_length, of data, folded p32(1)]
  note ready1 = keeps_ready [OF conjunct1 [OF law1] st(1)]
  have hdr_fields: "map_lba h = w64 (map_at L)" "map_entries_used h = w64 ?n"
    "next_append_lba h = w64 (log_start L log)"
    using rdy by (auto simp: append_ready_def)
  note ap1 = ap [unfolded append_commit_def Inr sum.case Let_def hdr_fields w1]
  have keep1: "db_log (sect (dev s1)) L log" "db_header (sect (dev s1)) L = db_header ?c L"
    "\<forall>i. i < L \<or> data_at L \<le> i \<longrightarrow> sect (dev s1) i = ?c i"
    using law1 put(1,2) db n by (auto simp: data_at_def)
  show ?thesis
  proof (cases "q1 = Inr ()")
    case False
    then show ?thesis
      using ap1 law1 keep1 by (cases q1) auto
  next
    case True
    then have pend: "db_pending (sect (dev s1)) L log data"
      using append_ready_put [OF rdy p32(2) sect_length] law1 by (simp add: p32(1))
    let ?h' = "h\<lparr>map_entries_used := w64 (Suc ?n), next_append_lba := w64 (log_start L (log @ [data]))\<rparr>"
    have "memory_db_header_lba s1 = Some (w64 L)"
      using only_devD(1) law1 st(2) by metis
    moreover have "try_q (memory_db_write_map_header hba s1 (w64 (map_at L)) (w64 (Suc ?n)))
        (\<lambda>_ st. try_q (memory_db_write_header hba st ?h') (\<lambda>_ st. (Inr written, st))) = (r, st')"
      using ap1 True hdr_fields by (simp add: w64_simps)
    ultimately have "only_dev s1 st' \<and>
        (\<forall>i. i < L \<or> data_at L \<le> i \<longrightarrow> sect (dev st') i = sect (dev s1) i) \<and>
        (db_log (sect (dev st')) L log \<or> db_log (sect (dev st')) L (log @ [data])) \<and>
        (db_header (sect (dev st')) L = db_header (sect (dev s1)) L \<or> db_synced (sect (dev st')) L (log @ [data])) \<and>
        (\<forall>m. r = Inr m \<longrightarrow> m = written \<and> db_synced (sect (dev st')) L (log @ [data]))"
      using rdy by (intro append_publish [OF ready1 _ pend]) (auto simp: append_ready_def header_current_def)
    then show ?thesis
      using law1 keep1(2,3) keeps_trans [of st s1 st'] by auto
  qed
qed

lemma read_header_log:
  assumes "port_ready port st" and db: "db_log (sect (dev st)) L log"
    and "memory_db_read_header hba st (w64 L) = (r, st')"
  shows "only_dev st st'" "sect (dev st') = sect (dev st)"
    "(r = Inl () \<and> \<not> reads_ok hba st) \<or> (\<exists>h. r = Inr h \<and> db_header (sect (dev st)) L h)"
proof -
  obtain h where h: "db_header (sect (dev st)) L h" and bound: "end_at L < 2 ^ 48"
    using db by (auto simp: db_log_def)
  obtain q s1 where rd: "read_sectors hba st (w64 L) 1 = (q, s1)" by force
  have "unat (w64 L) < 2 ^ 48"
    using unat_layout [OF bound] by simp
  note one = read_one [OF assms(1) this rd]
  show "only_dev st st'" "sect (dev st') = sect (dev st)"
    "(r = Inl () \<and> \<not> reads_ok hba st) \<or> (\<exists>h. r = Inr h \<and> db_header (sect (dev st)) L h)"
    using assms(3) rd one h unat_layout(1) [OF bound]
    by (auto simp: memory_db_read_header_def db_header_def)
qed

lemma recover_header_log:
  assumes "port_ready port st" and db: "db_log (sect (dev st)) L log"
    and known: "db_synced (sect (dev st)) L log \<or> reads_ok hba st"
    and h: "db_header (sect (dev st)) L h"
    and rec: "memory_db_recover_from_map hba st h = (r, h', st')"
  shows "only_dev st st'" "sect (dev st') = sect (dev st)" "header_of_log L log h'"
proof -
  have f: "data_lba h = w64 (data_at L)" "total_sectors h = MEMORY_DB_TOTAL_SECTORS"
    "map_lba h = w64 (map_at L)" "map_sectors h = MEMORY_DB_MAP_SECTORS" "header_lba h = w64 L"
    "header_current h"
    using h db_header_current [OF h] by (auto simp: db_header_def)
  note law = recover_log [OF assms(1) db f(1-4) rec]
  show "only_dev st st'" "sect (dev st') = sect (dev st)"
    by (rule law)+
  have "header_of_log L log h" if "db_synced (sect (dev st)) L log"
    using that f h by (auto simp: db_synced_def db_header_def header_of_log_def)
  then show "header_of_log L log h'"
    using law(3) known f by (auto simp: header_of_log_def header_current_def)
qed

end

end
