(* ===== verification/MemoryDbAppend.thy ===== *)
theory MemoryDbAppend
  imports MemoryDbLog
begin

text \<open>
  Correctness of \<open>append_memory_db\<close> against the log view of \<open>MemoryDbLog\<close>, also when a write
  fails half-way.
\<close>

context ata_disk
begin

lemma append_write_law:
  assumes st: "port_ready port st" "memory_db_header_lba st = Some (w64 L)"
    and db: "db_log (sect (dev st)) L log" and h: "header_of_log L log h" and data: "data \<noteq> []"
    and ap: "append_write hba st h data = (r, st')"
  shows "only_dev st st' \<and> (\<forall>i. i < L \<or> end_at L \<le> i \<longrightarrow> sect (dev st') i = sect (dev st) i) \<and>
    (db_log (sect (dev st')) L log \<or> db_log (sect (dev st')) L (log @ [data])) \<and>
    (db_header (sect (dev st')) L = db_header (sect (dev st)) L \<or> db_synced (sect (dev st')) L (log @ [data])) \<and>
    (\<forall>m. r = Inr m \<longrightarrow> m = length data \<and> db_synced (sect (dev st')) L (log @ [data]))"
proof (cases "r = Inl () \<and> st' = st")
  case True
  then show ?thesis
    using db by (auto simp: keeps_refl)
next
  case False
  let ?s = "log_start L log"
  have bound: "end_at L < 2 ^ 48" and ls: "data_at L \<le> ?s" "?s \<le> end_at L" and len: "length log \<le> 992"
    using db log_start_ge by (auto simp: db_log_def db_map_def)
  have f: "data_lba h = w64 (data_at L)" "total_sectors h = MEMORY_DB_TOTAL_SECTORS"
    "next_append_lba h = w64 ?s" "map_entries_used h = w64 (length log)"
    using h by (auto simp: header_of_log_def)
  obtain cap where cap: "ssd_sector_count st = Some cap"
    using ap False by (cases "ssd_sector_count st") (auto simp: append_write_def split: if_splits)
  define e where "e = min (end_at L) (min (unat cap + 1) (2 ^ 64 - 1))"
  have e: "e < 2 ^ 48" "e \<le> end_at L"
    using bound by (auto simp: e_def)
  have we: "min (w64 (end_at L)) (sat_add64 cap 1) = w64 e"
    using bound e unat_layout(4) [OF bound]
    by (simp add: word_unat_eq_iff unat_w64 min_def word_le_nat_alt unat_sat_add64 e_def)
  have us: "unat (w64 ?s) = ?s" "unat (w64 (length log)) = length log"
    using ls bound len by (simp_all add: unat_w64)
  have n: "length log < 992" and se: "?s < e"
    and loop: "try_q (append_loop hba st (w64 e) (w64 ?s) 0 data)
       (\<lambda>(write_lba, written) st. append_commit hba st h data write_lba written) = (r, st')"
    using ap False us e
    by (auto simp: append_write_def f cap Let_def layout_words(1) [OF bound] we capacity_992 word_le_nat_alt unat_w64
        split: if_splits)
  obtain q1 s1 where lp: "append_loop hba st (w64 e) (w64 ?s) 0 data = (q1, s1)" by force
  note law = append_loop_law [OF st(1) less_imp_le [OF se] e(1) lp]
  have frame: "\<forall>i. i < L \<or> end_at L \<le> i \<longrightarrow> sect (dev s1) i = sect (dev st) i"
    using law ls e by (auto simp: db_layout)
  have db1: "db_log (sect (dev s1)) L log" "db_header (sect (dev s1)) L = db_header (sect (dev st)) L"
    using db_log_beyond [OF db, of "sect (dev s1)"] law by blast+
  show ?thesis
  proof (cases "q1 = Inl ()")
    case True
    then show ?thesis
      using loop lp law db1 frame by auto
  next
    case False
    have s1: "port_ready port s1" "memory_db_header_lba s1 = Some (w64 L)"
      using law st keeps_ready only_devD(1) by (blast, metis)
    have rdy: "append_ready (sect (dev s1)) L log data h"
      using law False db1(1) n data h e by (auto simp: append_ready_def header_of_log_def)
    have "append_commit hba s1 h data (w64 (log_start L (log @ [data]))) (length data) = (r, st')"
      using loop lp law False by auto
    note fin = append_commit_law [OF s1 rdy this, unfolded db1(2)]
    moreover have "data_at L \<le> end_at L"
      by (simp add: db_layout)
    ultimately have "\<forall>i. i < L \<or> end_at L \<le> i \<longrightarrow> sect (dev st') i = sect (dev st) i"
      using frame by (metis order_trans)
    then show ?thesis
      using fin law keeps_trans by blast
  qed
qed

lemma append_law:
  assumes st: "port_ready port st" "memory_db_header_lba st = Some (w64 L)"
    and db: "db_log (sect (dev st)) L log" and known: "db_synced (sect (dev st)) L log \<or> reads_ok hba st"
    and data: "data \<noteq> []" and ap: "append_memory_db hba st (Some data) = (r, st')"
  shows "only_dev st st' \<and> (\<forall>i. i < L \<or> end_at L \<le> i \<longrightarrow> sect (dev st') i = sect (dev st) i) \<and>
    (db_log (sect (dev st')) L log \<or> db_log (sect (dev st')) L (log @ [data])) \<and>
    (db_header (sect (dev st')) L = db_header (sect (dev st)) L \<or> db_synced (sect (dev st')) L (log @ [data])) \<and>
    (\<forall>m. r = Inr m \<longrightarrow> m = length data \<and> db_synced (sect (dev st')) L (log @ [data]))"
proof -
  have bound: "end_at L < 2 ^ 48"
    using db by (simp add: db_log_def)
  obtain q1 s1 where rd: "memory_db_read_header hba st (w64 L) = (q1, s1)" by force
  note one = read_header_log [OF st(1) db rd]
  note ap1 = ap [unfolded append_memory_db_def st(2) option.case if_not_P [OF data] rd layout_words(2) [OF bound]]
  show ?thesis
  proof (cases "q1 = Inl ()")
    case True
    then show ?thesis using ap1 one db by auto
  next
    case False
    then obtain h where q1: "q1 = Inr h" and h: "db_header (sect (dev s1)) L h"
      using one by auto
    have hm: "map_lba h = w64 (map_at L)" "map_sectors h = MEMORY_DB_MAP_SECTORS"
      using h by (auto simp: db_header_def)
    obtain q2 h2 s2 where rec: "memory_db_recover_from_map hba s1 h = (q2, h2, s2)"
      by (metis prod_cases3)
    have r1: "port_ready port s1" and db1: "db_log (sect (dev s1)) L log"
      and known1: "db_synced (sect (dev s1)) L log \<or> reads_ok hba s1"
      using one st db known keeps_ready reads_ok_keeps [OF one(1)] by (blast, auto)
    note two = recover_header_log [OF r1 db1 known1 h rec]
    have s2: "port_ready port s2" "memory_db_header_lba s2 = Some (w64 L)" "db_log (sect (dev s2)) L log"
      "only_dev st s2" "sect (dev s2) = sect (dev st)"
      using two one r1 st db keeps_ready keeps_trans only_devD(1) by (blast, metis, auto)
    have "append_write hba s2 h2 data = (r, st')"
      using ap1 q1 hm rec by simp
    from append_write_law [OF s2(1-3) two(3) data this] show ?thesis
      unfolding s2(5) using s2(4) keeps_trans by blast
  qed
qed

lemma append_full:
  assumes st: "port_ready port st" "memory_db_header_lba st = Some (w64 L)"
    and db: "db_log (sect (dev st)) L log" and known: "db_synced (sect (dev st)) L log \<or> reads_ok hba st"
    and full: "length log = 992" and data: "data \<noteq> []"
    and ap: "append_memory_db hba st (Some data) = (r, st')"
  shows "r = Inl () \<and> sect (dev st') = sect (dev st)"
proof -
  have bound: "end_at L < 2 ^ 48"
    using db by (simp add: db_log_def)
  obtain q1 s1 where rd: "memory_db_read_header hba st (w64 L) = (q1, s1)" by force
  note one = read_header_log [OF st(1) db rd]
  note ap1 = ap [unfolded append_memory_db_def st(2) option.case if_not_P [OF data] rd layout_words(2) [OF bound]]
  show ?thesis
  proof (cases "q1 = Inl ()")
    case True
    then show ?thesis using ap1 one by auto
  next
    case False
    then obtain h where q1: "q1 = Inr h" and h: "db_header (sect (dev s1)) L h"
      using one by auto
    have hm: "map_lba h = w64 (map_at L)" "map_sectors h = MEMORY_DB_MAP_SECTORS"
      using h by (auto simp: db_header_def)
    obtain q2 h2 s2 where rec: "memory_db_recover_from_map hba s1 h = (q2, h2, s2)"
      by (metis prod_cases3)
    have r1: "port_ready port s1" and db1: "db_log (sect (dev s1)) L log"
      and known1: "db_synced (sect (dev s1)) L log \<or> reads_ok hba s1"
      using one st db known keeps_ready reads_ok_keeps [OF one(1)] by (blast, auto)
    note two = recover_header_log [OF r1 db1 known1 h rec]
    have "memory_db_map_entry_capacity \<le> map_entries_used h2"
      using two(3) full by (simp add: header_of_log_def capacity_992 w64_def)
    then have "append_write hba s2 h2 data = (Inl (), s2)"
      by (simp add: append_write_def)
    then show ?thesis
      using ap1 q1 hm rec one two by auto
  qed
qed

end

end
