(* ===== verification/MemoryDbRead.thy ===== *)
theory MemoryDbRead
  imports MemoryDbAppend
begin

text \<open>
  Correctness of \<open>read_memory_db\<close>: it returns the concatenation of the logged payloads, oldest
  first, cut to the size of the caller's buffer.
\<close>

lemma read_range_sector:
  assumes "\<And>i. length (c i) = 512" and "j < n"
  shows "take 512 (drop (j * 512) (read_range c a n)) = c (a + j)"
proof -
  have "read_range c a n = read_range c a j @ c (a + j) @ read_range c (a + Suc j) (n - Suc j)"
    using assms(2) read_range_add [of c a j "n - j"] read_range_add [of c "a + j" 1 "n - Suc j"]
    by (simp add: Suc_diff_Suc)
  then show ?thesis
    using assms(1) length_read_range [of c a j] by simp
qed

text \<open>The bytes of a payload that one sector contributes.\<close>

lemma payload_sector:
  assumes "\<And>i. length (c i) = 512" and "take p (read_range c a (secs p)) = d" and "length d = p"
    and "off mod 512 = 0" and "off < p" and "m \<le> p - off" and "m \<le> 512"
  shows "take m (c (a + off div 512)) = take m (drop off d)"
proof -
  have off: "off div 512 * 512 = off"
    using div_mult_mod_eq [of off 512] assms(4) by simp
  have "off div 512 < secs p"
    using assms(5) secs_bounds(1) [of p] off by linarith
  then have "take 512 (drop off (read_range c a (secs p))) = c (a + off div 512)"
    using read_range_sector [of c "off div 512" "secs p" a] assms(1) off by simp
  moreover have "drop off d = take (p - off) (drop off (read_range c a (secs p)))"
    using assms(2) drop_take [of off p "read_range c a (secs p)"] by simp
  ultimately show ?thesis
    using assms(6,7) take_take [of m 512] take_take [of m "p - off"] by (metis min.absorb1)
qed

lemma read_entry_loop_stop:
  "\<not> (off < p \<and> 0 < rem) \<Longrightarrow> read_entry_loop hba st usable a p off rem acc = (Inr (rem, acc), st)"
  by (subst read_entry_loop.simps) (rule if_not_P)

context ata_disk
begin

lemma read_entry_loop_law:
  assumes "port_ready port st" and "take p (read_range (sect (dev st)) a (secs p)) = d" and "length d = p"
    and "a + secs p < 2 ^ 48" and "a + secs p \<le> unat usable" and "off mod 512 = 0 \<or> p \<le> off \<or> rem = 0"
    and "read_entry_loop hba st usable (w64 a) p off rem acc = (q, st')"
  shows "only_dev st st' \<and> sect (dev st') = sect (dev st) \<and>
    ((q = Inl () \<and> \<not> reads_ok hba st) \<or>
     q = Inr (rem - length (drop off d), acc @ take rem (drop off d)))"
  using assms
proof (induction "p - off" arbitrary: st off rem acc rule: less_induct)
  case less
  show ?case
  proof (cases "off < p \<and> 0 < rem")
    case False
    then have "rem = 0 \<or> drop off d = []" "q = Inr (rem, acc)" "st' = st"
      using less.prems(3,7) unfolding read_entry_loop_stop [OF False] by auto
    then show ?thesis
      by (auto simp: keeps_refl)
  next
    case True
    then have off: "off mod 512 = 0" "off < p" and rem: "0 < rem"
      using less.prems(6) by auto
    define m where "m = min (min (p - off) rem) 512"
    have m: "m \<le> p - off" "m \<le> 512" "m \<le> rem" "0 < m"
      using off rem by (auto simp: m_def)
    have "off div 512 * 512 = off"
      using div_mult_mod_eq [of off 512] off(1) by simp
    then have idx: "off div 512 < secs p"
      using off(2) secs_bounds(1) [of p] by linarith
    have lba: "checked_add64 (w64 a) (word_of_nat (off div 512)) = Some (w64 (a + off div 512))"
      "unat (w64 (a + off div 512)) = a + off div 512" "a + off div 512 < 2 ^ 48"
      using idx less.prems(4)
      by (simp_all add: checked_add64_def unat_w64 unat_of_nat64 w64_add flip: w64_def)
    have us: "\<not> usable \<le> w64 (a + off div 512)"
      using lba(2) idx less.prems(5) by (simp add: word_le_nat_alt)
    obtain q1 s1 where rd: "read_sectors hba st (w64 (a + off div 512)) 1 = (q1, s1)" by force
    note one = read_one [OF less.prems(1) _ rd, unfolded lba(2), OF lba(3)]
    note eq = less.prems(7) [unfolded read_entry_loop.simps [of hba st] if_P [OF True] Let_def
        SECTOR_SIZE_def m_def [symmetric] lba(1) option.case if_not_P [OF us] rd]
    show ?thesis
    proof (cases "q1 = Inl ()")
      case True
      then show ?thesis using eq one by simp
    next
      case False
      then have q1: "q1 = Inr (sect (dev st) (a + off div 512))"
        using one(3) by simp
      have tk: "take m (sect (dev st) (a + off div 512)) = take m (drop off d)"
        by (rule payload_sector [OF sect_length less.prems(2,3) off m(1,2)])
      have "only_dev s1 st' \<and> sect (dev st') = sect (dev s1) \<and>
          ((q = Inl () \<and> \<not> reads_ok hba s1) \<or>
           q = Inr (rem - m - length (drop (off + m) d), (acc @ take m (drop off d)) @ take (rem - m) (drop (off + m) d)))"
      proof (rule less.hyps)
        show "p - (off + m) < p - off" using m off by simp
        show "port_ready port s1" using one(1) less.prems(1) keeps_ready by blast
        show "(off + m) mod 512 = 0 \<or> p \<le> off + m \<or> rem - m = 0"
          using off(1) by (auto simp: m_def min_def)
        show "read_entry_loop hba s1 usable (w64 a) p (off + m) (rem - m) (acc @ take m (drop off d)) = (q, st')"
          using eq q1 tk by simp
      qed (use less.prems one in simp_all)
      moreover have "take m (drop off d) @ take (rem - m) (drop (off + m) d) = take rem (drop off d)"
        using m(3) take_add [of m "rem - m" "drop off d"] by (simp add: add.commute)
      moreover have "rem - m - length (drop (off + m) d) = rem - length (drop off d)"
        using m less.prems(3) by simp
      ultimately show ?thesis
        using one keeps_trans [of st s1 st'] reads_ok_keeps [OF one(1)] by auto
    qed
  qed
qed

lemma read_entries_loop_law:
  assumes "port_ready port st" and db: "db_log (sect (dev st)) L log" and "i \<le> length log"
    and "k = length log - i" and us: "end_at L \<le> unat usable"
    and "read_entries_loop hba st usable (w64 (map_at L)) (w64 (length log)) k rem acc = (q, st')"
  shows "only_dev st st' \<and> sect (dev st') = sect (dev st) \<and>
    ((q = Inl () \<and> \<not> reads_ok hba st) \<or> q = Inr (acc @ take rem (concat (drop i log))))"
  using assms
proof (induction k arbitrary: st i rem acc)
  case 0
  then show ?case by (simp add: keeps_refl)
next
  case (Suc k)
  have i: "i < length log" and len: "length log \<le> 992" and bound: "end_at L < 2 ^ 48"
    and ent: "db_entry (sect (dev st)) L log i" and le: "log_start L log \<le> end_at L"
    using Suc.prems by (auto simp: db_log_def db_map_def)
  let ?d = "log ! i" and ?a = "log_start L (take i log)"
  have within: "?a + secs (length ?d) \<le> end_at L"
    using db_entry_within [OF i, of L] le by simp
  have idx: "w64 (length log) - word_of_nat (Suc k) = w64 i"
    using Suc.prems(4) i by (simp add: w64_def flip: of_nat_diff)
  show ?case
  proof (cases "rem = 0")
    case True
    then show ?thesis using Suc.prems(6) by (simp add: keeps_refl)
  next
    case False
    obtain q1 s1 where rd: "memory_db_read_map_entry hba st (w64 (map_at L)) (w64 i) = (q1, s1)" by force
    have "i < 992"
      using i len by simp
    note one = read_map_entry [OF Suc.prems(1) bound this rd]
    have p: "unat (word_of_nat (length ?d) :: u32) = length ?d" "(word_of_nat (length ?d) :: u32) \<noteq> 0"
      using ent unat_of_nat32 [of "length ?d"] by (auto simp: db_entry_def)
    note eq = Suc.prems(6) [unfolded read_entries_loop.simps if_not_P [OF False] idx rd]
    show ?thesis
    proof (cases "q1 = Inl ()")
      case True
      then show ?thesis using eq one by simp
    next
      case q1: False
      obtain q2 s2 where lp: "read_entry_loop hba s1 usable (w64 ?a) (length ?d) 0 rem acc = (q2, s2)" by force
      have r1: "port_ready port s1"
        using one(1) Suc.prems(1) keeps_ready by blast
      have two: "only_dev s1 s2 \<and> sect (dev s2) = sect (dev s1) \<and>
        ((q2 = Inl () \<and> \<not> reads_ok hba s1) \<or> q2 = Inr (rem - length ?d, acc @ take rem ?d))"
        using read_entry_loop_law [OF r1 _ _ _ _ _ lp, of ?d] ent one within us bound
        by (simp add: db_entry_def)
      have step: "try_q (q2, s2) (\<lambda>(rem, acc) st.
          read_entries_loop hba st usable (w64 (map_at L)) (w64 (length log)) k rem acc) = (q, st')"
        using eq one(3) q1 ent p lp by (simp add: db_entry_def)
      show ?thesis
      proof (cases "q2 = Inl ()")
        case True
        then show ?thesis
          using step two one keeps_trans [of st s1 st'] reads_ok_keeps [OF one(1)] by auto
      next
        case False
        have "read_entries_loop hba s2 usable (w64 (map_at L)) (w64 (length log)) k
            (rem - length ?d) (acc @ take rem ?d) = (q, st')"
          using step two False by auto
        moreover have s2: "port_ready port s2" "only_dev st s2"
          using two one r1 keeps_ready keeps_trans by blast+
        ultimately have "only_dev s2 st' \<and> sect (dev st') = sect (dev s2) \<and>
          ((q = Inl () \<and> \<not> reads_ok hba s2) \<or>
           q = Inr ((acc @ take rem ?d) @ take (rem - length ?d) (concat (drop (Suc i) log))))"
          using two one i Suc.prems(2,4) us by (intro Suc.IH) auto
        then show ?thesis
          using two one keeps_trans [OF s2(2)] reads_ok_keeps [OF s2(2)]
          by (auto simp: Cons_nth_drop_Suc [OF i, symmetric])
      qed
    qed
  qed
qed

lemma read_recovered_law:
  assumes st: "port_ready port st" and db: "db_log (sect (dev st)) L log" and h: "header_of_log L log h"
    and rd: "read_entries hba st h n = (r, st')"
  shows "only_dev st st' \<and> sect (dev st') = sect (dev st) \<and>
    (r = Inr (take n (concat log)) \<or> r = Inl () \<and> (\<not> reads_ok hba st \<or> ssd_sector_count st = None))"
proof (cases "ssd_sector_count st")
  case None
  then show ?thesis
    using rd by (simp add: read_entries_def keeps_refl)
next
  case (Some cap)
  have bound: "end_at L < 2 ^ 48" and len: "length log \<le> 992" and ls: "log_start L log \<le> end_at L"
    using db by (auto simp: db_log_def db_map_def)
  have f: "data_lba h = w64 (data_at L)" "total_sectors h = MEMORY_DB_TOTAL_SECTORS"
    "next_append_lba h = w64 (log_start L log)" "map_entries_used h = w64 (length log)"
    "map_lba h = w64 (map_at L)"
    using h by (auto simp: header_of_log_def)
  have u: "unat (w64 (log_start L log)) = log_start L log" "unat (w64 (length log)) = length log"
    using ls bound len by (simp_all add: unat_w64)
  have in_range: "\<not> (w64 (log_start L log) < w64 (data_at L) \<or> w64 (end_at L) < w64 (log_start L log))"
    using u unat_layout [OF bound] ls log_start_ge [of L log] by (simp add: word_less_nat_alt)
  define usable where "usable = (if w64 (end_at L) < cap then cap else w64 (end_at L))"
  have us: "end_at L \<le> unat usable"
    using unat_layout(4) [OF bound] by (auto simp: usable_def word_less_nat_alt)
  have mn: "min (w64 (length log)) memory_db_map_entry_capacity = w64 (length log)"
    using u len by (simp add: min_def word_le_nat_alt capacity_992)
  note eq = rd [unfolded read_entries_def Some option.case Let_def f layout_words(1) [OF bound]
      if_not_P [OF in_range] usable_def [symmetric] mn]
  show ?thesis
  proof (cases "log = []")
    case True
    then show ?thesis using eq by (simp add: w64_simps keeps_refl)
  next
    case False
    then have "w64 (length log) \<noteq> 0"
      using u by (metis length_0_conv unsigned_0)
    then show ?thesis
      using eq u read_entries_loop_law [OF st db, of 0 "length log" usable n "[]" r st'] us by auto
  qed
qed

lemma read_law:
  assumes st: "port_ready port st" "memory_db_header_lba st = Some (w64 L)"
    and db: "db_log (sect (dev st)) L log" and known: "db_synced (sect (dev st)) L log \<or> reads_ok hba st"
    and rd: "read_memory_db hba st (Some n) = (r, st')"
  shows "only_dev st st' \<and> sect (dev st') = sect (dev st) \<and>
    (r = Inr (take n (concat log)) \<or> r = Inl () \<and> (\<not> reads_ok hba st \<or> ssd_sector_count st = None))"
proof (cases "n = 0")
  case True
  then show ?thesis
    using rd st(2) by (simp add: read_memory_db_def keeps_refl)
next
  case n: False
  have bound: "end_at L < 2 ^ 48" and len: "length log \<le> 992" and ls: "log_start L log \<le> end_at L"
    using db by (auto simp: db_log_def db_map_def)
  obtain q1 s1 where hd: "memory_db_read_header hba st (w64 L) = (q1, s1)" by force
  note one = read_header_log [OF st(1) db hd]
  note eq = rd [unfolded read_memory_db_def st(2) option.case if_not_P [OF n] hd layout_words(2) [OF bound]]
  show ?thesis
  proof (cases "q1 = Inl ()")
    case True
    then show ?thesis using eq one by auto
  next
    case False
    then obtain h where q1: "q1 = Inr h" and h: "db_header (sect (dev s1)) L h"
      using one by auto
    have hm: "map_lba h = w64 (map_at L)" "map_sectors h = MEMORY_DB_MAP_SECTORS"
      using h by (auto simp: db_header_def)
    obtain q2 h2 s2 where rec: "memory_db_recover_from_map hba s1 h = (q2, h2, s2)"
      by (metis prod_cases3)
    have r1: "port_ready port s1" and db1: "db_log (sect (dev s1)) L log"
      and known1: "db_synced (sect (dev s1)) L log \<or> reads_ok hba s1"
      using one st db known keeps_ready reads_ok_keeps [OF one(1)] by (blast, auto)
    note two = recover_header_log [OF r1 db1 known1 h rec]
    have s2: "port_ready port s2" "only_dev st s2" "sect (dev s2) = sect (dev st)"
      using two one r1 keeps_ready keeps_trans by (blast, blast, auto)
    have "read_entries hba s2 h2 n = (r, st')"
      using eq q1 hm rec by simp
    from read_recovered_law [OF s2(1) _ two(3) this] show ?thesis
      using s2 db reads_ok_keeps [OF s2(2)] only_devD(2) [OF s2(2)] keeps_trans [OF s2(2)] by simp
  qed
qed

end

end
