(* ===== verification/MemoryDbInit.thy ===== *)
theory MemoryDbInit
  imports MemoryDbLog
begin

text \<open>
  Correctness of \<open>erase_memory_db\<close> and \<open>ensure_memory_db\<close>: an erased or freshly written database
  holds the empty log; recovery from arbitrary sectors finds a well-formed log, so that a
  successful \<open>ensure_memory_db\<close> always leaves a database whose header agrees with its map; and a
  database that is already there keeps its payloads.
\<close>

section \<open>Empty databases\<close>

lemma db_empty:
  assumes "end_at L < 2 ^ 48" and "parse_header (c L) = Inr h" and "header_lba h = w64 L"
    and "data_lba h = w64 (data_at L)" and "total_sectors h = MEMORY_DB_TOTAL_SECTORS"
    and "map_lba h = w64 (map_at L)" and "map_sectors h = MEMORY_DB_MAP_SECTORS"
    and "next_append_lba h = w64 (data_at L)" and "map_entries_used h = 0"
    and "c (map_at L) = map_header_bytes 0"
  shows "db_synced c L []"
proof -
  have "db_header c L h"
    using assms(2-7) by (simp add: db_header_def)
  moreover have "db_map c L 0"
    by (simp add: db_map_def assms(10) parse_map_header_bytes w64_simps)
  ultimately show ?thesis
    using assms(1,8,9) by (auto simp: db_synced_def db_log_def w64_simps db_layout)
qed

text \<open>
  Recovery from arbitrary sectors: the entries it accepts are those of a log whose payloads are
  the bytes the entries point to.
\<close>

definition db_entries :: "(nat \<Rightarrow> bytes) \<Rightarrow> nat \<Rightarrow> bytes list \<Rightarrow> bool" where
  "db_entries c L log \<longleftrightarrow> (\<forall>k < length log. db_entry c L log k) \<and> log_start L log \<le> end_at L \<and>
    length log \<le> 992"

lemma db_entries_snoc:
  assumes "db_entries c L log" and "length log < 992" and "\<And>i. length (c i) = 512"
    and "start_lba (disk_entry c L (length log)) = w64 (log_start L log)"
    and "entry_flags (disk_entry c L (length log)) AND MEMORY_DB_MAP_FLAG_ACTIVE \<noteq> 0"
    and p: "p = unat (payload_bytes (disk_entry c L (length log)))" "0 < p" "log_start L log + secs p \<le> end_at L"
  shows "db_entries c L (log @ [take p (read_range c (log_start L log) (secs p))])"
proof -
  let ?d = "take p (read_range c (log_start L log) (secs p))"
  have len: "length ?d = p"
    using length_read_range [of c] assms(3) secs_bounds(1) [of p] by simp
  have "p < 2 ^ 32" "payload_bytes (disk_entry c L (length log)) = word_of_nat p"
    using p(1) unat_lt32 by simp_all
  then have "db_entry c L (log @ [?d]) (length log)"
    using assms(4,5) p(2) len by (simp add: db_entry_def)
  moreover have "db_entry c L (log @ [?d]) k = db_entry c L log k" if "k < length log" for k
    by (rule db_entry_cong) (use that in \<open>auto simp: nth_append\<close>)
  ultimately show ?thesis
    using assms(1,2) p(3) len by (auto simp: db_entries_def less_Suc_eq)
qed

text \<open>The changes \<open>ensure_memory_db\<close> may make to the driver's statics.\<close>

definition db_registers :: "nat \<Rightarrow> 'd ahci \<Rightarrow> 'd ahci \<Rightarrow> bool" where
  "db_registers L st st' \<longleftrightarrow>
    st' \<in> {st\<lparr>dev := dev st'\<rparr>, memory_db_register_state (st\<lparr>dev := dev st'\<rparr>) (w64 L)}"

lemma db_registers_dev: "only_dev st st' \<Longrightarrow> db_registers L st st'"
  by (simp add: db_registers_def only_dev_def)

lemma db_registers_register:
  assumes "only_dev st st'"
  shows "db_registers L st (memory_db_register_state st' (w64 L))"
    and "dev (memory_db_register_state st' (w64 L)) = dev st'"
    and "memory_db_register_state st' (w64 L)
      = memory_db_register_state (st\<lparr>dev := dev (memory_db_register_state st' (w64 L))\<rparr>) (w64 L)"
proof -
  have "st' = st\<lparr>dev := dev st'\<rparr>"
    using assms by (simp add: only_dev_def)
  then show "db_registers L st (memory_db_register_state st' (w64 L))"
    "memory_db_register_state st' (w64 L)
      = memory_db_register_state (st\<lparr>dev := dev (memory_db_register_state st' (w64 L))\<rparr>) (w64 L)"
    by (auto simp: db_registers_def memory_db_register_state_def)
  show "dev (memory_db_register_state st' (w64 L)) = dev st'"
    by (simp add: memory_db_register_state_def)
qed

lemma db_registers_trans: "only_dev st s1 \<Longrightarrow> db_registers L s1 st' \<Longrightarrow> db_registers L st st'"
  unfolding only_dev_def db_registers_def memory_db_register_state_def
  by (cases st, cases s1, cases st') auto

lemma db_registers_step: "db_registers L st s1 \<Longrightarrow> only_dev s1 st' \<Longrightarrow> db_registers L st st'"
  unfolding only_dev_def db_registers_def memory_db_register_state_def
  by (cases st, cases s1, cases st') auto

lemma db_registers_ready: "db_registers L st st' \<Longrightarrow> port_ready port st \<Longrightarrow> port_ready port st'"
  by (cases st, cases st') (auto simp: db_registers_def memory_db_register_state_def port_ready_def)

text \<open>A header whose cursor and count are ones \<open>ensure_memory_db\<close> accepts.\<close>

definition db_cursor_ok :: "(nat \<Rightarrow> bytes) \<Rightarrow> nat \<Rightarrow> bool" where
  "db_cursor_ok c L \<longleftrightarrow> (\<exists>h. db_header c L h \<and> data_at L \<le> unat (next_append_lba h) \<and>
    unat (next_append_lba h) \<le> L + 131072 \<and> unat (map_entries_used h) \<le> 992)"

lemma header_valid:
  assumes "end_at L < 2 ^ 48" and "db_header c L h" and "data_at L \<le> unat (next_append_lba h)"
    and "unat (next_append_lba h) \<le> L + 131072" and "unat (map_entries_used h) \<le> 992"
  shows "le_u64 (c L) 72 = w64 (map_at L)"
    and "existing_header_valid (c L) (w64 L) (w64 (map_at L)) (w64 (data_at L)) (w64 (L + 131072))"
proof -
  have ph: "parse_header (c L) = Inr h"
    using assms(2) by (simp add: db_header_def)
  then have f: "le_u64 (c L) 40 = next_append_lba h" "le_u64 (c L) 80 = map_entries_used h"
    "le_u64 (c L) 72 = map_lba h" "le_u64 (c L) 16 = header_lba h" "le_u64 (c L) 24 = data_lba h"
    "le_u64 (c L) 32 = total_sectors h" "le_u64 (c L) 88 = map_sectors h" "subslice (c L) 0 8 = MEMORY_DB_MAGIC"
    "le_u32 (c L) 8 = MEMORY_DB_VERSION" "le_u32 (c L) 12 = word_of_nat SECTOR_SIZE"
    by (auto simp: parse_header_def split: if_splits)
  show "le_u64 (c L) 72 = w64 (map_at L)"
    using f assms(2) by (simp add: db_header_def)
  have "unat (w64 (L + 131072)) = L + 131072"
    using assms(1) by (simp add: unat_w64 db_layout)
  then have "w64 (data_at L) \<le> next_append_lba h" "next_append_lba h \<le> w64 (L + 131072)"
    "map_entries_used h \<le> memory_db_map_entry_capacity"
    using assms(3-5) unat_layout(3) [OF assms(1)] by (simp_all add: word_le_nat_alt capacity_992)
  then show "existing_header_valid (c L) (w64 L) (w64 (map_at L)) (w64 (data_at L)) (w64 (L + 131072))"
    unfolding existing_header_valid_def f using assms(2) by (simp add: db_header_def)
qed

lemma db_republish:
  assumes "db_log c L log" and "header_of_log L log h"
  shows "db_log (c(map_at L := map_header_bytes (w64 (length log)))) L log"
    and "db_log (c(map_at L := map_header_bytes (w64 (length log)), L := header_bytes h)) L log"
proof -
  let ?c = "c(map_at L := map_header_bytes (w64 (length log)))"
  have "db_entry ?c L log k = db_entry c L log k" for k
    by (rule db_entry_cong) (use log_start_ge [of L "take k log"] in \<open>auto simp: db_layout\<close>)
  moreover have "db_header ?c L = db_header c L"
    by (intro ext) (simp add: db_header_def map_at_def)
  moreover have "w64 (length log) \<le> memory_db_map_entry_capacity"
    using assms(1) unat_w64 [of "length log"] by (simp add: capacity_992 word_le_nat_alt db_log_def db_map_def)
  then have "db_map ?c L (length log)"
    using assms(1) by (simp add: db_map_def parse_map_header_bytes db_log_def)
  ultimately show db: "db_log ?c L log"
    using assms(1) by (simp add: db_log_def)
  show "db_log (?c(L := header_bytes h)) L log"
    using assms(2) by (intro db_sync(1) [OF db]) (auto simp: header_of_log_def)
qed

lemma erase_step:
  fixes hba :: "'d hba"
  assumes "a < b" and "b < 2 ^ 48"
  obtains n z where "0 < n" "n \<le> 8" "a + n \<le> b" "unat (word_of_nat n :: u16) = n"
    "0 < unat (word_of_nat n :: u16)" "unat (word_of_nat n :: u16) \<le> MODEL_IO_SECTORS"
    "unat (w64 a) < 2 ^ 48" "length z = unat (word_of_nat n :: u16) * 512"
    "\<And>st. erase_loop hba st (w64 a) (w64 b) = try_q (write_sectors hba st (w64 a) (word_of_nat n) z)
      (\<lambda>_ st. erase_loop hba st (w64 (a + n)) (w64 b))"
proof -
  have u: "unat (w64 a) = a" "unat (w64 b) = b"
    using assms by (simp_all add: unat_w64)
  define n where "n = min (b - a) 8"
  have n: "0 < n" "n \<le> 8" "a + n \<le> b"
    using assms by (auto simp: n_def)
  have cnt: "unat (min (sat_sub64 (w64 b) (w64 a)) (ucast MEMORY_DB_ERASE_CHUNK_SECTORS)) = n"
    using u by (simp add: min_def word_le_nat_alt unat_sat_sub64 MEMORY_DB_ERASE_CHUNK_SECTORS_def n_def)
  have un: "unat (word_of_nat n :: u16) = n"
    using n by (intro unat_of_nat16) simp
  have tryn: "u16_try_from n = Inr (word_of_nat n)"
    using n by (simp add: u16_try_from_def)
  have nxt: "sat_add64 (w64 a) (ucast (word_of_nat n :: u16)) = w64 (a + n)"
    using un u n assms(2) by (simp add: word_unat_eq_iff unat_sat_add64 unat_w64)
  define z where "z = take (unat (word_of_nat n :: u16) * SECTOR_SIZE)
    (replicate (unat MEMORY_DB_ERASE_CHUNK_SECTORS * SECTOR_SIZE) (0 :: u8))"
  have lt: "w64 a < w64 b"
    using assms(1) u by (simp add: word_less_nat_alt)
  have "erase_loop hba st (w64 a) (w64 b) = try_q (write_sectors hba st (w64 a) (word_of_nat n) z)
      (\<lambda>_ st. erase_loop hba st (w64 (a + n)) (w64 b))" for st
    unfolding erase_loop.simps [of hba st "w64 a"] if_P [OF lt] Let_def cnt tryn sum.case nxt z_def ..
  moreover have "length z = unat (word_of_nat n :: u16) * 512"
    using n un by (simp add: z_def SECTOR_SIZE_def MEMORY_DB_ERASE_CHUNK_SECTORS_def)
  ultimately show thesis
    using n un u assms by (intro that [of n z]) (auto simp: MODEL_IO_SECTORS_def)
qed

context ata_disk
begin

lemma erase_loop_law:
  assumes "port_ready port st" and "b < 2 ^ 48" and "erase_loop hba st (w64 a) (w64 b) = (q, st')" and "a \<le> b"
  shows "only_dev st st' \<and> (\<forall>i. i < a \<or> b \<le> i \<longrightarrow> sect (dev st') i = sect (dev st) i)"
  using assms
proof (induction "b - a" arbitrary: st a rule: less_induct)
  case less
  have u: "unat (w64 a) = a" "unat (w64 b) = b"
    using less.prems by (simp_all add: unat_w64)
  show ?case
  proof (cases "a < b")
    case False
    then have "(q, st') = (Inr (), st)"
      using less.prems(3) u by (subst (asm) erase_loop.simps) (simp add: word_less_nat_alt)
    then show ?thesis
      by (simp add: keeps_refl)
  next
    case True
    then obtain n z where n: "0 < n" "n \<le> 8" "a + n \<le> b" and un: "unat (word_of_nat n :: u16) = n"
      and pre: "0 < unat (word_of_nat n :: u16)" "unat (word_of_nat n :: u16) \<le> MODEL_IO_SECTORS"
        "unat (w64 a) < 2 ^ 48" and lz: "length z = unat (word_of_nat n :: u16) * 512"
      and step: "\<And>st. erase_loop hba st (w64 a) (w64 b) = try_q (write_sectors hba st (w64 a) (word_of_nat n) z)
        (\<lambda>_ st. erase_loop hba st (w64 (a + n)) (w64 b))"
      by (rule erase_step [OF _ less.prems(2), of a hba]) blast
    obtain q1 s1 where w: "write_sectors hba st (w64 a) (word_of_nat n) z = (q1, s1)" by force
    have eq: "try_q (q1, s1) (\<lambda>_ st. erase_loop hba st (w64 (a + n)) (w64 b)) = (q, st')"
      using less.prems(3) step w by simp
    note law = wr_law [OF less.prems(1) pre lz w] and frame = write_outside [OF less.prems(1) pre lz w]
    have fr: "\<forall>i. i < a \<or> b \<le> i \<longrightarrow> sect (dev s1) i = sect (dev st) i"
      using frame u un n by auto
    show ?thesis
    proof (cases "q1 = Inl ()")
      case True
      then show ?thesis using eq law fr by simp
    next
      case False
      then have "erase_loop hba s1 (w64 (a + n)) (w64 b) = (q, st')"
        using eq by (cases q1) auto
      moreover have "port_ready port s1"
        using law less.prems(1) keeps_ready by blast
      ultimately have "only_dev s1 st' \<and> (\<forall>i. i < a + n \<or> b \<le> i \<longrightarrow> sect (dev st') i = sect (dev s1) i)"
        using n less.prems(2) by (intro less.hyps) auto
      then show ?thesis
        using law fr keeps_trans [of st s1 st'] by auto
    qed
  qed
qed

lemma erase_tail_law:
  assumes st: "port_ready port st" "memory_db_header_lba st = Some (w64 L)" and bound: "end_at L < 2 ^ 48"
    and h: "header_current h" "header_lba h = w64 L" "data_lba h = w64 (data_at L)"
      "total_sectors h = MEMORY_DB_TOTAL_SECTORS" "map_lba h = w64 (map_at L)"
      "map_sectors h = MEMORY_DB_MAP_SECTORS" "next_append_lba h = w64 (data_at L)" "map_entries_used h = 0"
    and er: "try_q (erase_loop hba st (w64 L) (w64 (L + 131072))) (\<lambda>_ st.
        try_q (memory_db_write_map_header hba st (w64 (map_at L)) 0) (\<lambda>_ st.
          memory_db_write_header hba st h)) = (r, st')"
  shows "only_dev st st' \<and> (\<forall>i. i < L \<or> end_at L \<le> i \<longrightarrow> sect (dev st') i = sect (dev st) i) \<and>
    (r = Inr () \<longrightarrow> db_synced (sect (dev st')) L [])"
proof -
  obtain q1 s1 where w1: "erase_loop hba st (w64 L) (w64 (L + 131072)) = (q1, s1)" by force
  have "L + 131072 < 2 ^ 48"
    using bound by (simp add: db_layout)
  note law1 = erase_loop_law [OF st(1) this w1 le_add1]
  obtain q2 s2 where w2: "memory_db_write_map_header hba s1 (w64 (map_at L)) 0 = (q2, s2)" by force
  have r1: "port_ready port s1"
    using law1 st keeps_ready by blast
  note law2 = write_map_header_law [OF r1 bound w2]
  obtain q3 s3 where w3: "memory_db_write_header hba s2 h = (q3, s3)" by force
  have s2: "port_ready port s2" "memory_db_header_lba s2 = Some (w64 L)"
    using law1 law2 r1 st keeps_ready only_devD(1) by (blast, metis)
  note law3 = write_header_law [OF s2(1) bound h(1,2) s2(2) w3]
  have fr: "\<forall>i. i < L \<or> end_at L \<le> i \<longrightarrow> sect (dev s1) i = sect (dev st) i"
    using law1 by (auto simp: db_layout)
  consider "r = Inl ()" "st' = s1" | "r = Inl ()" "st' = s2" | "r = q3" "st' = s3" "q2 = Inr ()"
    using er w1 w2 w3 by (cases q1; cases q2) auto
  then show ?thesis
  proof cases
    case 1
    then show ?thesis using law1 fr by simp
  next
    case 2
    then show ?thesis
      using law1 law2 fr keeps_trans [of st s1 s2] by (auto simp: db_layout)
  next
    case 3
    have "db_synced (sect (dev s3)) L []" if "q3 = Inr ()"
      using law2 law3 3(3) that h by (intro db_empty [OF bound]) (auto simp: parse_header_bytes db_layout)
    then show ?thesis
      using 3 law1 law2 law3 fr keeps_trans [of st s1 s2] keeps_trans [of st s2 s3] by (auto simp: db_layout)
  qed
qed

lemma zero_sectors_law:
  assumes "port_ready port st" and "a + n < 2 ^ 48" and "zero_sectors_from hba st (w64 a) n = (q, st')"
  shows "only_dev st st' \<and> (\<forall>i. i < a \<or> a + n \<le> i \<longrightarrow> sect (dev st') i = sect (dev st) i)"
  using assms
proof (induction n arbitrary: st a)
  case 0
  then show ?case by (simp add: keeps_refl)
next
  case (Suc n)
  have u: "unat (w64 a) = a" "unat (w64 a) < 2 ^ 48"
    using Suc.prems(2) by (simp_all add: unat_w64)
  obtain q1 s1 where w: "write_sectors hba st (w64 a) 1 zero_sector = (q1, s1)" by force
  note one = write_one [OF Suc.prems(1) u(2) length_zero_sector w]
  have fr: "\<forall>i. i \<noteq> a \<longrightarrow> sect (dev s1) i = sect (dev st) i"
    using one(3) u by auto
  show ?case
  proof (cases "q1 = Inl ()")
    case True
    then show ?thesis using Suc.prems(3) w one(1) fr by simp
  next
    case False
    then have "zero_sectors_from hba s1 (w64 (Suc a)) n = (q, st')"
      using Suc.prems(3) w by (cases q1) (auto simp: w64_simps)
    then have "only_dev s1 st' \<and> (\<forall>i. i < Suc a \<or> Suc a + n \<le> i \<longrightarrow> sect (dev st') i = sect (dev s1) i)"
      using Suc.prems(2) keeps_ready [OF one(1) Suc.prems(1)] by (intro Suc.IH) auto
    then show ?thesis
      using one(1) fr keeps_trans [of st s1 st'] by auto
  qed
qed

lemma erase_law:
  assumes st: "port_ready port st" "memory_db_header_lba st = Some (w64 L)"
    and db: "db_log (sect (dev st)) L log" and er: "erase_memory_db hba st = (r, st')"
  shows "only_dev st st' \<and> (\<forall>i. i < L \<or> end_at L \<le> i \<longrightarrow> sect (dev st') i = sect (dev st) i) \<and>
    (r = Inr () \<longrightarrow> db_synced (sect (dev st')) L [])"
proof -
  have bound: "end_at L < 2 ^ 48"
    using db by (simp add: db_log_def)
  note u = unat_layout [OF bound]
  obtain q1 s1 where hd: "memory_db_read_header hba st (w64 L) = (q1, s1)" by force
  note one = read_header_log [OF st(1) db hd]
  have s1: "port_ready port s1" "memory_db_header_lba s1 = Some (w64 L)"
    using one(1) st keeps_ready only_devD(1) by (blast, metis)
  show ?thesis
  proof (cases "r = Inl () \<and> st' = s1")
    case True
    then show ?thesis using one by simp
  next
    case ok: False
    then obtain h where q1: "q1 = Inr h" and h: "db_header (sect (dev st)) L h"
      using one er st(2) hd by (auto simp: erase_memory_db_def)
    have f: "header_lba h = w64 L" "map_lba h = w64 (map_at L)" "map_sectors h = MEMORY_DB_MAP_SECTORS"
      "total_sectors h = MEMORY_DB_TOTAL_SECTORS" "data_lba h = w64 (data_at L)"
      using h by (auto simp: db_header_def)
    have e: "checked_add64 (w64 L) MEMORY_DB_TOTAL_SECTORS = Some (w64 (L + 131072))"
      using u bound by (simp add: checked_add64_def word_unat_eq_iff unat_add64 unat_w64 db_consts db_layout)
    obtain cap where cap: "ssd_sector_count s1 = Some cap" "\<not> cap < w64 (L + 131072)"
      using er ok st(2) hd q1 f e layout_words(2) [OF bound]
      by (auto simp: erase_memory_db_def split: option.splits if_splits)
    let ?h = "\<lparr>magic = MEMORY_DB_MAGIC, version = MEMORY_DB_VERSION, sector_size = word_of_nat SECTOR_SIZE,
      header_lba = w64 L, data_lba = w64 (data_at L), total_sectors = MEMORY_DB_TOTAL_SECTORS,
      next_append_lba = w64 (data_at L), last_ssd_lba = sat_sub64 cap 1,
      model_start_lba = model_start_lba h, model_last_lba = model_last_lba h,
      map_lba = w64 (map_at L), map_entries_used = 0, map_sectors = MEMORY_DB_MAP_SECTORS\<rparr>"
    have er': "try_q (erase_loop hba s1 (w64 L) (w64 (L + 131072))) (\<lambda>_ st.
        try_q (memory_db_write_map_header hba st (w64 (map_at L)) 0) (\<lambda>_ st.
          memory_db_write_header hba st ?h)) = (r, st')"
      using er st(2) hd q1 f e cap layout_words(2) [OF bound] by (simp add: erase_memory_db_def)
    show ?thesis
      using erase_tail_law [OF s1 bound _ _ _ _ _ _ _ _ er'] one keeps_trans [of st s1 st']
      by (simp add: header_current_def)
  qed
qed

lemma recover_loop_any:
  assumes "port_ready port st" and bound: "end_at L < 2 ^ 48" and "length log + k \<le> 992"
    and "db_entries (sect (dev st)) L log"
    and "recover_loop hba st (w64 (map_at L)) (w64 (end_at L)) k (w64 (log_start L log)) (w64 (length log)) = (q, st')"
  shows "only_dev st st' \<and> sect (dev st') = sect (dev st) \<and>
    (q = Inl () \<or> (\<exists>log'. q = Inr (w64 (log_start L log'), w64 (length log')) \<and> db_entries (sect (dev st)) L log'))"
  using assms
proof (induction k arbitrary: st log)
  case 0
  then show ?case by (auto simp: keeps_refl)
next
  case (Suc k)
  let ?c = "sect (dev st)" and ?n = "length log"
  let ?e = "disk_entry ?c L ?n"
  obtain q1 s1 where rd: "memory_db_read_map_entry hba st (w64 (map_at L)) (w64 ?n) = (q1, s1)" by force
  have n: "?n < 992"
    using Suc.prems(3) by simp
  note one = read_map_entry [OF Suc.prems(1) bound n rd]
  define p where "p = unat (payload_bytes ?e)"
  have cur: "unat (w64 (log_start L log)) = log_start L log"
    using Suc.prems(4) bound by (simp add: unat_w64 db_entries_def)
  have "p < 2 ^ 32"
    using unat_lt32 by (simp add: p_def)
  then have secs: "unat (sectors_for_bytes p) = secs p"
    by (intro unat_sectors_for_bytes) simp
  show ?case
  proof (cases "q = Inl () \<and> st' = s1 \<or> q = Inr (w64 (log_start L log), w64 ?n) \<and> st' = s1")
    case True
    then show ?thesis using one Suc.prems(4) by auto
  next
    case False
    then have q1: "q1 = Inr ?e"
      using one(3) Suc.prems(5) rd by auto
    then obtain nxt where go: "entry_flags ?e AND MEMORY_DB_MAP_FLAG_ACTIVE \<noteq> 0" "payload_bytes ?e \<noteq> 0"
      "checked_add64 (w64 (log_start L log)) (sectors_for_bytes p) = Some nxt"
      "start_lba ?e = w64 (log_start L log)" "\<not> w64 (end_at L) < nxt"
      "recover_loop hba s1 (w64 (map_at L)) (w64 (end_at L)) k nxt (w64 ?n + 1) = (q, st')"
      using Suc.prems(5) rd False by (auto simp: p_def split: if_splits option.splits)
    have fit: "log_start L log + secs p \<le> end_at L"
      using go(3,5) cur secs unat_layout(4) [OF bound] by (simp add: checked_add64_Some word_less_nat_alt unat_add64)
    have nxt: "nxt = w64 (log_start L log + secs p)"
      using go(3) cur secs fit bound by (simp add: checked_add64_Some word_unat_eq_iff unat_add64 unat_w64)
    have "0 < p"
      using go(2) by (simp add: p_def word_greater_zero_iff unat_gt_0)
    let ?d = "take p (read_range ?c (log_start L log) (secs p))"
    have "length ?d = p"
      using length_read_range [OF sect_length] secs_bounds(1) [of p] by simp
    moreover have "db_entries ?c L (log @ [?d])"
      by (rule db_entries_snoc [OF Suc.prems(4) n sect_length go(4,1) p_def \<open>0 < p\<close> fit])
    ultimately have "only_dev s1 st' \<and> sect (dev st') = sect (dev s1) \<and>
      (q = Inl () \<or> (\<exists>log'. q = Inr (w64 (log_start L log'), w64 (length log')) \<and> db_entries (sect (dev s1)) L log'))"
      using go(6) nxt one Suc.prems(1,3) bound keeps_ready [OF one(1)]
      by (intro Suc.IH [of s1 "log @ [?d]"]) (auto simp: w64_simps)
    then show ?thesis
      using one keeps_trans [of st s1 st'] by auto
  qed
qed

lemma recover_any:
  assumes "port_ready port st" and bound: "end_at L < 2 ^ 48" and "data_lba h = w64 (data_at L)"
    and "total_sectors h = MEMORY_DB_TOTAL_SECTORS" and "map_lba h = w64 (map_at L)"
    and "map_sectors h = MEMORY_DB_MAP_SECTORS"
    and rec: "memory_db_recover_from_map hba st h = (r, h', st')"
  shows "only_dev st st' \<and> sect (dev st') = sect (dev st) \<and>
    (r = Inr () \<longrightarrow> (\<exists>log. db_entries (sect (dev st)) L log \<and>
       h' = h\<lparr>next_append_lba := w64 (log_start L log), map_entries_used := w64 (length log)\<rparr>))"
proof -
  note u = unat_layout [OF bound]
  have nz: "\<not> (w64 (map_at L) = 0 \<or> MEMORY_DB_MAP_SECTORS \<noteq> MEMORY_DB_MAP_SECTORS)"
    using u(2) by (auto simp: map_at_def)
  obtain q1 s1 where rd: "read_sectors hba st (w64 (map_at L)) 1 = (q1, s1)" by force
  have one: "only_dev st s1" "sect (dev s1) = sect (dev st)" "q1 = Inl () \<or> q1 = Inr (sect (dev st) (map_at L))"
    using read_one [OF assms(1) _ rd] u by auto
  note eq = rec [unfolded memory_db_recover_from_map_def assms(3-6) if_not_P [OF nz] Let_def
      memory_db_read_map_header_def rd layout_words(1) [OF bound]]
  show ?thesis
  proof (cases "q1 = Inl () \<or> isl (parse_map_header (sect (dev st) (map_at L)))")
    case True
    then have "r = Inl () \<and> st' = s1"
      using eq one(3) by (cases q1; cases "parse_map_header (sect (dev st) (map_at L))") auto
    then show ?thesis using one by auto
  next
    case False
    then obtain a used where ph: "q1 = Inr (sect (dev st) (map_at L))"
      "parse_map_header (sect (dev st) (map_at L)) = Inr (a, used)"
      using one(3) by (cases "parse_map_header (sect (dev st) (map_at L))") auto
    have le: "unat (min used memory_db_map_entry_capacity) \<le> 992"
      by (simp add: min_def word_le_nat_alt capacity_992)
    obtain q2 s2 where lp: "recover_loop hba s1 (w64 (map_at L)) (w64 (end_at L))
        (unat (min used memory_db_map_entry_capacity)) (w64 (data_at L)) 0 = (q2, s2)" by force
    have two: "only_dev s1 s2 \<and> sect (dev s2) = sect (dev s1) \<and>
      (q2 = Inl () \<or> (\<exists>log'. q2 = Inr (w64 (log_start L log'), w64 (length log')) \<and> db_entries (sect (dev s1)) L log'))"
    proof (rule recover_loop_any [where log = "[]", OF _ bound])
      show "port_ready port s1"
        using one(1) assms(1) keeps_ready by blast
    qed (use le lp in \<open>simp_all add: db_entries_def db_layout w64_simps\<close>)
    then show ?thesis
      using eq ph lp one keeps_trans [of st s1 s2] by (auto simp: Let_def split: if_splits)
  qed
qed

text \<open>Publishing a recovered log: map header first, then the header.\<close>

lemma db_entries_log:
  assumes "db_entries c L log" and "end_at L < 2 ^ 48" and "header_of_log L log h"
    and "c' = c(map_at L := map_header_bytes (w64 (length log)), L := header_bytes h)"
  shows "db_synced c' L log"
proof -
  have "db_entry c' L log k = db_entry c L log k" for k
    by (rule db_entry_cong) (use log_start_ge [of L "take k log"] in \<open>auto simp: assms(4) db_layout\<close>)
  moreover have "db_header c' L h"
    using assms(3,4) by (simp add: db_header_def header_of_log_def parse_header_bytes)
  moreover have "w64 (length log) \<le> memory_db_map_entry_capacity"
    using assms(1) unat_w64 [of "length log"] by (simp add: capacity_992 word_le_nat_alt db_entries_def)
  then have "db_map c' L (length log)"
    using assms(1,4) by (simp add: db_map_def parse_map_header_bytes db_entries_def map_at_def)
  ultimately show ?thesis
    using assms(1-3) by (auto simp: db_synced_def db_log_def db_entries_def header_of_log_def)
qed

lemma fresh_header_of_log:
  "end_at L < 2 ^ 48 \<Longrightarrow> header_of_log L [] (fresh_header (w64 L) cap ms ml)"
  by (simp add: header_of_log_def fresh_header_def header_current_def layout_words w64_simps)

lemma write_fresh_law:
  assumes "port_ready port st" and bound: "end_at L < 2 ^ 48"
    and wf: "write_fresh_db hba st (w64 L) cap ms ml = (r, st')"
  shows "db_registers L st st' \<and> (\<forall>i. i < L \<or> data_at L \<le> i \<longrightarrow> sect (dev st') i = sect (dev st) i) \<and>
    (r = Inr () \<longrightarrow> db_synced (sect (dev st')) L [] \<and> st' = memory_db_register_state (st\<lparr>dev := dev st'\<rparr>) (w64 L))"
proof -
  note u = unat_layout [OF bound]
  let ?h = "fresh_header (w64 L) cap ms ml"
  have h: "header_current ?h" "length (header_bytes ?h) = 512"
    using fresh_header_of_log [OF bound] by (auto simp: header_of_log_def header_current_def)
  obtain q1 s1 where w1: "zero_sectors_from hba st (w64 (map_at L)) (unat MEMORY_DB_MAP_SECTORS) = (q1, s1)" by force
  have law1: "only_dev st s1" "\<forall>i. i < L \<or> data_at L \<le> i \<longrightarrow> sect (dev s1) i = sect (dev st) i"
    using zero_sectors_law [OF assms(1) _ w1] bound by (auto simp: db_consts db_layout)
  have r1: "port_ready port s1"
    using law1(1) assms(1) keeps_ready by blast
  obtain q2 s2 where w2: "memory_db_write_map_header hba s1 (w64 (map_at L)) 0 = (q2, s2)" by force
  note law2 = write_map_header_law [OF r1 bound w2]
  have r2: "port_ready port s2" and st2: "only_dev st s2"
    using law1(1) law2 r1 keeps_ready keeps_trans by blast+
  obtain q3 s3 where w3: "write_sectors hba s2 (w64 L) 1 (header_bytes ?h) = (q3, s3)" by force
  have law3: "only_dev s2 s3" "q3 = Inr () \<Longrightarrow> sect (dev s3) = (sect (dev s2))(L := header_bytes ?h)"
    "sect (dev s3) \<in> {sect (dev s2), (sect (dev s2))(L := header_bytes ?h)}"
    using write_one [OF r2 _ h(2) w3] u by auto
  have r3: "port_ready port s3" and st3: "only_dev st s3"
    using law3(1) r2 st2 keeps_ready keeps_trans by blast+
  obtain q4 s4 where w4: "read_sectors hba s3 (w64 L) 1 = (q4, s4)" by force
  have law4: "only_dev s3 s4" "sect (dev s4) = sect (dev s3)"
    using read_one [OF r3 _ w4] u by auto
  have st4: "only_dev st s4"
    using st3 law4(1) keeps_trans by blast
  have fr: "\<forall>i. i < L \<or> data_at L \<le> i \<longrightarrow> sect (dev s2) i = sect (dev st) i"
    "\<forall>i. i < L \<or> data_at L \<le> i \<longrightarrow> sect (dev s3) i = sect (dev st) i"
    using law1(2) law2 law3(3) by (auto simp: db_layout)
  have syn: "db_synced (sect (dev s3)) L []" if "q2 = Inr ()" "q3 = Inr ()"
    using that law2 law3(2) fresh_header_of_log [OF bound]
    by (intro db_entries_log [OF _ bound fresh_header_of_log [OF bound]])
      (auto simp: db_entries_def db_layout w64_simps)
  note eq = wf [unfolded write_fresh_db_def Let_def layout_words(2) [OF bound] w1]
  consider "r = Inl ()" "st' = s1" | "r = Inl ()" "st' = s2" | "r = Inl ()" "st' = s3" | "r = Inl ()" "st' = s4"
    | "r = Inr ()" "st' = memory_db_register_state s4 (w64 L)" "q2 = Inr ()" "q3 = Inr ()"
    using eq w2 w3 w4 by (cases q1; cases q2; cases q3; cases q4) (auto split: if_splits)
  then show ?thesis
  proof cases
    case 5
    then show ?thesis
      using syn fr law4(2) st4 db_registers_register [OF st4, of L] by simp
  qed (use law1 fr law4 st2 st3 st4 db_registers_dev in \<open>auto simp: only_dev_def\<close>)
qed

lemma publish_recovered_law:
  assumes "port_ready port st" and bound: "end_at L < 2 ^ 48" and h: "header_of_log L log h"
    and log: "db_entries (sect (dev st)) L log"
    and pu: "try_q (memory_db_write_map_header hba st (w64 (map_at L)) (w64 (length log)))
      (\<lambda>_ st. memory_db_write_header hba (memory_db_register_state st (w64 L)) h) = (r, st')"
  defines "c1 \<equiv> (sect (dev st))(map_at L := map_header_bytes (w64 (length log)))"
  shows "db_registers L st st' \<and> sect (dev st') \<in> {sect (dev st), c1, c1(L := header_bytes h)} \<and>
    (r = Inr () \<longrightarrow> db_synced (sect (dev st')) L log \<and> memory_db_header_lba st' = Some (w64 L))"
proof -
  have hc: "header_current h" "header_lba h = w64 L"
    using h by (auto simp: header_of_log_def)
  obtain q1 s1 where w1: "memory_db_write_map_header hba st (w64 (map_at L)) (w64 (length log)) = (q1, s1)" by force
  note law1 = write_map_header_law [OF assms(1) bound w1, folded c1_def]
  let ?s = "memory_db_register_state s1 (w64 L)"
  note reg = db_registers_register [OF conjunct1 [OF law1], of L]
  show ?thesis
  proof (cases "q1 = Inl () \<or> memory_db_header_lba ?s \<noteq> Some (w64 L)")
    case True
    then have "r = Inl () \<and> st' \<in> {s1, ?s}"
      using pu w1 hc by (cases q1) (auto simp: memory_db_write_header_def memory_db_register_state_def split: option.splits)
    then show ?thesis
      using law1 reg db_registers_dev [of st s1 L] by auto
  next
    case False
    then have q1: "q1 = Inr ()" and w2: "memory_db_write_header hba ?s h = (r, st')"
      using pu w1 by (cases q1; simp)+
    have "port_ready port ?s"
      using reg(1) assms(1) db_registers_ready by blast
    note law2 = write_header_law [OF this bound hc _ w2]
    have st': "only_dev ?s st'" "memory_db_header_lba st' = Some (w64 L)"
      using law2 False only_devD(1) [of ?s st'] by auto
    have "sect (dev ?s) = c1"
      using law1 q1 reg(2) by simp
    moreover have "db_synced (c1(L := header_bytes h)) L log"
      by (rule db_entries_log [OF log bound h]) (simp add: c1_def)
    ultimately show ?thesis
      using law2 False st' db_registers_step [OF reg(1) st'(1)] by auto
  qed
qed

lemma read_map_header_any:
  assumes "port_ready port st" and "memory_db_read_map_header hba st lba = (q, st')"
  shows "only_dev st st'" "sect (dev st') = sect (dev st)"
proof -
  obtain q1 s1 where rd: "read_sectors hba st lba 1 = (q1, s1)" by force
  have "st' = s1"
    using assms(2) rd by (cases q1) (auto simp: memory_db_read_map_header_def)
  then show "only_dev st st'" "sect (dev st') = sect (dev st)"
    using read_any [OF assms(1) rd] by auto
qed

lemma read_map_header_log:
  assumes "port_ready port st" and db: "db_log (sect (dev st)) L log"
    and mh: "memory_db_read_map_header hba st (w64 (map_at L)) = (q, st')"
  shows "only_dev st st'" "sect (dev st') = sect (dev st)" "isl q \<Longrightarrow> \<not> reads_ok hba st"
proof -
  show "only_dev st st'" "sect (dev st') = sect (dev st)"
    by (rule read_map_header_any [OF assms(1) mh])+
  have bound: "end_at L < 2 ^ 48" and ph: "parse_map_header (sect (dev st) (map_at L)) = Inr (16, w64 (length log))"
    using db by (auto simp: db_log_def db_map_def)
  obtain q1 s1 where rd: "read_sectors hba st (w64 (map_at L)) 1 = (q1, s1)" by force
  have "q = Inr (16, w64 (length log))" if "q1 = Inr (sect (dev st) (map_at L))"
    using mh rd that by (simp add: memory_db_read_map_header_def ph)
  then show "\<not> reads_ok hba st" if "isl q"
    using read_one(3) [OF assms(1) _ rd] unat_layout [OF bound] that by auto
qed

lemma ensure_existing_law:
  assumes "port_ready port st" and bound: "end_at L < 2 ^ 48"
    and en: "ensure_existing hba st existing (w64 L) cap (w64 (L + 131072)) ms ml = (r, st')"
  shows "db_registers L st st' \<and> (\<forall>i. i < L \<or> data_at L \<le> i \<longrightarrow> sect (dev st') i = sect (dev st) i) \<and>
    (r = Inr () \<longrightarrow> (\<exists>log. db_synced (sect (dev st')) L log))"
proof -
  obtain q1 s1 where mh: "memory_db_read_map_header hba st (le_u64 existing 72) = (q1, s1)" by force
  note one = read_map_header_any [OF assms(1) mh]
  have r1: "port_ready port s1"
    using one(1) assms(1) keeps_ready by blast
  let ?h = "existing_header existing ms ml"
  let ?valid = "existing_header_valid existing (w64 L) (w64 (map_at L)) (w64 (data_at L)) (w64 (L + 131072))"
  obtain q2 h2 s2 where rec: "memory_db_recover_from_map hba s1 ?h = (q2, h2, s2)"
    by (metis prod_cases3)
  note eq = en [unfolded ensure_existing_def Let_def layout_words(2,3) [OF bound] mh prod.case rec]
  have fresh: ?thesis if "write_fresh_db hba s (w64 L) cap ms ml = (r, st')" "only_dev st s"
      "sect (dev s) = sect (dev st)" for s
    using write_fresh_law [OF keeps_ready [OF that(2) assms(1)] bound that(1)] that(2,3) db_registers_trans by metis
  show ?thesis
  proof (cases "?valid \<and> \<not> isl q1")
    case False
    then show ?thesis
      using fresh [of s1] eq one by auto
  next
    case True
    then have h: "data_lba ?h = w64 (data_at L)" "total_sectors ?h = MEMORY_DB_TOTAL_SECTORS"
      "map_lba ?h = w64 (map_at L)" "map_sectors ?h = MEMORY_DB_MAP_SECTORS" "header_lba ?h = w64 L"
      "header_current ?h"
      by (auto simp: existing_header_valid_def existing_header_def header_current_def)
    note law2 = recover_any [OF r1 bound h(1-4) rec]
    have s2: "only_dev st s2" "sect (dev s2) = sect (dev st)"
      using one law2 keeps_trans by (blast, metis)
    show ?thesis
    proof (cases "q2 = Inr ()")
      case False
      then show ?thesis
        using fresh [of s2] eq True s2 by (cases q2) auto
    next
      case rok: True
      then obtain log where log: "db_entries (sect (dev s2)) L log"
        "h2 = ?h\<lparr>next_append_lba := w64 (log_start L log), map_entries_used := w64 (length log)\<rparr>"
        using law2 one by auto
      have hl: "header_of_log L log h2" "map_lba h2 = w64 (map_at L)" "map_entries_used h2 = w64 (length log)"
        using h log(2) by (auto simp: header_of_log_def header_current_def)
      have "try_q (memory_db_write_map_header hba s2 (w64 (map_at L)) (w64 (length log)))
          (\<lambda>_ st. memory_db_write_header hba (memory_db_register_state st (w64 L)) h2) = (r, st')"
        using eq True rok hl by simp
      note pub = publish_recovered_law [OF keeps_ready [OF s2(1) assms(1)] bound hl(1) log(1) this]
      moreover have "\<forall>i. i < L \<or> data_at L \<le> i \<longrightarrow> sect (dev st') i = sect (dev st) i"
        using pub s2(2) by (auto simp: db_layout)
      ultimately show ?thesis
        using s2(1) db_registers_trans by blast
    qed
  qed
qed

lemma ensure_law:
  assumes "port_ready port st" and bound: "end_at L < 2 ^ 48"
    and en: "ensure_memory_db hba st (w64 L) ms ml = (r, st')"
  shows "db_registers L st st' \<and> (\<forall>i. i < L \<or> data_at L \<le> i \<longrightarrow> sect (dev st') i = sect (dev st) i) \<and>
    (r = Inr () \<longrightarrow> (\<exists>log. db_synced (sect (dev st')) L log))"
proof (cases "r = Inl () \<and> st' = st")
  case True
  then show ?thesis
    by (simp add: db_registers_dev keeps_refl)
next
  case ne: False
  note u = unat_layout [OF bound]
  obtain cap where cap: "ssd_sector_count st = Some cap"
    using en ne by (cases "ssd_sector_count st") (auto simp: ensure_memory_db_def)
  have e: "checked_add64 (w64 L) MEMORY_DB_TOTAL_SECTORS = Some (w64 (L + 131072))"
    using u bound by (simp add: checked_add64_def word_unat_eq_iff unat_add64 unat_w64 db_consts db_layout)
  have nle: "\<not> w64 (L + 131072) \<le> w64 (data_at L)"
    using u bound by (simp add: word_le_nat_alt unat_w64 db_layout)
  have fits: "\<not> cap < w64 (L + 131072)"
    using en ne cap e by (auto simp: ensure_memory_db_def)
  obtain q1 s1 where rd: "read_sectors hba st (w64 L) 1 = (q1, s1)" by force
  note one = read_any [OF assms(1) rd]
  have r1: "port_ready port s1"
    using one(1) assms(1) keeps_ready by blast
  note eq = en [unfolded ensure_memory_db_def cap option.case e if_not_P [OF fits] Let_def
      layout_words(2,3) [OF bound] if_not_P [OF nle] rd]
  show ?thesis
  proof (cases q1)
    case (Inl a)
    then have "write_fresh_db hba s1 (w64 L) cap ms ml = (r, st')"
      using eq by simp
    from write_fresh_law [OF r1 bound this] show ?thesis
      using one db_registers_trans by metis
  next
    case (Inr existing)
    then have "ensure_existing hba s1 existing (w64 L) cap (w64 (L + 131072)) ms ml = (r, st')"
      using eq by (simp add: ensure_existing_def Let_def layout_words(2,3) [OF bound])
    from ensure_existing_law [OF r1 bound this] show ?thesis
      using one db_registers_trans by metis
  qed
qed

text \<open>A readable header sector takes \<open>ensure_memory_db\<close> to \<open>ensure_existing\<close>.\<close>

lemma ensure_readable:
  assumes "port_ready port st" and bound: "end_at L < 2 ^ 48" and ok: "reads_ok hba st"
    and cap: "ssd_sector_count st = Some cap" "L + 131072 \<le> unat cap"
    and en: "ensure_memory_db hba st (w64 L) ms ml = (r, st')"
  obtains s1 where "only_dev st s1" "sect (dev s1) = sect (dev st)"
    "ensure_existing hba s1 (sect (dev st) L) (w64 L) cap (w64 (L + 131072)) ms ml = (r, st')"
proof -
  note u = unat_layout [OF bound]
  have e: "checked_add64 (w64 L) MEMORY_DB_TOTAL_SECTORS = Some (w64 (L + 131072))"
    using u bound by (simp add: checked_add64_def word_unat_eq_iff unat_add64 unat_w64 db_consts db_layout)
  have nle: "\<not> w64 (L + 131072) \<le> w64 (data_at L)" and fits: "\<not> cap < w64 (L + 131072)"
    using u bound cap(2) by (simp_all add: word_le_nat_alt word_less_nat_alt unat_w64 db_layout)
  obtain q1 s1 where rd: "read_sectors hba st (w64 L) 1 = (q1, s1)" by force
  have one: "only_dev st s1" "sect (dev s1) = sect (dev st)" "q1 = Inr (sect (dev st) L)"
    using read_one [OF assms(1) _ rd] u ok by auto
  show thesis
    using one en cap e fits nle rd that
    by (simp add: ensure_memory_db_def layout_words [OF bound] Let_def)
qed

lemma ensure_existing_keeps:
  assumes "port_ready port st" and bound: "end_at L < 2 ^ 48" and ok: "reads_ok hba st"
    and db: "db_log (sect (dev st)) L log" and cur: "db_cursor_ok (sect (dev st)) L"
    and reg: "memory_db_header_lba st \<in> {None, Some (w64 L)}"
    and en: "ensure_existing hba st (sect (dev st) L) (w64 L) cap (w64 (L + 131072)) ms ml = (r, st')"
  shows "db_log (sect (dev st')) L log \<and>
    (r = Inr () \<longrightarrow> db_synced (sect (dev st')) L log \<and> memory_db_header_lba st' = Some (w64 L))"
proof -
  let ?e = "sect (dev st) L"
  obtain h where h: "db_header (sect (dev st)) L h" "data_at L \<le> unat (next_append_lba h)"
    "unat (next_append_lba h) \<le> L + 131072" "unat (map_entries_used h) \<le> 992"
    using cur by (auto simp: db_cursor_ok_def)
  have lay: "le_u64 ?e 72 = w64 (map_at L)"
    and valid: "existing_header_valid ?e (w64 L) (w64 (map_at L)) (w64 (data_at L)) (w64 (L + 131072))"
    using header_valid [OF bound h] by auto
  obtain q1 s1 where mh: "memory_db_read_map_header hba st (w64 (map_at L)) = (q1, s1)" by force
  have one: "only_dev st s1" "sect (dev s1) = sect (dev st)" "\<not> isl q1"
    using read_map_header_log [OF assms(1) db mh] ok by auto
  have r1: "port_ready port s1" and db1: "db_log (sect (dev s1)) L log" and ok1: "reads_ok hba s1"
    using one assms(1) db ok keeps_ready reads_ok_keeps by (blast, simp, blast)
  let ?h = "existing_header ?e ms ml"
  have hf: "data_lba ?h = w64 (data_at L)" "total_sectors ?h = MEMORY_DB_TOTAL_SECTORS"
    "map_lba ?h = w64 (map_at L)" "map_sectors ?h = MEMORY_DB_MAP_SECTORS" "header_lba ?h = w64 L"
    "header_current ?h"
    using valid by (auto simp: existing_header_valid_def existing_header_def header_current_def)
  obtain q2 h2 s2 where rec: "memory_db_recover_from_map hba s1 ?h = (q2, h2, s2)"
    by (metis prod_cases3)
  note law2 = recover_log [OF r1 db1 hf(1-4) rec]
  have q2: "q2 = Inr ()" "header_of_log L log h2" "map_lba h2 = w64 (map_at L)"
      "map_entries_used h2 = w64 (length log)"
    using law2(3) ok1 hf by (auto simp: header_of_log_def header_current_def)
  have s2: "only_dev st s2" "sect (dev s2) = sect (dev st)"
    using one law2 keeps_trans by (blast, metis)
  have pu: "try_q (memory_db_write_map_header hba s2 (w64 (map_at L)) (w64 (length log)))
      (\<lambda>_ st. memory_db_write_header hba (memory_db_register_state st (w64 L)) h2) = (r, st')"
    using en mh one(3) valid lay rec q2
    by (simp add: ensure_existing_def layout_words [OF bound] Let_def)
  have ent: "db_entries (sect (dev s2)) L log"
    using db s2(2) by (simp add: db_log_def db_entries_def db_map_def)
  note pub = publish_recovered_law [OF keeps_ready [OF s2(1) assms(1)] bound q2(2) ent pu]
  have "db_log (sect (dev st')) L log"
    using pub db_republish [OF db q2(2)] db s2(2) by auto
  then show ?thesis
    using pub by simp
qed

lemma ensure_keeps:
  assumes "port_ready port st" and bound: "end_at L < 2 ^ 48" and ok: "reads_ok hba st"
    and cap: "ssd_sector_count st = Some cap" "L + 131072 \<le> unat cap"
    and reg: "memory_db_header_lba st \<in> {None, Some (w64 L)}"
    and db: "db_log (sect (dev st)) L log" and cur: "db_cursor_ok (sect (dev st)) L"
    and en: "ensure_memory_db hba st (w64 L) ms ml = (r, st')"
  shows "db_log (sect (dev st')) L log \<and>
    (r = Inr () \<longrightarrow> db_synced (sect (dev st')) L log \<and> memory_db_header_lba st' = Some (w64 L))"
proof -
  obtain s1 where s1: "only_dev st s1" "sect (dev s1) = sect (dev st)"
    "ensure_existing hba s1 (sect (dev st) L) (w64 L) cap (w64 (L + 131072)) ms ml = (r, st')"
    using ensure_readable [OF assms(1) bound ok cap en] by blast
  show ?thesis
    using ensure_existing_keeps [of s1 L log cap ms ml r st'] s1 assms(1) bound db cur reg
      keeps_ready [OF s1(1)] reads_ok_keeps [OF s1(1)] ok only_devD(1) [OF s1(1)] by simp
qed

text \<open>A database whose log has grown past the reserved range is not recognised any more.\<close>

lemma ensure_overfull:
  assumes "port_ready port st" and bound: "end_at L < 2 ^ 48" and ok: "reads_ok hba st"
    and cap: "ssd_sector_count st = Some cap" "L + 131072 \<le> unat cap"
    and db: "db_synced (sect (dev st)) L log" and over: "L + 131072 < log_start L log"
    and en: "ensure_memory_db hba st (w64 L) ms ml = (Inr (), st')"
  shows "db_synced (sect (dev st')) L []"
proof -
  obtain s1 where s1: "only_dev st s1" "sect (dev s1) = sect (dev st)"
    "ensure_existing hba s1 (sect (dev st) L) (w64 L) cap (w64 (L + 131072)) ms ml = (Inr (), st')"
    using ensure_readable [OF assms(1) bound ok cap en] by blast
  obtain h where h: "db_header (sect (dev st)) L h" "next_append_lba h = w64 (log_start L log)"
    and le: "log_start L log \<le> end_at L"
    using db by (auto simp: db_synced_def db_log_def)
  have "le_u64 (sect (dev st) L) 40 = w64 (log_start L log)"
    using h by (auto simp: db_header_def parse_header_def split: if_splits)
  moreover have "\<not> w64 (log_start L log) \<le> w64 (L + 131072)"
    using over le bound by (simp add: word_le_nat_alt unat_w64)
  ultimately have inv: "\<not> existing_header_valid (sect (dev st) L) (w64 L) (w64 (map_at L))
      (w64 (data_at L)) (w64 (L + 131072))"
    by (simp add: existing_header_valid_def)
  obtain q2 s2 where mh: "memory_db_read_map_header hba s1 (le_u64 (sect (dev st) L) 72) = (q2, s2)" by force
  have "port_ready port s1"
    using s1(1) assms(1) keeps_ready by blast
  then have "port_ready port s2"
    using read_map_header_any [OF _ mh] keeps_ready by blast
  moreover have "write_fresh_db hba s2 (w64 L) cap ms ml = (Inr (), st')"
    using s1(3) mh inv by (simp add: ensure_existing_def layout_words [OF bound] Let_def)
  ultimately show ?thesis
    using write_fresh_law [OF _ bound] by blast
qed

end

end
