(* ===== verification/MemoryDbLive.thy ===== *)
theory MemoryDbLive
  imports MemoryDbAppend MemoryDbRead MemoryDbInit
begin

text \<open>
  When the disk carries out every command it is given, an append with room left succeeds, and so
  does the initialisation of a database on an arbitrary disk.
\<close>

text \<open>The call whose result and state are \<open>m\<close> returned \<open>Ok\<close>.\<close>

definition returns_ok :: "('e + 'a) \<times> 's \<Rightarrow> bool" where
  "returns_ok m \<longleftrightarrow> \<not> isl (fst m)"

lemma returns_ok_simps [simp]: "returns_ok (Inr x, s)" "\<not> returns_ok (Inl e, s)"
  by (simp_all add: returns_ok_def)

lemma returns_okD: "returns_ok m \<Longrightarrow> m = (q, s) \<Longrightarrow> \<exists>x. q = Inr x"
  by (cases q) auto

text \<open>No command fails from a state with the given statics.\<close>

definition io_ok :: "'d hba \<Rightarrow> 'd ahci \<Rightarrow> bool" where
  "io_ok hba st \<longleftrightarrow> reads_ok hba st \<and>
    (\<forall>d lba n b. returns_ok (write_sectors hba (st\<lparr>dev := d\<rparr>) lba n b))"

lemma io_ok_keeps: "only_dev st st' \<Longrightarrow> io_ok hba st' = io_ok hba st"
  using reads_ok_keeps [of st st' hba] unfolding only_dev_def io_ok_def returns_ok_def
  by (metis ahci.surjective ahci.update_convs(8))

lemma io_ok_dev: "only_dev st st' \<Longrightarrow> io_ok hba st \<Longrightarrow> io_ok hba st'"
  by (simp add: io_ok_keeps)

lemma io_ok_reads: "io_ok hba st \<Longrightarrow> reads_ok hba st"
  by (simp add: io_ok_def)

lemma io_ok_write: "io_ok hba st \<Longrightarrow> returns_ok (write_sectors hba st lba n b)"
  unfolding io_ok_def by (metis ahci.surjective ahci.update_convs(8))

lemma io_ok_read: "io_ok hba st \<Longrightarrow> returns_ok (read_sectors hba st lba n)"
  unfolding io_ok_def reads_ok_def returns_ok_def by (metis ahci.surjective ahci.update_convs(8))

lemma register_fields:
  "dev (memory_db_register_state st L) = dev st"
  "first_sata_port (memory_db_register_state st L) = first_sata_port st"
  "first_sata_port_cl (memory_db_register_state st L) = first_sata_port_cl st"
  by (simp_all add: memory_db_register_state_def)

lemma transfer_ok_statics:
  assumes "first_sata_port_cl st' = first_sata_port_cl st" and "dev st' = dev st"
  shows "returns_ok (transfer_sectors hba p st' lba n b w) = returns_ok (transfer_sectors hba p st lba n b w)"
  using assms by (simp add: transfer_sectors_def Let_def split: option.splits prod.splits wait_result.splits)

text \<open>Only the two port statics matter to the outcome of a transfer.\<close>

lemma reads_ok_statics:
  assumes "first_sata_port st' = first_sata_port st" and "first_sata_port_cl st' = first_sata_port_cl st"
  shows "reads_ok hba st' = reads_ok hba st"
proof -
  have "returns_ok (read_sectors hba (st'\<lparr>dev := d\<rparr>) lba n) = returns_ok (read_sectors hba (st\<lparr>dev := d\<rparr>) lba n)"
    for d lba n
    using transfer_ok_statics [of "st'\<lparr>dev := d\<rparr>" "st\<lparr>dev := d\<rparr>"] assms
    by (simp add: read_sectors_def split: option.split)
  then show ?thesis
    by (simp add: reads_ok_def returns_ok_def)
qed

lemma io_ok_statics:
  assumes "first_sata_port st' = first_sata_port st" and "first_sata_port_cl st' = first_sata_port_cl st"
  shows "io_ok hba st' = io_ok hba st"
proof -
  have "returns_ok (write_sectors hba (st'\<lparr>dev := d\<rparr>) lba n b)
      = returns_ok (write_sectors hba (st\<lparr>dev := d\<rparr>) lba n b)" for d lba n b
    using transfer_ok_statics [of "st'\<lparr>dev := d\<rparr>" "st\<lparr>dev := d\<rparr>" hba _ lba n b True] assms
    by (auto simp: write_sectors_def returns_ok_def split: option.split prod.splits sum.splits)
      (metis fst_conv sum.disc)+
  then show ?thesis
    using reads_ok_statics [OF assms] by (simp add: io_ok_def)
qed

lemma io_ok_register [simp]: "io_ok hba (memory_db_register_state st L) = io_ok hba st"
  by (rule io_ok_statics) (simp_all add: register_fields)

lemma try_q_ok:
  assumes "returns_ok m" and "\<And>x s. m = (Inr x, s) \<Longrightarrow> returns_ok (f x s)"
  shows "returns_ok (try_q m f)"
  using assms by (cases m; cases "fst m") auto

lemma write_header_live:
  "io_ok hba st \<Longrightarrow> memory_db_header_lba st = Some L \<Longrightarrow> header_lba h = L \<Longrightarrow>
    returns_ok (memory_db_write_header hba st h)"
  by (simp add: memory_db_write_header_def io_ok_write)

lemma write_map_header_live: "io_ok hba st \<Longrightarrow> returns_ok (memory_db_write_map_header hba st lba u)"
  by (simp add: memory_db_write_map_header_def io_ok_write)

context ata_disk
begin

lemma append_chunk_live:
  assumes "port_ready port st" and io: "io_ok hba st" and "l < e" and e: "e < 2 ^ 48" and "data \<noteq> []"
  shows "returns_ok (append_chunk hba st (w64 e) (w64 l) data)"
proof -
  obtain q st' where ch: "append_chunk hba st (w64 e) (w64 l) data = (q, st')" by force
  define n where "n = append_chunk_len (w64 e) (w64 l) data"
  have n: "0 < n" "n div 512 \<le> 8192" "n \<le> length data" "l + secs n \<le> e"
    using chunk_arith [OF n_def [unfolded append_chunk_len_w64 [OF assms(3) e]] assms(3)] assms(5) by auto
  note split = append_chunk_split [OF ch assms(3) e n_def n(1,2)]
  let ?f = "n div 512"
  let ?m = "if 0 < ?f
      then try_q (write_sectors hba st (w64 l) (word_of_nat ?f) (take (?f * 512) data))
        (\<lambda>_ st. (Inr (w64 l + ucast (word_of_nat ?f :: u16)), st))
      else (Inr (w64 l), st)"
  have m: "returns_ok ?m"
    using io_ok_write [OF io] by (auto intro!: try_q_ok)
  have dev: "only_dev st s" if "?m = (Inr x, s)" for x s
  proof (cases "0 < ?f")
    case True
    have "l + ?f < 2 ^ 48" "?f * 512 \<le> length data" "?f \<le> MODEL_IO_SECTORS"
      using n e div_mult_mod_eq [of n 512] secs_bounds(1) [of n] by (simp_all add: MODEL_IO_SECTORS_def)
    then show ?thesis
      using write_full_sectors [OF assms(1) True, of l data "Inr x" s] that True by auto
  qed (use that in \<open>simp add: keeps_refl\<close>)
  have "returns_ok (q, st')"
    unfolding split [symmetric]
  proof (rule try_q_ok [OF m], goal_cases)
    case (1 x s)
    then show ?case
      using io_ok_write [OF io_ok_dev [OF dev [OF 1] io]] by (auto intro!: try_q_ok)
  qed
  then show ?thesis
    by (simp add: ch)
qed

lemma append_loop_live:
  assumes "port_ready port st" and "io_ok hba st" and "l + secs (length data) \<le> e" and "e < 2 ^ 48"
  shows "returns_ok (append_loop hba st (w64 e) (w64 l) written data)"
  using assms
proof (induction "length data" arbitrary: st l written data rule: less_induct)
  case less
  show ?case
  proof (cases "data = []")
    case True
    then show ?thesis
      by (simp add: append_loop.simps [of hba st "w64 e" "w64 l" written])
  next
    case False
    then have le: "l < e"
      using less.prems(3) secs_pos [of "length data"] by simp
    have step: "returns_ok (case x of (write_lba, n) \<Rightarrow>
        append_loop hba s (w64 e) write_lba (written + n) (drop n data))"
      if ch: "append_chunk hba st (w64 e) (w64 l) data = (Inr x, s)" for x s
    proof -
      obtain n where n: "x = (w64 (l + secs n), n)" "0 < n" "n \<le> length data"
        "n = length data \<or> n mod 512 = 0" "only_dev st s"
        using append_chunk_law [OF less.prems(1) le less.prems(4) False ch] by auto
      have "l + secs n + secs (length (drop n data)) \<le> e"
        using chunk_join(1) [OF n(3,4)] less.prems(3) by simp
      then have "returns_ok (append_loop hba s (w64 e) (w64 (l + secs n)) (written + n) (drop n data))"
        using n(2,3) False less.prems keeps_ready [OF n(5)] io_ok_keeps [OF n(5)]
        by (intro less.hyps) auto
      then show ?thesis
        using n(1) by simp
    qed
    show ?thesis
      unfolding append_loop.simps [of hba st "w64 e" "w64 l" written data] if_not_P [OF False]
      by (rule try_q_ok [OF append_chunk_live [OF less.prems(1,2) le less.prems(4) False]]) (use step in auto)
  qed
qed

lemma write_map_entry_live:
  assumes "port_ready port st" and io: "io_ok hba st" and "end_at L < 2 ^ 48" and "n < 992"
  shows "returns_ok (memory_db_write_map_entry hba st (w64 (map_at L)) (w64 n) start payload fl)"
proof -
  have "only_dev st s" if "read_sectors hba st lba 1 = (Inr x, s)" for lba x s
    using read_any [OF assms(1) that] by blast
  then show ?thesis
    using io_ok_read [OF io] io
    by (auto simp: memory_db_write_map_entry_def map_entry_location [OF assms(4)] Let_def
        intro!: try_q_ok io_ok_write io_ok_dev [of st])
qed

lemma append_commit_live:
  assumes st: "port_ready port st" "memory_db_header_lba st = Some (w64 L)" and io: "io_ok hba st"
    and rdy: "append_ready (sect (dev st)) L log data h" and "length data < 2 ^ 32"
  shows "returns_ok (append_commit hba st h data lba written)"
proof -
  have n: "length log < 992" and bound: "end_at L < 2 ^ 48" and h: "map_lba h = w64 (map_at L)"
    "map_entries_used h = w64 (length log)" "header_lba h = w64 L" "header_current h"
    using rdy by (auto simp: append_ready_def db_log_def)
  have u: "u32_try_from (length data) = Inr (word_of_nat (length data))"
    using assms(5) by (simp add: u32_try_from_def)
  have hdr: "returns_ok (memory_db_write_header hba s h')"
    if "only_dev st s" "header_lba h' = w64 L" for s h'
    using that st(2) only_devD(1) [OF that(1)] io_ok_dev [OF that(1) io] by (simp add: write_header_live)
  have s2: "only_dev st s2" if "only_dev st s1"
      "memory_db_write_map_header hba s1 (w64 (map_at L)) u = (q, s2)" for s1 s2 u q
    using write_map_header_law [OF keeps_ready [OF that(1) st(1)] bound that(2)] keeps_trans that(1) by blast
  have s1: "only_dev st s1" if "memory_db_write_map_entry hba st (w64 (map_at L)) (w64 (length log)) a b c = (q, s1)"
    for a b c q s1
    using write_map_entry_law [OF st(1) bound n that] by blast
  have mh: "returns_ok (memory_db_write_map_header hba s (w64 (map_at L)) u)" if "only_dev st s" for s u
    by (rule write_map_header_live [OF io_ok_dev [OF that io]])
  show ?thesis
    unfolding append_commit_def u sum.case h(1,2) Let_def
    by (rule try_q_ok [OF write_map_entry_live [OF st(1) io bound n]], rule try_q_ok)
      (auto intro!: try_q_ok mh hdr dest: s1 s2 simp: h(1,3))
qed

lemma append_write_live:
  assumes st: "port_ready port st" "memory_db_header_lba st = Some (w64 L)" and io: "io_ok hba st"
    and db: "db_log (sect (dev st)) L log" and h: "header_of_log L log h" and data: "data \<noteq> []"
    and room: "length log < 992" "log_start L (log @ [data]) \<le> end_at L" "length data < 2 ^ 32"
    and cap: "ssd_sector_count st = Some cap" "log_start L (log @ [data]) \<le> unat cap"
  shows "returns_ok (append_write hba st h data)"
proof -
  let ?s = "log_start L log" and ?t = "log_start L (log @ [data])"
  have bound: "end_at L < 2 ^ 48" and ls: "data_at L \<le> ?s"
    using db log_start_ge by (auto simp: db_log_def)
  have f: "data_lba h = w64 (data_at L)" "total_sectors h = MEMORY_DB_TOTAL_SECTORS"
    "next_append_lba h = w64 ?s" "map_entries_used h = w64 (length log)"
    using h by (auto simp: header_of_log_def)
  define e where "e = min (end_at L) (min (unat cap + 1) (2 ^ 64 - 1))"
  have e: "e < 2 ^ 48" "?t \<le> e" "e \<le> end_at L"
    using bound cap(2) room(2) by (auto simp: e_def)
  have we: "min (w64 (end_at L)) (sat_add64 cap 1) = w64 e"
    using bound e unat_layout(4) [OF bound]
    by (simp add: word_unat_eq_iff unat_w64 min_def word_le_nat_alt unat_sat_add64 e_def)
  have "?s < ?t"
    using data secs_pos [of "length data"] by simp
  then have se: "?s < e" using e by simp
  have us: "unat (w64 ?s) = ?s" "unat (w64 (length log)) = length log" "unat (w64 e) = e"
    using se e room(1) by (simp_all add: unat_w64)
  have eq: "append_write hba st h data = try_q (append_loop hba st (w64 e) (w64 ?s) 0 data)
      (\<lambda>(write_lba, written) st. append_commit hba st h data write_lba written)"
    using us se ls room(1) unat_layout(3) [OF bound]
    by (simp add: append_write_def f cap Let_def layout_words(1) [OF bound] we capacity_992 word_le_nat_alt
        word_less_nat_alt)
  have "returns_ok (case x of (write_lba, written) \<Rightarrow> append_commit hba s1 h data write_lba written)"
    if lp: "append_loop hba st (w64 e) (w64 ?s) 0 data = (Inr x, s1)" for x s1
  proof -
    note law = append_loop_law [OF st(1) less_imp_le [OF se] e(1) lp]
    have s1: "port_ready port s1" "memory_db_header_lba s1 = Some (w64 L)" "io_ok hba s1"
      using law st keeps_ready only_devD(1) io_ok_keeps io by (blast, metis, metis)
    have "db_log (sect (dev s1)) L log"
      using db_log_beyond [OF db, of "sect (dev s1)"] law by blast
    then have "append_ready (sect (dev s1)) L log data h"
      using law room data h by (auto simp: append_ready_def header_of_log_def)
    from append_commit_live [OF s1 this room(3)] show ?thesis
      by (auto split: prod.split)
  qed
  moreover have "returns_ok (append_loop hba st (w64 e) (w64 ?s) 0 data)"
    using e by (intro append_loop_live st io) auto
  ultimately show ?thesis
    unfolding eq by (intro try_q_ok) auto
qed

lemma append_live:
  assumes st: "port_ready port st" "memory_db_header_lba st = Some (w64 L)" and io: "io_ok hba st"
    and db: "db_log (sect (dev st)) L log" and data: "data \<noteq> []"
    and room: "length log < 992" "log_start L (log @ [data]) \<le> end_at L" "length data < 2 ^ 32"
    and cap: "ssd_sector_count st = Some cap" "log_start L (log @ [data]) \<le> unat cap"
  shows "returns_ok (append_memory_db hba st (Some data))"
proof -
  have bound: "end_at L < 2 ^ 48" and ok: "reads_ok hba st"
    using db io by (auto simp: db_log_def io_ok_def)
  obtain q1 s1 where rd: "memory_db_read_header hba st (w64 L) = (q1, s1)" by force
  note one = read_header_log [OF st(1) db rd]
  then obtain h where q1: "q1 = Inr h" and h: "db_header (sect (dev s1)) L h"
    using ok by auto
  have hm: "map_lba h = w64 (map_at L)" "map_sectors h = MEMORY_DB_MAP_SECTORS"
    using h by (auto simp: db_header_def)
  obtain q2 h2 s2 where rec: "memory_db_recover_from_map hba s1 h = (q2, h2, s2)"
    by (metis prod_cases3)
  have r1: "port_ready port s1" "db_log (sect (dev s1)) L log" "reads_ok hba s1"
    using one st db ok keeps_ready reads_ok_keeps [OF one(1)] by (blast, auto)
  note two = recover_header_log [OF r1(1,2) disjI2 [OF r1(3)] h rec]
  have s2: "only_dev st s2"
    using two one keeps_trans by blast
  have "port_ready port s2" "io_ok hba s2" "db_log (sect (dev s2)) L log"
    "memory_db_header_lba s2 = Some (w64 L)" "ssd_sector_count s2 = Some cap"
    using keeps_ready [OF s2] io_ok_keeps [OF s2] only_devD [OF s2] st io two r1 cap by auto
  then have "returns_ok (append_write hba s2 h2 data)"
    using two(3) data room cap by (intro append_write_live [of s2 L log]) auto
  then show ?thesis
    using data rd q1 hm rec
    by (simp add: append_memory_db_def st(2) layout_words(2) [OF bound])
qed

lemma zero_sectors_live:
  assumes "port_ready port st" and "io_ok hba st" and "a + n < 2 ^ 48"
  shows "returns_ok (zero_sectors_from hba st (w64 a) n)"
  using assms
proof (induction n arbitrary: st a)
  case (Suc n)
  have "returns_ok (zero_sectors_from hba s (w64 a + 1) n)"
    if w: "write_sectors hba st (w64 a) 1 zero_sector = (Inr x, s)" for x s
  proof -
    have dev: "only_dev st s"
      using write_one(1) [OF Suc.prems(1) _ _ w] Suc.prems(3) by (simp add: unat_w64)
    show ?thesis
      using Suc.IH [of s "Suc a"] Suc.prems keeps_ready [OF dev] io_ok_dev [OF dev] by (simp add: w64_simps(3))
  qed
  then show ?case
    using io_ok_write [OF Suc.prems(2)] by (simp add: try_q_ok)
qed simp

lemma write_fresh_live:
  assumes "port_ready port st" and io: "io_ok hba st" and bound: "end_at L < 2 ^ 48"
  shows "returns_ok (write_fresh_db hba st (w64 L) cap ms ml)"
proof -
  note u = unat_layout [OF bound]
  let ?h = "header_bytes (fresh_header (w64 L) cap ms ml)"
  have len: "length ?h = 512" and mg: "subslice ?h 0 8 = MEMORY_DB_MAGIC"
    using header_bytes_fields [of "fresh_header (w64 L) cap ms ml"] by (simp_all add: fresh_header_def)
  have last: "returns_ok (try_q (read_sectors hba s3 (w64 L) 1) (\<lambda>verify st.
          if subslice verify 0 8 \<noteq> MEMORY_DB_MAGIC then (Inl (), st)
          else (Inr (), memory_db_register_state st (w64 L))))"
    if s2: "port_ready port s2" "io_ok hba s2" and w: "write_sectors hba s2 (w64 L) 1 ?h = (Inr y, s3)"
    for s2 s3 y
  proof -
    note one = write_one [OF s2(1) _ len w]
    have s3: "port_ready port s3" "io_ok hba s3" "sect (dev s3) L = ?h"
      using one u s2 keeps_ready io_ok_dev by auto
    have "x = ?h" if "read_sectors hba s3 (w64 L) 1 = (Inr x, s4)" for x s4
      using read_one(3) [OF s3(1) _ that] u s3(3) by simp
    then show ?thesis
      using io_ok_read [OF s3(2)] mg by (intro try_q_ok) auto
  qed
  have hdr: "returns_ok (try_q (write_sectors hba s2 (w64 L) 1 ?h) (\<lambda>_ st. try_q (read_sectors hba st (w64 L) 1)
        (\<lambda>verify st. if subslice verify 0 8 \<noteq> MEMORY_DB_MAGIC then (Inl (), st)
          else (Inr (), memory_db_register_state st (w64 L)))))"
    if "port_ready port s2" "io_ok hba s2" for s2
    by (rule try_q_ok [OF io_ok_write [OF that(2)]]) (rule last [OF that])
  have keep: "port_ready port s2 \<and> io_ok hba s2" if "only_dev s1 s2" "port_ready port s1" "io_ok hba s1" for s1 s2
    using that keeps_ready io_ok_dev by blast
  have mh: "port_ready port s2 \<and> io_ok hba s2"
    if "memory_db_write_map_header hba s1 (w64 (map_at L)) 0 = (q, s2)" "port_ready port s1" "io_ok hba s1"
    for s1 s2 q
    using write_map_header_law [OF that(2) bound that(1)] keep that(2,3) by blast
  have zs: "port_ready port s1 \<and> io_ok hba s1"
    if "zero_sectors_from hba st (w64 (map_at L)) (unat MEMORY_DB_MAP_SECTORS) = (q, s1)" for q s1
    using zero_sectors_law [OF assms(1) _ that] keep assms(1) io bound by (auto simp: db_layout db_consts)
  show ?thesis
    unfolding write_fresh_db_def Let_def layout_words(2) [OF bound]
  proof (rule try_q_ok, goal_cases)
    case 1
    then show ?case
      using bound by (intro zero_sectors_live assms(1) io) (auto simp: db_layout db_consts)
  next
    case (2 x s)
    note s = zs [OF 2]
    show ?case
    proof (rule try_q_ok)
      show "returns_ok (memory_db_write_map_header hba s (w64 (map_at L)) 0)"
        using s by (simp add: memory_db_write_map_header_def io_ok_write)
    qed (use mh hdr s in blast)
  qed
qed

lemma publish_live:
  assumes "port_ready port st" and io: "io_ok hba st" and bound: "end_at L < 2 ^ 48"
    and "memory_db_header_lba st \<in> {None, Some (w64 L)}" and "header_lba h = w64 L"
  shows "returns_ok (try_q (memory_db_write_map_header hba st (w64 (map_at L)) u)
    (\<lambda>_ st. memory_db_write_header hba (memory_db_register_state st (w64 L)) h))"
proof (rule try_q_ok)
  show "returns_ok (memory_db_write_map_header hba st (w64 (map_at L)) u)"
    using io by (simp add: memory_db_write_map_header_def io_ok_write)
  fix x s
  assume "memory_db_write_map_header hba st (w64 (map_at L)) u = (Inr x, s)"
  then have s: "only_dev st s"
    using write_map_header_law [OF assms(1) bound] by blast
  then have "memory_db_header_lba (memory_db_register_state s (w64 L)) = Some (w64 L)"
    using assms(4) only_devD(1) [OF s] by (auto simp: memory_db_register_state_def once_set_def)
  then show "returns_ok (memory_db_write_header hba (memory_db_register_state s (w64 L)) h)"
    using assms(5) io_ok_dev [OF s io] by (simp add: write_header_live)
qed

lemma ensure_live:
  assumes "port_ready port st" and io: "io_ok hba st" and bound: "end_at L < 2 ^ 48"
    and cap: "ssd_sector_count st = Some cap" "L + 131072 \<le> unat cap"
    and reg: "memory_db_header_lba st \<in> {None, Some (w64 L)}"
  shows "returns_ok (ensure_memory_db hba st (w64 L) ms ml)"
proof -
  obtain r st' where en: "ensure_memory_db hba st (w64 L) ms ml = (r, st')" by force
  let ?e = "sect (dev st) L"
  obtain s1 where s1: "only_dev st s1"
    "ensure_existing hba s1 ?e (w64 L) cap (w64 (L + 131072)) ms ml = (r, st')"
    using ensure_readable [OF assms(1) bound io_ok_reads [OF io] cap en] by blast
  obtain q2 s2 where mh: "memory_db_read_map_header hba s1 (le_u64 ?e 72) = (q2, s2)" by force
  have s2: "only_dev st s2"
    using read_map_header_any(1) [OF keeps_ready [OF s1(1) assms(1)] mh] s1(1) keeps_trans by blast
  have fresh: "returns_ok (write_fresh_db hba s (w64 L) cap ms ml)" if "only_dev st s" for s
    using write_fresh_live [OF keeps_ready [OF that assms(1)] io_ok_dev [OF that io] bound] .
  let ?valid = "existing_header_valid ?e (w64 L) (w64 (map_at L)) (w64 (data_at L)) (w64 (L + 131072))"
  have "returns_ok (r, st')"
  proof (cases "?valid \<and> \<not> isl q2")
    case False
    then have "write_fresh_db hba s2 (w64 L) cap ms ml = (r, st')"
      using s1(2) mh unfolding ensure_existing_def layout_words [OF bound] Let_def by auto
    then show ?thesis
      using fresh [OF s2] by simp
  next
    case True
    let ?h = "existing_header ?e ms ml"
    have hf: "data_lba ?h = w64 (data_at L)" "total_sectors ?h = MEMORY_DB_TOTAL_SECTORS"
      "map_lba ?h = w64 (map_at L)" "map_sectors ?h = MEMORY_DB_MAP_SECTORS" "header_lba ?h = w64 L"
      using True by (auto simp: existing_header_valid_def existing_header_def)
    obtain q3 h3 s3 where rec: "memory_db_recover_from_map hba s2 ?h = (q3, h3, s3)"
      by (metis prod_cases3)
    note eq = s1(2) [unfolded ensure_existing_def layout_words [OF bound] Let_def mh prod.case if_P [OF True] rec]
    note law = recover_any [OF keeps_ready [OF s2 assms(1)] bound hf(1-4) rec]
    have s3: "only_dev st s3"
      using law(1) s2 keeps_trans by blast
    have h3: "map_lba h3 = w64 (map_at L)" "header_lba h3 = w64 L" if "q3 = Inr ()"
      using law that hf by auto
    show ?thesis
    proof (cases q3)
      case (Inl e)
      then show ?thesis
        using eq fresh [OF s3] by simp
    next
      case (Inr u)
      then show ?thesis
        using eq h3 reg only_devD(1) [OF s3]
          publish_live [OF keeps_ready [OF s3 assms(1)] io_ok_dev [OF s3 io] bound _ h3(2), of "map_entries_used h3"]
        by simp
    qed
  qed
  then show ?thesis
    by (simp add: en)
qed

lemma erase_loop_live:
  assumes "port_ready port st" and "io_ok hba st" and "b < 2 ^ 48" and "a \<le> b"
  shows "returns_ok (erase_loop hba st (w64 a) (w64 b))"
  using assms
proof (induction "b - a" arbitrary: st a rule: less_induct)
  case less
  show ?case
  proof (cases "a < b")
    case False
    then have "\<not> w64 a < w64 b"
      using less.prems by (simp add: word_less_nat_alt unat_w64)
    then show ?thesis
      by (simp add: erase_loop.simps [of hba st])
  next
    case True
    then obtain n z where n: "0 < n" "a + n \<le> b"
      and pre: "0 < unat (word_of_nat n :: u16)" "unat (word_of_nat n :: u16) \<le> MODEL_IO_SECTORS"
        "unat (w64 a) < 2 ^ 48" and lz: "length z = unat (word_of_nat n :: u16) * 512"
      and step: "\<And>st. erase_loop hba st (w64 a) (w64 b) = try_q (write_sectors hba st (w64 a) (word_of_nat n) z)
        (\<lambda>_ st. erase_loop hba st (w64 (a + n)) (w64 b))"
      by (rule erase_step [OF _ less.prems(3), of a hba]) blast
    have "returns_ok (erase_loop hba s (w64 (a + n)) (w64 b))"
      if "write_sectors hba st (w64 a) (word_of_nat n) z = (Inr x, s)" for x s
    proof -
      have dev: "only_dev st s"
        using wr_law [OF less.prems(1) pre lz that] by blast
      show ?thesis
        using less.prems n True keeps_ready [OF dev] io_ok_dev [OF dev] by (intro less.hyps) auto
    qed
    then show ?thesis
      unfolding step by (intro try_q_ok io_ok_write less.prems(2))
  qed
qed

lemma erase_live:
  assumes st: "port_ready port st" "memory_db_header_lba st = Some (w64 L)" and io: "io_ok hba st"
    and db: "db_log (sect (dev st)) L log" and cap: "ssd_sector_count st = Some cap" "L + 131072 \<le> unat cap"
  shows "returns_ok (erase_memory_db hba st)"
proof -
  have bound: "end_at L < 2 ^ 48"
    using db by (simp add: db_log_def)
  note u = unat_layout [OF bound]
  obtain q1 s1 where hd: "memory_db_read_header hba st (w64 L) = (q1, s1)" by force
  note one = read_header_log [OF st(1) db hd]
  obtain h where q1: "q1 = Inr h" and h: "db_header (sect (dev st)) L h"
    using one(3) io_ok_reads [OF io] by auto
  have f: "header_lba h = w64 L" "map_lba h = w64 (map_at L)" "map_sectors h = MEMORY_DB_MAP_SECTORS"
    "total_sectors h = MEMORY_DB_TOTAL_SECTORS"
    using h by (auto simp: db_header_def)
  have e: "checked_add64 (w64 L) MEMORY_DB_TOTAL_SECTORS = Some (w64 (L + 131072))"
    using u bound by (simp add: checked_add64_def word_unat_eq_iff unat_add64 unat_w64 db_consts db_layout)
  have fits: "\<not> cap < w64 (L + 131072)"
    using u bound cap(2) by (simp add: word_less_nat_alt unat_w64 db_layout)
  have tail: "returns_ok (try_q (memory_db_write_map_header hba s2 (w64 (map_at L)) 0) (\<lambda>_ st.
      memory_db_write_header hba st h'))"
    if "erase_loop hba s1 (w64 L) (w64 (L + 131072)) = (Inr x, s2)" "header_lba h' = w64 L" for x s2 h'
  proof -
    have "only_dev s1 s2"
      using erase_loop_law [OF keeps_ready [OF one(1) st(1)] _ that(1)] bound by (simp add: db_layout)
    then have s2: "only_dev st s2"
      using one(1) keeps_trans by blast
    have dev: "only_dev st s3" if "memory_db_write_map_header hba s2 (w64 (map_at L)) 0 = (Inr y, s3)" for y s3
      using write_map_header_law [OF keeps_ready [OF s2 st(1)] bound that] s2 keeps_trans by blast
    show ?thesis
      by (rule try_q_ok [OF write_map_header_live [OF io_ok_dev [OF s2 io]]])
        (simp add: write_header_live io_ok_dev [OF dev io] only_devD(1) [OF dev] st(2) that(2))
  qed
  have "returns_ok (erase_loop hba s1 (w64 L) (w64 (L + 131072)))"
    using erase_loop_live [OF keeps_ready [OF one(1) st(1)] io_ok_dev [OF one(1) io]] bound
    by (simp add: db_layout)
  then show ?thesis
    using st(2) hd q1 f e fits cap(1) only_devD(2) [OF one(1)] layout_words(2) [OF bound] tail
    by (simp add: erase_memory_db_def try_q_ok)
qed

end

end
