(* ===== verification/MemoryDbDurable.thy ===== *)
theory MemoryDbDurable
  imports MemoryDbLive
begin

text \<open>
  What a client of the memory database may rely on, as a locale: a durable append-only log with
  recovery after a restart.  The locale holds for the driver's operations on every disk that keeps
  the hardware contract, and the end-to-end properties of the database follow from it.
\<close>

section \<open>A sequence of appends\<close>

text \<open>Appends made one after the other until one is refused, with the number accepted.\<close>

fun append_all :: "('s \<Rightarrow> bytes option \<Rightarrow> ('e + nat) \<times> 's) \<Rightarrow> 's \<Rightarrow> bytes list \<Rightarrow> nat \<times> 's" where
  "append_all ap st [] = (0, st)"
| "append_all ap st (d # ds) =
    (case ap st (Some d) of
       (Inl _, st) \<Rightarrow> (0, st)
     | (Inr _, st) \<Rightarrow> (case append_all ap st ds of (k, st) \<Rightarrow> (Suc k, st)))"

section \<open>The contract\<close>

locale durable_log =
  fixes append :: "'s \<Rightarrow> bytes option \<Rightarrow> (unit + nat) \<times> 's"
    and recover :: "'s \<Rightarrow> (unit + unit) \<times> 's"
    and readn :: "'s \<Rightarrow> nat option \<Rightarrow> (unit + bytes) \<times> 's"
    and open_log :: "'s \<Rightarrow> bytes list \<Rightarrow> bool"
    and on_disk :: "'s \<Rightarrow> bytes list \<Rightarrow> bool"
    and fits :: "bytes list \<Rightarrow> bool"
    and restart :: "'s \<Rightarrow> 's \<Rightarrow> bool"
  assumes fits_prefix: "fits (log @ ys) \<Longrightarrow> fits log"
    and open_on_disk: "open_log s log \<Longrightarrow> fits log \<Longrightarrow> on_disk s log"
    and append_ok: "open_log s log \<Longrightarrow> d \<noteq> [] \<Longrightarrow> append s (Some d) = (Inr m, s') \<Longrightarrow> open_log s' (log @ [d])"
    and append_err: "open_log s log \<Longrightarrow> d \<noteq> [] \<Longrightarrow> fits (log @ [d]) \<Longrightarrow> append s (Some d) = (Inl e, s') \<Longrightarrow>
      on_disk s' log \<or> on_disk s' (log @ [d])"
    and recover_ok: "on_disk s log \<Longrightarrow> restart s s1 \<Longrightarrow> recover s1 = (Inr u, s2) \<Longrightarrow> open_log s2 log"
    and read_ok: "open_log s log \<Longrightarrow> readn s (Some n) = (Inr b, s') \<Longrightarrow> b = take n (concat log)"
begin

lemma appends_on_disk:
  assumes "open_log s log" and "fits (log @ ds)" and "[] \<notin> set ds" and "append_all append s ds = (k, s')"
  shows "on_disk s' (log @ take k ds) \<or> k < length ds \<and> on_disk s' (log @ take (Suc k) ds)"
  using assms
proof (induction ds arbitrary: s log k)
  case Nil
  then show ?case
    using open_on_disk by simp
next
  case (Cons d ds)
  have f: "fits (log @ [d])"
    using fits_prefix [of "log @ [d]" ds] Cons.prems(2) by simp
  obtain r s1 where ap: "append s (Some d) = (r, s1)" by force
  show ?case
  proof (cases r)
    case (Inl e)
    then show ?thesis
      using append_err [OF Cons.prems(1) _ f] ap Cons.prems(3,4) by auto
  next
    case (Inr m)
    obtain j where j: "append_all append s1 ds = (j, s')" "k = Suc j"
      using Cons.prems(4) ap Inr by (auto split: prod.splits)
    have "open_log s1 (log @ [d])"
      using append_ok [OF Cons.prems(1)] ap Inr Cons.prems(3) by auto
    then show ?thesis
      using Cons.IH [OF _ _ _ j(1), of "log @ [d]"] Cons.prems(2,3) j(2) by simp
  qed
qed

lemma appends_survive:
  assumes "open_log s log" and "fits (log @ ds)" and "[] \<notin> set ds" and "append_all append s ds = (k, s')"
    and "restart s' s1" and "recover s1 = (Inr u, s2)" and "readn s2 (Some n) = (Inr b, s3)"
  shows "b = take n (concat (log @ take k ds)) \<or> k < length ds \<and> b = take n (concat (log @ take (Suc k) ds))"
  using appends_on_disk [OF assms(1-4)] recover_ok [OF _ assms(5,6)] read_ok [OF _ assms(7)] by blast

lemma appends_read:
  assumes "open_log s log" and "[] \<notin> set ds" and "append_all append s ds = (length ds, s')"
    and "readn s' (Some n) = (Inr b, s'')"
  shows "b = take n (concat (log @ ds))"
proof -
  have "open_log s' (log @ ds)"
    using assms(1-3)
  proof (induction ds arbitrary: s log)
    case (Cons d ds)
    obtain m s1 where ap: "append s (Some d) = (Inr m, s1)" "append_all append s1 ds = (length ds, s')"
      using Cons.prems(3) by (auto split: prod.splits sum.splits)
    then show ?case
      using Cons.IH [OF append_ok [OF Cons.prems(1)]] Cons.prems(2) by auto
  qed simp
  then show ?thesis
    using read_ok assms(4) by blast
qed

end

section \<open>The driver keeps the contract\<close>

text \<open>The database of the disk at sector \<open>L\<close>, and a later boot of the machine from the same sectors.\<close>

definition db_open :: "('d \<Rightarrow> nat \<Rightarrow> bytes) \<Rightarrow> nat \<Rightarrow> nat \<Rightarrow> 'd ahci \<Rightarrow> bytes list \<Rightarrow> bool" where
  "db_open sect port L st log \<longleftrightarrow> port_ready port st \<and> memory_db_header_lba st = Some (w64 L) \<and>
    db_synced (sect (dev st)) L log"

definition db_fits :: "nat \<Rightarrow> bytes list \<Rightarrow> bool" where
  "db_fits L log \<longleftrightarrow> log_start L log \<le> L + 131072"

definition db_restart ::
  "'d hba \<Rightarrow> ('d \<Rightarrow> nat \<Rightarrow> bytes) \<Rightarrow> nat \<Rightarrow> nat \<Rightarrow> 'd ahci \<Rightarrow> 'd ahci \<Rightarrow> bool" where
  "db_restart hba sect port L st st1 \<longleftrightarrow> port_ready port st1 \<and> sect (dev st1) = sect (dev st) \<and>
    memory_db_header_lba st1 = None \<and> reads_ok hba st1 \<and>
    (\<exists>cap. ssd_sector_count st1 = Some cap \<and> L + 131072 \<le> unat cap)"

lemma log_start_append: "log_start L (log @ ys) = log_start L log + sum_list (map (secs \<circ> length) ys)"
  by (simp add: log_start_def)

lemma db_synced_cursor:
  assumes "db_synced c L log" and "db_fits L log"
  shows "db_cursor_ok c L"
proof -
  obtain h where h: "db_header c L h" "next_append_lba h = w64 (log_start L log)"
    "map_entries_used h = w64 (length log)" and db: "db_log c L log"
    using assms(1) by (auto simp: db_synced_def)
  have "end_at L < 2 ^ 48" "length log \<le> 992"
    using db by (auto simp: db_log_def db_map_def)
  then have "unat (w64 (log_start L log)) = log_start L log" "unat (w64 (length log)) = length log"
    using assms(2) by (simp_all add: unat_w64 db_fits_def db_layout)
  then show ?thesis
    using h assms(2) log_start_ge [of L log] \<open>length log \<le> 992\<close> by (auto simp: db_cursor_ok_def db_fits_def)
qed

locale memory_db_disk = ata_disk +
  fixes L :: nat and model_start model_last :: u64

sublocale memory_db_disk \<subseteq> durable_log "append_memory_db hba"
  "\<lambda>st. ensure_memory_db hba st (w64 L) model_start model_last" "read_memory_db hba"
  "db_open sect port L" "\<lambda>st log. db_log (sect (dev st)) L log \<and> db_cursor_ok (sect (dev st)) L"
  "db_fits L" "db_restart hba sect port L"
proof
  fix s s' s1 s2 :: "'a ahci" and log ys d m n b e u
  show "db_fits L (log @ ys) \<Longrightarrow> db_fits L log"
    by (simp add: db_fits_def log_start_append)
  show "db_log (sect (dev s)) L log \<and> db_cursor_ok (sect (dev s)) L"
    if "db_open sect port L s log" "db_fits L log"
    using that db_synced_cursor by (auto simp: db_open_def db_synced_def)
  show "db_open sect port L s' (log @ [d])"
    if "db_open sect port L s log" "d \<noteq> []" "append_memory_db hba s (Some d) = (Inr m, s')"
  proof -
    have st: "port_ready port s" "memory_db_header_lba s = Some (w64 L)" "db_synced (sect (dev s)) L log"
      "db_log (sect (dev s)) L log"
      using that(1) by (auto simp: db_open_def db_synced_def)
    note law = append_law [OF st(1,2,4) disjI1 [OF st(3)] that(2,3)]
    then show ?thesis
      using st keeps_ready [of s s'] only_devD(1) [of s s'] by (simp add: db_open_def)
  qed
  show "db_log (sect (dev s')) L log \<and> db_cursor_ok (sect (dev s')) L \<or>
      db_log (sect (dev s')) L (log @ [d]) \<and> db_cursor_ok (sect (dev s')) L"
    if "db_open sect port L s log" "d \<noteq> []" "db_fits L (log @ [d])" "append_memory_db hba s (Some d) = (Inl e, s')"
  proof -
    have st: "port_ready port s" "memory_db_header_lba s = Some (w64 L)" "db_synced (sect (dev s)) L log"
      "db_log (sect (dev s)) L log"
      using that(1) by (auto simp: db_open_def db_synced_def)
    note law = append_law [OF st(1,2,4) disjI1 [OF st(3)] that(2,4)]
    have "db_fits L log"
      using that(3) by (simp add: db_fits_def)
    then have "db_cursor_ok (sect (dev s)) L"
      by (rule db_synced_cursor [OF st(3)])
    then have "db_cursor_ok (sect (dev s')) L"
      using law db_synced_cursor [OF _ that(3)] by (auto simp: db_cursor_ok_def)
    then show ?thesis
      using law by blast
  qed
  show "db_open sect port L s2 log"
    if disk: "db_log (sect (dev s)) L log \<and> db_cursor_ok (sect (dev s)) L" and boot: "db_restart hba sect port L s s1"
      and en: "ensure_memory_db hba s1 (w64 L) model_start model_last = (Inr u, s2)"
  proof -
    obtain cap where b: "port_ready port s1" "sect (dev s1) = sect (dev s)" "memory_db_header_lba s1 = None"
      "reads_ok hba s1" "ssd_sector_count s1 = Some cap" "L + 131072 \<le> unat cap"
      using boot by (auto simp: db_restart_def)
    have bound: "end_at L < 2 ^ 48"
      using disk by (simp add: db_log_def)
    have "db_synced (sect (dev s2)) L log \<and> memory_db_header_lba s2 = Some (w64 L)"
      using ensure_keeps [where log = log, OF b(1) bound b(4-6) _ _ _ en] disk b(2,3) by simp
    then show ?thesis
      using ensure_law [OF b(1) bound en] db_registers_ready b(1) by (auto simp: db_open_def)
  qed
  show "b = take n (concat log)"
    if "db_open sect port L s log" "read_memory_db hba s (Some n) = (Inr b, s')"
    using read_law [of s L log n "Inr b" s'] that by (auto simp: db_open_def db_synced_def)
qed

context memory_db_disk
begin

lemmas db_survive = appends_survive
  and db_appends_read = appends_read

end

section \<open>The reference disk carries out every command\<close>

lemma ref_returns_ok: "first_sata_port_cl st = Some cl \<Longrightarrow> returns_ok (transfer_sectors ref_hba ref_port st lba n b w)"
  by (simp add: transfer_sectors_def Let_def split: prod.split)

lemma ref_io_ok:
  assumes "first_sata_port st = Some ref_port" and "first_sata_port_cl st = Some cl"
  shows "io_ok ref_hba st"
proof -
  have t: "\<not> isl (fst (transfer_sectors ref_hba ref_port (st\<lparr>dev := d\<rparr>) lba n b w))" for d lba n b w
    using ref_returns_ok [of "st\<lparr>dev := d\<rparr>" cl lba n b w] assms(2) by (simp add: returns_ok_def)
  have "returns_ok (write_sectors ref_hba (st\<lparr>dev := d\<rparr>) lba n b)" for d lba n b
    using t [of d lba n b True] assms(1)
    by (auto simp: write_sectors_def returns_ok_def split: prod.splits sum.splits)
  moreover have "\<not> isl (fst (read_sectors ref_hba (st\<lparr>dev := d\<rparr>) lba n))" for d lba n
    using t [of d lba n _ False] assms(1) by (simp add: read_sectors_def)
  ultimately show ?thesis
    unfolding io_ok_def reads_ok_def by blast
qed

lemma db_registers_io: "db_registers L st st' \<Longrightarrow> io_ok hba st \<Longrightarrow> io_ok hba st'"
proof -
  have d: "io_ok hba (st\<lparr>dev := d\<rparr>) = io_ok hba st" for d
    by (intro io_ok_keeps) (simp add: only_dev_def)
  show "db_registers L st st' \<Longrightarrow> io_ok hba st \<Longrightarrow> io_ok hba st'"
    unfolding db_registers_def by (metis d insertE io_ok_register singletonD)
qed

lemma db_registers_cap: "db_registers L st st' \<Longrightarrow> ssd_sector_count st' = ssd_sector_count st"
  by (cases st, cases st') (auto simp: db_registers_def memory_db_register_state_def)

interpretation refdb: memory_db_disk ref_hba ref_sect ref_inflight ref_port 1000 0 0
  by unfold_locales

text \<open>
  A machine whose disk holds a database at sector 1000 with the payloads \<open>log\<close>, as the operations
  themselves build it from the blank reference disk.
\<close>

definition ref_db :: "bytes list \<Rightarrow> ref_disk ahci \<Rightarrow> bool" where
  "ref_db log st \<longleftrightarrow> db_open ref_sect ref_port 1000 st log \<and> first_sata_port st = Some ref_port \<and>
    first_sata_port_cl st = Some 0 \<and> ssd_sector_count st = Some 4000000"

lemma ref_db_io: "ref_db log st \<Longrightarrow> io_ok ref_hba st"
  by (auto simp: ref_db_def intro: ref_io_ok)

lemma ref_bound: "end_at 1000 < 2 ^ 48" "L = 1000 \<Longrightarrow> w64 L = 1000"
  by (simp_all add: end_at_def w64_def)

lemma ref_fresh: "\<exists>st. ensure_memory_db ref_hba ref_ahci (w64 1000) 0 0 = (Inr (), st) \<and> ref_db [] st"
proof -
  obtain r st where en: "ensure_memory_db ref_hba ref_ahci (w64 1000) 0 0 = (r, st)" by force
  have io: "io_ok ref_hba ref_ahci" and cap: "ssd_sector_count ref_ahci = Some 4000000" "memory_db_header_lba ref_ahci = None"
    by (rule ref_io_ok [where cl = 0]) (simp_all add: ref_ahci_def)
  have r: "r = Inr ()"
    using ref.ensure_live [OF ref_ahci_ready(1) io ref_bound(1) cap(1), of 0 0] cap(2) en
      returns_okD [OF _ en] by simp
  obtain s1 where s1: "only_dev ref_ahci s1"
    "ensure_existing ref_hba s1 (ref_sect (dev ref_ahci) 1000) (w64 1000) 4000000 (w64 (1000 + 131072)) 0 0 = (r, st)"
    using ref.ensure_readable [OF ref_ahci_ready(1) ref_bound(1) io_ok_reads [OF io] cap(1) _ en]
    by auto
  have "subslice (ref_sect (dev ref_ahci) 1000) 0 8 = replicate 8 0"
    by (simp add: ref_sect_def ref_ahci_def pad_sector_def subslice_def)
  moreover have "hd MEMORY_DB_MAGIC \<noteq> 0"
    by (simp add: MEMORY_DB_MAGIC_def ascii_def)
  then have "replicate 8 0 \<noteq> MEMORY_DB_MAGIC"
    by (metis hd_replicate zero_neq_numeral)
  ultimately have bad: "\<not> existing_header_valid (ref_sect (dev ref_ahci) 1000) (w64 1000) l m d"  for l m d
    by (simp add: existing_header_valid_def)
  obtain q s2 where mh: "memory_db_read_map_header ref_hba s1 (le_u64 (ref_sect (dev ref_ahci) 1000) 72) = (q, s2)"
    by force
  have s1r: "port_ready ref_port s1"
    using ref.keeps_ready [OF s1(1)] by simp
  have s2: "only_dev ref_ahci s2"
    using ref.read_map_header_any(1) [OF s1r mh] s1(1) ref.keeps_trans by blast
  have wf: "write_fresh_db ref_hba s2 (w64 1000) 4000000 0 0 = (Inr (), st)"
    using s1(2) mh bad r unfolding ensure_existing_def Let_def by simp
  have st: "db_synced (ref_sect (dev st)) 1000 []" "st = memory_db_register_state (s2\<lparr>dev := dev st\<rparr>) (w64 1000)"
    using ref.write_fresh_law [OF ref.keeps_ready [OF s2] ref_bound(1) wf] by simp_all
  have f: "first_sata_port st = first_sata_port s2" "first_sata_port_cl st = first_sata_port_cl s2"
    "ssd_sector_count st = ssd_sector_count s2" "memory_db_header_lba st = once_set (memory_db_header_lba s2) (w64 1000)"
    by (subst st(2), simp add: memory_db_register_state_def)+
  have "ref_db [] st"
    using st(1) f only_devD [OF s2] cap(2)
    by (simp add: ref_db_def db_open_def port_ready_def once_set_def) (simp add: ref_ahci_def)
  then show ?thesis
    using en r by blast
qed

lemma ref_append:
  assumes st: "ref_db log st" and "d \<noteq> []" and "length log < 992" and "length d < 2 ^ 32"
    and "log_start 1000 (log @ [d]) \<le> end_at 1000"
  shows "\<exists>st'. append_memory_db ref_hba st (Some d) = (Inr (length d), st') \<and> ref_db (log @ [d]) st'"
proof -
  have s: "port_ready ref_port st" "memory_db_header_lba st = Some (w64 1000)"
    "db_log (ref_sect (dev st)) 1000 log" "db_synced (ref_sect (dev st)) 1000 log" "ssd_sector_count st = Some 4000000"
    using st by (auto simp: ref_db_def db_open_def db_synced_def)
  obtain r st' where ap: "append_memory_db ref_hba st (Some d) = (r, st')" by force
  have cap: "log_start 1000 (log @ [d]) \<le> unat (4000000 :: u64)"
    using assms(5) by (simp add: end_at_def)
  obtain m where m: "r = Inr m"
    using returns_okD [OF ref.append_live [OF s(1,2) ref_db_io [OF st] s(3) assms(2,3,5,4) s(5) cap] ap] ..
  have law: "only_dev st st'" "m = length d" "db_synced (ref_sect (dev st')) 1000 (log @ [d])"
    using ref.append_law [OF s(1-3) disjI1 [OF s(4)] assms(2) ap] m by auto
  then have "ref_db (log @ [d]) st'"
    using st only_devD [OF law(1)] ref.keeps_ready [OF law(1)] by (simp add: ref_db_def db_open_def)
  then show ?thesis
    using ap m law(2) by blast
qed

end
