(* ===== verification/MemoryDbProps.thy ===== *)
theory MemoryDbProps
  imports MemoryDbDurable
begin

text \<open>
  The properties of the memory database, for every adapter and disk that keep the hardware contract
  \<open>ata_disk\<close>, with an instance of each on the reference disk.
\<close>

lemma ref_db_open:
  assumes "ref_db log st"
  shows "port_ready ref_port st" "memory_db_header_lba st = Some (w64 1000)"
    "db_synced (ref_sect (dev st)) 1000 log" "db_log (ref_sect (dev st)) 1000 log"
    "ssd_sector_count st = Some 4000000" "db_open ref_sect ref_port 1000 st log"
  using assms by (auto simp: ref_db_def db_open_def db_synced_def)

text \<open>A machine with one three-byte payload in the database, and one with an empty database.\<close>

lemma ref_db_empty: obtains st where "ref_db [] st"
  using ref_fresh by blast

lemma ref_db_one: obtains st where "ref_db [[1, 2, 3]] st"
proof -
  obtain st0 where "ref_db [] st0"
    by (rule ref_db_empty)
  from ref_append [OF this, of "[1, 2, 3]"] show thesis
    using that by (auto simp: log_start_def secs_def db_layout)
qed



text \<open>
  C3.  \<open>append_memory_db\<close> refines appending to a list of payloads: when it returns \<open>Ok\<close> the count
  is the payload's length and the database holds \<open>log @ [data]\<close>.  Whatever it returns, it changes
  no sector outside the database, and the sectors hold either the old log or the extended one:
  an append interrupted between any two sector writes is all or nothing.
\<close>

theorem memory_db_append_refines:
  assumes "ata_disk hba sect inflight port" and "db_open sect port L st log" and "data \<noteq> []"
    and "append_memory_db hba st (Some data) = (r, st')"
  shows "(\<forall>i. i < L \<or> end_at L \<le> i \<longrightarrow> sect (dev st') i = sect (dev st) i) \<and>
    (db_log (sect (dev st')) L log \<or> db_log (sect (dev st')) L (log @ [data])) \<and>
    (\<forall>m. r = Inr m \<longrightarrow> m = length data \<and> db_open sect port L st' (log @ [data]))"
proof -
  have st: "port_ready port st" "memory_db_header_lba st = Some (w64 L)" "db_synced (sect (dev st)) L log"
    "db_log (sect (dev st)) L log"
    using assms(2) by (auto simp: db_open_def db_synced_def)
  note law = ata_disk.append_law [OF assms(1) st(1,2,4) disjI1 [OF st(3)] assms(3,4)]
  have "port_ready port st'" "memory_db_header_lba st' = Some (w64 L)"
    using law st(1,2) only_devD(1,5) [of st st'] by (simp_all add: port_ready_def)
  then show ?thesis
    using law by (simp add: db_open_def)
qed

theorem memory_db_append_refines_witness:
  "\<exists>st m st'. append_memory_db ref_hba st (Some [1, 2, 3]) = (Inr m, st') \<and> m = 3 \<and>
    db_open ref_sect ref_port 1000 st' [[1, 2, 3]]"
proof -
  obtain st where st: "ref_db [] st" by (rule ref_db_empty)
  obtain m st' where ap: "append_memory_db ref_hba st (Some [1, 2, 3]) = (Inr m, st')"
    using ref_append [OF st, of "[1, 2, 3]"] by (auto simp: log_start_def secs_def db_layout)
  show ?thesis
    using memory_db_append_refines [OF ref.ata_disk_axioms ref_db_open(6) [OF st] _ ap] ap
    by (intro exI [of _ st] exI [of _ m] exI [of _ st']) simp
qed

text \<open>
  C25.  An append with room left succeeds on a disk that carries out its commands: at most 991
  payloads so far, a payload below 4 GiB that fits before the end of the data area and of the disk.
\<close>

theorem memory_db_append_live:
  assumes "ata_disk hba sect inflight port" and "db_open sect port L st log" and "io_ok hba st"
    and "data \<noteq> []" and "length log < 992" and "log_start L (log @ [data]) \<le> end_at L"
    and "length data < 2 ^ 32" and "ssd_sector_count st = Some cap" and "log_start L (log @ [data]) \<le> unat cap"
  shows "\<exists>st'. append_memory_db hba st (Some data) = (Inr (length data), st')"
proof -
  have st: "port_ready port st" "memory_db_header_lba st = Some (w64 L)" "db_synced (sect (dev st)) L log"
    "db_log (sect (dev st)) L log"
    using assms(2) by (auto simp: db_open_def db_synced_def)
  obtain r st' where ap: "append_memory_db hba st (Some data) = (r, st')" by force
  obtain m where "r = Inr m"
    using returns_okD [OF ata_disk.append_live [OF assms(1) st(1,2) assms(3) st(4) assms(4-9)] ap] ..
  then show ?thesis
    using ata_disk.append_law [OF assms(1) st(1,2,4) disjI1 [OF st(3)] assms(4) ap] ap by simp
qed

theorem memory_db_append_live_witness:
  "\<exists>st st'. append_memory_db ref_hba st (Some [9]) = (Inr 1, st')"
proof -
  obtain st where st: "ref_db [[1, 2, 3]] st" by (rule ref_db_one)
  show ?thesis
    using memory_db_append_live [OF ref.ata_disk_axioms ref_db_open(6) [OF st] ref_db_io [OF st], of "[9]" 4000000]
      ref_db_open(5) [OF st] by (auto simp: log_start_def secs_def db_layout)
qed

text \<open>
  C26.  A full map refuses the append: with 992 payloads stored, \<open>append_memory_db\<close> returns an error
  and leaves every sector as it is.
\<close>

theorem memory_db_append_full:
  assumes "ata_disk hba sect inflight port" and "db_open sect port L st log" and "length log = 992"
    and "data \<noteq> []" and "append_memory_db hba st (Some data) = (r, st')"
  shows "r = Inl () \<and> sect (dev st') = sect (dev st)"
proof -
  have st: "port_ready port st" "memory_db_header_lba st = Some (w64 L)" "db_synced (sect (dev st)) L log"
    "db_log (sect (dev st)) L log"
    using assms(2) by (auto simp: db_open_def db_synced_def)
  show ?thesis
    by (rule ata_disk.append_full [OF assms(1) st(1,2,4) disjI1 [OF st(3)] assms(3-5)])
qed

lemma ref_db_many: "n \<le> 992 \<Longrightarrow> \<exists>st. ref_db (replicate n [7]) st"
proof (induction n)
  case 0
  then show ?case using ref_fresh by auto
next
  case (Suc n)
  then obtain st where "ref_db (replicate n [7]) st" by auto
  from ref_append [OF this, of "[7]"] show ?case
    using Suc.prems
    by (auto simp: log_start_def secs_def db_layout sum_list_replicate replicate_append_same [symmetric])
qed

theorem memory_db_append_full_witness:
  "\<exists>st r st'. append_memory_db ref_hba st (Some [1]) = (r, st') \<and> r = Inl () \<and>
    ref_sect (dev st') = ref_sect (dev st)"
proof -
  obtain st where st: "ref_db (replicate 992 [7]) st"
    using ref_db_many [of 992] by auto
  obtain r st' where ap: "append_memory_db ref_hba st (Some [1]) = (r, st')" by force
  show ?thesis
    using memory_db_append_full [OF ref.ata_disk_axioms ref_db_open(6) [OF st] _ _ ap] ap by auto
qed



text \<open>
  C27.  A successful \<open>erase_memory_db\<close> leaves an open, empty database, and whatever it returns it
  writes only sectors of the database.
\<close>

theorem memory_db_erase_empties:
  assumes "ata_disk hba sect inflight port" and "port_ready port st"
    and "memory_db_header_lba st = Some (w64 L)" and "db_log (sect (dev st)) L log"
    and "erase_memory_db hba st = (r, st')"
  shows "(\<forall>i. i < L \<or> end_at L \<le> i \<longrightarrow> sect (dev st') i = sect (dev st) i) \<and>
    (r = Inr () \<longrightarrow> db_open sect port L st' [])"
proof -
  note law = ata_disk.erase_law [OF assms]
  have "port_ready port st'" "memory_db_header_lba st' = Some (w64 L)"
    using law assms(2,3) only_devD(1,5) [of st st'] by (simp_all add: port_ready_def)
  then show ?thesis
    using law by (simp add: db_open_def)
qed

theorem memory_db_erase_empties_witness:
  "\<exists>st st'. db_open ref_sect ref_port 1000 st [[1, 2, 3]] \<and> erase_memory_db ref_hba st = (Inr (), st') \<and>
    db_open ref_sect ref_port 1000 st' []"
proof -
  obtain st where st: "ref_db [[1, 2, 3]] st" by (rule ref_db_one)
  note o = ref_db_open [OF st]
  obtain st' where er: "erase_memory_db ref_hba st = (Inr (), st')"
    using returns_okD [OF ref.erase_live [OF o(1,2) ref_db_io [OF st] o(4,5)]]
    by (cases "erase_memory_db ref_hba st") auto
  show ?thesis
    using memory_db_erase_empties [OF ref.ata_disk_axioms o(1,2,4) er] er o(6) by blast
qed

text \<open>
  C12.  Whatever the sectors hold, a successful \<open>ensure_memory_db\<close> leaves a well-formed database:
  header, map and every payload the map lists agree.  It never writes outside the header and map
  sectors, so the model region is untouched.
\<close>

theorem memory_db_ensure_establishes:
  assumes "ata_disk hba sect inflight port" and "port_ready port st" and "end_at L < 2 ^ 48"
    and "ensure_memory_db hba st (w64 L) model_start model_last = (r, st')"
  shows "(\<forall>i. i < L \<or> data_at L \<le> i \<longrightarrow> sect (dev st') i = sect (dev st) i) \<and>
    (r = Inr () \<longrightarrow> (\<exists>log. db_synced (sect (dev st')) L log))"
  using ata_disk.ensure_law [OF assms] by blast

theorem memory_db_ensure_establishes_witness:
  "\<exists>st' log. ensure_memory_db ref_hba ref_ahci (w64 1000) 0 0 = (Inr (), st') \<and>
    db_synced (ref_sect (dev st')) 1000 log"
proof -
  obtain st' where en: "ensure_memory_db ref_hba ref_ahci (w64 1000) 0 0 = (Inr (), st')"
    using ref_fresh by blast
  show ?thesis
    using memory_db_ensure_establishes [OF ref.ata_disk_axioms ref_ahci_ready(1) ref_bound(1) en] en by auto
qed

lemma memory_db_ensure_ok:
  assumes "ata_disk hba sect inflight port" and "port_ready port st" and "io_ok hba st"
    and "end_at L < 2 ^ 48" and "ssd_sector_count st = Some cap" and "L + 131072 \<le> unat cap"
    and "memory_db_header_lba st \<in> {None, Some (w64 L)}"
  shows "\<exists>st'. ensure_memory_db hba st (w64 L) model_start model_last = (Inr (), st')"
proof -
  obtain r st' where en: "ensure_memory_db hba st (w64 L) model_start model_last = (r, st')" by force
  show ?thesis
    using returns_okD [OF ata_disk.ensure_live [OF assms] en] en by auto
qed

text \<open>
  C28.  On a disk that carries out its commands and is large enough, \<open>ensure_memory_db\<close> succeeds
  whatever the sectors hold, and then the database is open.
\<close>

theorem memory_db_ensure_live:
  assumes "ata_disk hba sect inflight port" and "port_ready port st" and "io_ok hba st"
    and "end_at L < 2 ^ 48" and "ssd_sector_count st = Some cap" and "L + 131072 \<le> unat cap"
    and "memory_db_header_lba st \<in> {None, Some (w64 L)}"
  shows "\<exists>st' log. ensure_memory_db hba st (w64 L) model_start model_last = (Inr (), st') \<and>
    db_synced (sect (dev st')) L log"
  using memory_db_ensure_ok [OF assms] ata_disk.ensure_law [OF assms(1,2,4)] by blast

theorem memory_db_ensure_live_witness:
  "\<exists>st'. ensure_memory_db ref_hba ref_ahci (w64 1000) 7 8 = (Inr (), st')"
proof -
  have "ssd_sector_count ref_ahci = Some 4000000" "memory_db_header_lba ref_ahci = None"
    by (simp_all add: ref_ahci_def)
  then show ?thesis
    using memory_db_ensure_live [OF ref.ata_disk_axioms ref_ahci_ready(1) ref_io_ok [OF ref_ahci_ready(2,3)] ref_bound(1),
      of 4000000 7 8] by auto
qed

text \<open>
  C29.  The 33 data sectors past the reserved range are a trap.  \<open>append_memory_db\<close> accepts payloads
  up to \<open>data_lba + total_sectors\<close>, which is 33 sectors beyond the range of 131072 sectors that
  \<open>ensure_memory_db\<close> reserves and accepts a cursor in.  Once the log has grown past the reserved range, the
  next boot's \<open>ensure_memory_db\<close> does not recognise the database and starts an empty one.
\<close>

theorem memory_db_overfull_lost:
  assumes "ata_disk hba sect inflight port" and "port_ready port st" and "reads_ok hba st"
    and "ssd_sector_count st = Some cap" and "L + 131072 \<le> unat cap"
    and "db_synced (sect (dev st)) L log" and "\<not> db_fits L log"
    and "ensure_memory_db hba st (w64 L) model_start model_last = (Inr (), st')"
  shows "db_synced (sect (dev st')) L []"
proof -
  have "end_at L < 2 ^ 48"
    using assms(6) by (simp add: db_synced_def db_log_def)
  then show ?thesis
    using ata_disk.ensure_overfull [OF assms(1,2) _ assms(3-6) _ assms(8)] assms(7) by (simp add: db_fits_def)
qed

theorem memory_db_overfull_lost_witness:
  "\<exists>st st' m st2. append_memory_db ref_hba st (Some (replicate 67108864 5)) = (Inr m, st') \<and>
    ensure_memory_db ref_hba st' (w64 1000) 0 0 = (Inr (), st2) \<and>
    db_synced (ref_sect (dev st2)) 1000 []"
proof -
  let ?d = "replicate 67108864 5"
  obtain st where st: "ref_db [] st" by (rule ref_db_empty)
  obtain m st' where ap: "append_memory_db ref_hba st (Some ?d) = (Inr m, st')" and st': "ref_db [?d] st'"
    using ref_append [OF st, of ?d] by (auto simp: log_start_def secs_def db_layout)
  note o = ref_db_open [OF st']
  have io: "io_ok ref_hba st'"
    by (rule ref_db_io [OF st'])
  obtain st2 where en: "ensure_memory_db ref_hba st' (w64 1000) 0 0 = (Inr (), st2)"
    using memory_db_ensure_ok [OF ref.ata_disk_axioms o(1) io ref_bound(1) o(5)] o(2) by auto
  show ?thesis
    using memory_db_overfull_lost [OF ref.ata_disk_axioms o(1) io_ok_reads [OF io] o(5) _ o(3) _ en] ap en
    by (auto simp: db_fits_def log_start_def secs_def db_layout)
qed

text \<open>
  C30.  The on-disk encodings are read back exactly: the header, the map header with its entry
  count, and a map entry at any of the 32 places of its sector, which leaves the other entries
  of the sector as they were.
\<close>

theorem memory_db_encodings_roundtrip:
  assumes "header_current h" and "used \<le> memory_db_map_entry_capacity"
    and "length sector = 512" and "i < 32" and "j < 32"
  shows "parse_header (header_bytes h) = Inr h \<and>
    parse_map_header (map_header_bytes used) = Inr (16, used) \<and>
    parse_map_entry (put_map_entry sector (16 * i) start payload fl) (16 * j) =
      (if i = j then \<lparr>start_lba = start, payload_bytes = payload, entry_flags = fl\<rparr>
       else parse_map_entry sector (16 * j))"
proof -
  have "16 * i + 16 \<le> 512" "16 * j + 16 \<le> 512" "i \<noteq> j \<Longrightarrow> 16 * j + 16 \<le> 16 * i \<or> 16 * i + 16 \<le> 16 * j"
    using assms(4,5) by linarith+
  then show ?thesis
    using assms(1-3) by (auto simp: parse_header_bytes parse_map_header_bytes parse_put_map_entry
        parse_put_map_entry_other)
qed

theorem memory_db_encodings_roundtrip_witness:
  "parse_header (header_bytes (fresh_header 1000 4000000 1 2)) = Inr (fresh_header 1000 4000000 1 2)"
  using memory_db_encodings_roundtrip [of "fresh_header 1000 4000000 1 2" 0 zero_sector 1 2]
  by (simp add: header_current_def fresh_header_def SECTOR_SIZE_def zero_sector_def)

end
