(* ===== verification/ModelCache.thy ===== *)
theory ModelCache
  imports MemoryDbProps
begin

text \<open>
  The raw model cache of \<open>kernel/src/drivers/storage/ahci.rs\<close>: the header at the fixed LBA 2048, the
  model's sectors from LBA 2056 on, writing and loading it, the GPT scan, and the framebuffer dump
  that shares the disk.  The memory database follows the model's last sector.

  The source buffer of a write is a function from offsets to bytes, because the last chunk is
  rounded up to whole sectors and so reads past \<open>model_size\<close>.  Whether the allocation of the target
  buffer succeeds is an argument of \<open>try_load_raw_model\<close>.  Log output, timing and the calls that
  yield to other tasks have no effect on this state.
\<close>

section \<open>Definitions\<close>

definition MODEL_FIXED_CACHE_LBA :: u64 where "MODEL_FIXED_CACHE_LBA = 2048"
definition MODEL_HEADER_SECTORS :: u64 where "MODEL_HEADER_SECTORS = 8"
definition MIN_RAW_MODEL_SIZE :: nat where "MIN_RAW_MODEL_SIZE = 1024 * 1024 * 1024"
definition MAX_RAW_MODEL_SIZE :: nat where "MAX_RAW_MODEL_SIZE = 8 * 1024 * 1024 * 1024"
definition MODEL_MAGIC_READY :: bytes where "MODEL_MAGIC_READY = ascii ''BITNET01''"
definition MODEL_MAGIC_WRITING :: bytes where "MODEL_MAGIC_WRITING = ascii ''BITNET00''"
definition MODEL_CACHE_TAG :: bytes where "MODEL_CACHE_TAG = ascii ''BITNET2B''"

definition raw_model_range_fits :: "'d ahci \<Rightarrow> u64 \<Rightarrow> nat \<Rightarrow> bool" where
  "raw_model_range_fits st data_at_lba model_size =
    (case ssd_sector_count st of None \<Rightarrow> True
     | Some capacity_sectors \<Rightarrow>
        (case checked_add64 data_at_lba (sectors_for_bytes model_size) of None \<Rightarrow> False
         | Some end_exclusive \<Rightarrow> \<not> capacity_sectors < end_exclusive))"

definition verify_raw_model_extent :: "'d hba \<Rightarrow> 'd ahci \<Rightarrow> u64 \<Rightarrow> nat \<Rightarrow> bool \<times> 'd ahci" where
  "verify_raw_model_extent hba st lba model_size =
    (let sector_count = sectors_for_bytes model_size
     in if sector_count = 0 then (False, st)
        else let last_lba = lba + sector_count - 1;
                 next_free_lba = lba + sector_count
          in case read_sectors hba st last_lba 1 of
               (Inl _, st) \<Rightarrow> (False, st)
             | (Inr _, st) \<Rightarrow>
                (let st = (case ssd_sector_count st of
                     Some capacity_sectors \<Rightarrow>
                       if next_free_lba < capacity_sectors
                       then snd (read_sectors hba st next_free_lba 1) else st
                   | None \<Rightarrow> st)
                 in (True, snd (ensure_memory_db hba st next_free_lba lba last_lba))))"

definition write_model_header :: "bytes \<Rightarrow> u64 \<Rightarrow> u64 \<Rightarrow> bytes" where
  "write_model_header tag model_size lba =
    overwrite (overwrite (overwrite (overwrite zero_sector 0 tag)
      8 (u64_to_le_bytes model_size)) 16 (u64_to_le_bytes lba)) 24 MODEL_CACHE_TAG"

definition discover_model_cache_lba :: "'d ahci \<Rightarrow> u64 option \<times> 'd ahci" where
  "discover_model_cache_lba st =
    (case model_cache_start_lba st of Some lba \<Rightarrow> (Some lba, st)
     | None \<Rightarrow> (Some MODEL_FIXED_CACHE_LBA,
         st\<lparr>model_cache_start_lba := once_set (model_cache_start_lba st) MODEL_FIXED_CACHE_LBA\<rparr>))"

definition smoke_test_raw_model_cache :: "'d hba \<Rightarrow> 'd ahci \<Rightarrow> u64 \<Rightarrow> (unit + unit) \<times> 'd ahci" where
  "smoke_test_raw_model_cache hba st cache_lba =
    (let test_lba = cache_lba + 1;
         write_buf = overwrite (overwrite zero_sector 0 (ascii ''HSMOKE01'')) 8 (u64_to_le_bytes test_lba)
     in try_q (write_sectors hba st test_lba 1 write_buf) (\<lambda>_ st.
        try_q (read_sectors hba st test_lba 1) (\<lambda>read_buf st.
          if subslice read_buf 0 16 \<noteq> subslice write_buf 0 16 then (Inl (), st) else (Inr (), st))))"

text \<open>Bytes and sectors of the chunk at \<open>offset\<close>.\<close>

definition chunk_sectors :: "nat \<Rightarrow> nat \<Rightarrow> u16" where
  "chunk_sectors model_size offset =
    word_of_nat ((min (model_size - offset) (MODEL_IO_SECTORS * SECTOR_SIZE) + 511) div SECTOR_SIZE)"

lemma unat_chunk_sectors:
  "unat (chunk_sectors n off) = secs (min (n - off) (MODEL_IO_SECTORS * SECTOR_SIZE))"
proof -
  have "min (n - off) (MODEL_IO_SECTORS * SECTOR_SIZE) \<le> 8192 * 512"
    by (simp add: MODEL_IO_SECTORS_def SECTOR_SIZE_def)
  then have "secs (min (n - off) (MODEL_IO_SECTORS * SECTOR_SIZE)) < 2 ^ 16"
    using secs_bounds(2) [of "min (n - off) (MODEL_IO_SECTORS * SECTOR_SIZE)"] by simp
  then show ?thesis
    unfolding chunk_sectors_def by (subst unat_of_nat16) (simp_all add: secs_def SECTOR_SIZE_def)
qed

lemma chunk_sectors_pos: "off < n \<Longrightarrow> 0 < unat (chunk_sectors n off)"
  unfolding unat_chunk_sectors by (intro secs_pos) (simp add: MODEL_IO_SECTORS_def SECTOR_SIZE_def)

lemma chunk_decreases: "off < n \<Longrightarrow> n - (off + unat (chunk_sectors n off) * SECTOR_SIZE) < n - off"
  using chunk_sectors_pos [of off n] by (simp add: SECTOR_SIZE_def)

text \<open>\<open>n\<close> bytes of memory from \<open>a\<close> on.\<close>

definition mem_slice :: "(nat \<Rightarrow> u8) \<Rightarrow> nat \<Rightarrow> nat \<Rightarrow> bytes" where
  "mem_slice mem a n = map (\<lambda>i. mem (a + i)) [0..<n]"

function write_model_loop ::
  "'d hba \<Rightarrow> 'd ahci \<Rightarrow> (nat \<Rightarrow> u8) \<Rightarrow> u64 \<Rightarrow> nat \<Rightarrow> nat \<Rightarrow> (unit + unit) \<times> 'd ahci" where
  "write_model_loop hba st mem lba model_size offset =
    (if offset < model_size
     then let sectors = chunk_sectors model_size offset
       in try_q (write_sectors hba st (lba + word_of_nat (offset div SECTOR_SIZE)) sectors
                  (mem_slice mem offset (unat sectors * SECTOR_SIZE)))
            (\<lambda>_ st. write_model_loop hba st mem lba model_size (offset + unat sectors * SECTOR_SIZE))
     else (Inr (), st))"
  by pat_completeness auto

termination
  by (relation "measure (\<lambda>(hba, st, mem, lba, n, off). n - off)")
    (simp_all only: in_measure prod.case chunk_decreases wf_measure)

declare write_model_loop.simps [simp del]

text \<open>The body of \<open>write_raw_model_cache\<close> once the range is known to fit.\<close>

definition write_model_at ::
  "'d hba \<Rightarrow> 'd ahci \<Rightarrow> (nat \<Rightarrow> u8) \<Rightarrow> u64 \<Rightarrow> u64 \<Rightarrow> nat \<Rightarrow> (unit + unit) \<times> 'd ahci" where
  "write_model_at hba st mem cache_lba lba model_size =
    try_q (write_sectors hba st cache_lba 1
        (write_model_header MODEL_MAGIC_WRITING (word_of_nat model_size) lba)) (\<lambda>_ st.
      try_q (write_model_loop hba st mem lba model_size 0) (\<lambda>_ st.
        try_q (write_sectors hba st cache_lba 1
            (write_model_header MODEL_MAGIC_READY (word_of_nat model_size) lba)) (\<lambda>_ st.
          (let sector_count = sectors_for_bytes model_size;
               last_lba = lba + sat_sub64 sector_count 1;
               next_free_lba = lba + sector_count
           in (Inr (), snd (ensure_memory_db hba st next_free_lba lba last_lba))))))"

definition write_raw_model_cache ::
  "'d hba \<Rightarrow> 'd ahci \<Rightarrow> (nat \<Rightarrow> u8) \<Rightarrow> nat \<Rightarrow> (unit + unit) \<times> 'd ahci" where
  "write_raw_model_cache hba st mem model_size =
    (case discover_model_cache_lba st of (None, st) \<Rightarrow> (Inl (), st)
     | (Some cache_lba, st) \<Rightarrow>
        (let lba = cache_lba + MODEL_HEADER_SECTORS
         in if \<not> raw_model_range_fits st lba model_size then (Inl (), st)
            else try_q (smoke_test_raw_model_cache hba st cache_lba)
              (\<lambda>_ st. write_model_at hba st mem cache_lba lba model_size)))"

text \<open>The load loop; \<open>acc\<close> is the filled part of the target buffer.\<close>

function load_model_loop ::
  "'d hba \<Rightarrow> 'd ahci \<Rightarrow> u64 \<Rightarrow> nat \<Rightarrow> nat \<Rightarrow> bytes \<Rightarrow> (unit + bytes) \<times> 'd ahci" where
  "load_model_loop hba st lba model_size offset acc =
    (if offset < model_size
     then let sectors = chunk_sectors model_size offset
       in try_q (read_sectors hba st (lba + word_of_nat (offset div SECTOR_SIZE)) sectors)
            (\<lambda>chunk st.
              if offset = 0 \<and> subslice chunk 0 4 \<noteq> ascii ''GGUF'' then (Inl (), st)
              else load_model_loop hba st lba model_size (offset + unat sectors * SECTOR_SIZE) (acc @ chunk))
     else (Inr acc, st))"
  by pat_completeness auto

termination
  by (relation "measure (\<lambda>(hba, st, lba, n, off, acc). n - off)")
    (simp_all only: in_measure prod.case chunk_decreases wf_measure)

declare load_model_loop.simps [simp del]

definition set_model_info_with_source :: "'d ahci \<Rightarrow> bytes \<Rightarrow> string \<Rightarrow> 'd ahci" where
  "set_model_info_with_source st model source = st\<lparr>model_info := Some (model, source)\<rparr>"

text \<open>From the checked header on.\<close>

definition load_model_at :: "'d hba \<Rightarrow> 'd ahci \<Rightarrow> bool \<Rightarrow> u64 \<Rightarrow> nat \<Rightarrow> bool \<times> 'd ahci" where
  "load_model_at hba st alloc_ok lba model_size =
    (if \<not> raw_model_range_fits st lba model_size then (False, st)
     else case verify_raw_model_extent hba st lba model_size of (ok, st) \<Rightarrow>
      if \<not> ok then (False, st)
      else if \<not> alloc_ok then (False, st)
      else case load_model_loop hba st lba model_size 0 [] of
          (Inl _, st) \<Rightarrow> (False, st)
        | (Inr target, st) \<Rightarrow>
            (True, set_model_info_with_source st (take model_size target) ''ssd-cache''))"

definition model_header_ok :: "bytes \<Rightarrow> u64 \<Rightarrow> bool" where
  "model_header_ok header cache_lba \<longleftrightarrow>
    subslice header 0 8 = MODEL_MAGIC_READY \<and> subslice header 24 32 = MODEL_CACHE_TAG \<and>
    le_u64 header 16 = cache_lba + MODEL_HEADER_SECTORS \<and> unat (le_u64 header 8) \<noteq> 0 \<and>
    MIN_RAW_MODEL_SIZE \<le> unat (le_u64 header 8) \<and> unat (le_u64 header 8) \<le> MAX_RAW_MODEL_SIZE"

definition try_load_raw_model :: "'d hba \<Rightarrow> 'd ahci \<Rightarrow> bool \<Rightarrow> bool \<times> 'd ahci" where
  "try_load_raw_model hba st alloc_ok =
    (if model_info st \<noteq> None then (True, st)
     else case discover_model_cache_lba st of (None, st) \<Rightarrow> (False, st)
     | (Some cache_lba, st) \<Rightarrow>
        (case read_sectors hba st cache_lba 1 of (Inl _, st) \<Rightarrow> (False, st)
         | (Inr header, st) \<Rightarrow>
            if \<not> model_header_ok header cache_lba then (False, st)
            else load_model_at hba st alloc_ok (le_u64 header 16) (unat (le_u64 header 8))))"

section \<open>GPT\<close>

definition u16_from_le_bytes :: "bytes \<Rightarrow> u16" where
  "u16_from_le_bytes bs = word_of_nat (from_le bs)"

text \<open>\<open>chunks_exact(2)\<close>; code units that are no Unicode scalar value become a question mark.\<close>

fun gpt_partition_name :: "bytes \<Rightarrow> u32 list" where
  "gpt_partition_name (a # b # raw_name) =
    (let ch = u16_from_le_bytes [a, b]
     in if ch = 0 then []
        else (if 0xd800 \<le> ch \<and> ch \<le> 0xdfff then 0x3f else ucast ch) # gpt_partition_name raw_name)"
| "gpt_partition_name _ = []"

text \<open>The scan of the entries; \<open>k\<close> counts the entries left.\<close>

fun gpt_entry_loop ::
  "'d hba \<Rightarrow> 'd ahci \<Rightarrow> u64 \<Rightarrow> nat \<Rightarrow> nat \<Rightarrow> nat \<Rightarrow> (unit + (u64 \<times> u32 list) option) \<times> 'd ahci" where
  "gpt_entry_loop hba st entries_lba entry_count entry_size 0 = (Inr None, st)"
| "gpt_entry_loop hba st entries_lba entry_count entry_size (Suc k) =
    (let index = entry_count - Suc k;
         byte_offset = index * entry_size;
         lba = entries_lba + word_of_nat (byte_offset div SECTOR_SIZE);
         offset = byte_offset mod SECTOR_SIZE
     in if SECTOR_SIZE < offset + entry_size
        then gpt_entry_loop hba st entries_lba entry_count entry_size k
        else case read_sectors hba st lba 1 of (Inl _, st) \<Rightarrow> (Inr None, st)
        | (Inr sector, st) \<Rightarrow>
           (let entry = subslice sector offset (offset + entry_size)
            in if length entry < 16 then (Inl (), st)
               else if \<forall>b \<in> set (subslice entry 0 16). b = 0
               then gpt_entry_loop hba st entries_lba entry_count entry_size k
               else if entry_size < 56 then (Inl (), st)
               else (Inr (Some (le_u64 entry 32, gpt_partition_name (subslice entry 56 entry_size))), st)))"

text \<open>
  \<open>Inl\<close> is a panic: slicing an entry of fewer than 16 bytes, or a used one of fewer than 56.
\<close>

definition discover_model_partition ::
  "'d hba \<Rightarrow> 'd ahci \<Rightarrow> (unit + (u64 \<times> u32 list) option) \<times> 'd ahci" where
  "discover_model_partition hba st =
    (case read_sectors hba st 1 1 of (Inl _, st) \<Rightarrow> (Inr None, st)
     | (Inr header, st) \<Rightarrow>
        if subslice header 0 8 \<noteq> ascii ''EFI PART'' then (Inr None, st)
        else
         (let entries_lba = le_u64 header 72;
              entry_count = unat (le_u32 header 80);
              entry_size = unat (le_u32 header 84)
          in if entry_size = 0 \<or> SECTOR_SIZE < entry_size then (Inr None, st)
             else gpt_entry_loop hba st entries_lba entry_count entry_size entry_count))"

section \<open>The framebuffer dump\<close>

function dump_write_loop :: "'d hba \<Rightarrow> 'd ahci \<Rightarrow> (nat \<Rightarrow> u8) \<Rightarrow> nat \<Rightarrow> nat \<Rightarrow> (unit + unit) \<times> 'd ahci" where
  "dump_write_loop hba st fb fb_size offset =
    (if offset < fb_size
     then let current_chunk_size = min 4096 (fb_size - offset);
              current_sectors = (current_chunk_size + 511) div 512
       in try_q (write_sectors hba st (1024 + word_of_nat (offset div 512)) (word_of_nat current_sectors)
                  (mem_slice fb offset (current_sectors * 512)))
            (\<lambda>_ st. dump_write_loop hba st fb fb_size (offset + current_chunk_size))
     else (Inr (), st))"
  by pat_completeness auto

termination
  by (relation "measure (\<lambda>(hba, st, fb, n, off). n - off)") auto

declare dump_write_loop.simps [simp del]

function dump_verify_loop :: "'d hba \<Rightarrow> 'd ahci \<Rightarrow> (nat \<Rightarrow> u8) \<Rightarrow> nat \<Rightarrow> nat \<Rightarrow> (unit + unit) \<times> 'd ahci" where
  "dump_verify_loop hba st fb fb_size offset =
    (if offset < fb_size
     then let current_chunk_size = min 4096 (fb_size - offset);
              current_sectors = (current_chunk_size + 511) div 512
       in try_q (read_sectors hba st (1024 + word_of_nat (offset div 512)) (word_of_nat current_sectors))
            (\<lambda>verify_buf st.
              if take current_chunk_size verify_buf \<noteq> mem_slice fb offset current_chunk_size
              then (Inl (), st)
              else dump_verify_loop hba st fb fb_size (offset + current_chunk_size))
     else (Inr (), st))"
  by pat_completeness auto

termination
  by (relation "measure (\<lambda>(hba, st, fb, n, off). n - off)") auto

declare dump_verify_loop.simps [simp del]

text \<open>\<open>fb\<close> is the framebuffer with its size \<open>stride * height\<close>; the result is \<open>success\<close>.\<close>

definition dump_boot_log :: "'d hba \<Rightarrow> 'd ahci \<Rightarrow> ((nat \<Rightarrow> u8) \<times> nat) option \<Rightarrow> bool \<times> 'd ahci" where
  "dump_boot_log hba st framebuffer =
    (case framebuffer of None \<Rightarrow> (False, st)
     | Some (fb, fb_size) \<Rightarrow>
        (case dump_write_loop hba st fb fb_size 0 of (Inl _, st) \<Rightarrow> (False, st)
         | (Inr _, st) \<Rightarrow>
            (case dump_verify_loop hba st fb fb_size 0 of (r, st) \<Rightarrow> (\<not> isl r, st))))"

end
