(* ===== verification/ModelCacheLaws.thy ===== *)
theory ModelCacheLaws
  imports ModelCache
begin

text \<open>
  Correctness of the raw model cache: what a completed and an interrupted write leave on disk, what
  a load returns, and how the framebuffer dump interferes.
\<close>

section \<open>Chunks\<close>

lemma mem_slice_split: "mem_slice mem a (m + n) = mem_slice mem a m @ mem_slice mem (a + m) n"
  unfolding mem_slice_def upt_add_eq_append [OF le0] map_append
  by (intro arg_cong2 [where f = append] refl nth_equalityI) (auto simp: add.assoc)

lemma length_mem_slice [simp]: "length (mem_slice mem a n) = n"
  by (simp add: mem_slice_def)

lemma take_mem_slice: "k \<le> n \<Longrightarrow> take k (mem_slice mem a n) = mem_slice mem a k"
  using mem_slice_split [of mem a k "n - k"] by simp

lemma subslice_mem_slice: "a + b \<le> n \<Longrightarrow> subslice (mem_slice mem m n) a (a + b) = mem_slice mem (m + a) b"
proof -
  assume le: "a + b \<le> n"
  have "mem_slice mem m n = mem_slice mem m a @ mem_slice mem (m + a) (n - a)"
    using mem_slice_split [of mem m a "n - a"] le by simp
  then show ?thesis
    using le by (simp add: subslice_def take_mem_slice)
qed

lemma write_range_mem_slice:
  "lba \<le> i \<Longrightarrow> i < lba + n \<Longrightarrow>
    write_range c lba n (mem_slice mem a (n * 512)) i = mem_slice mem (a + (i - lba) * 512) 512"
proof -
  assume i: "lba \<le> i" "i < lba + n"
  then have "(i - lba) * 512 + 512 \<le> n * 512" by linarith
  from subslice_mem_slice [OF this] show ?thesis
    using i by (simp add: write_range_def)
qed

lemma secs_aligned:
  assumes "off \<le> n" and "off = q * 512"
  shows "secs n = q + secs (n - off)"
proof -
  have "n + 511 = (n - off + 511) + q * 512"
    using assms by simp
  then show ?thesis
    unfolding secs_def by (metis add.commute div_mult_self1 zero_neq_numeral)
qed

text \<open>The chunk at a sector-aligned offset: its sectors, and that only the last one may be short.\<close>

lemma chunk_facts:
  assumes "off < n" and "off mod 512 = 0"
  defines "k \<equiv> unat (chunk_sectors n off)"
  shows "0 < k" "k \<le> MODEL_IO_SECTORS" "off div 512 + k \<le> secs n"
    "(off + k * SECTOR_SIZE) div 512 = off div 512 + k" "(off + k * SECTOR_SIZE) mod 512 = 0"
    "off + k * SECTOR_SIZE < n \<or> off div 512 + k = secs n"
proof -
  define m where "m = min (n - off) (8192 * 512)"
  have k: "k = secs m"
    by (simp add: k_def unat_chunk_sectors m_def MODEL_IO_SECTORS_def SECTOR_SIZE_def)
  show "0 < k"
    unfolding k_def by (rule chunk_sectors_pos [OF assms(1)])
  have m: "m \<le> 8192 * 512" "m \<le> n - off" "m = n - off \<or> m = 8192 * 512"
    by (auto simp: m_def)
  show "k \<le> MODEL_IO_SECTORS"
    using secs_bounds(2) [of m] m(1) by (simp add: k MODEL_IO_SECTORS_def)
  obtain q where q: "off = q * 512"
    using assms(2) by (auto simp: mod_eq_0_iff_dvd elim!: dvdE)
  have sn: "secs n = q + secs (n - off)"
    by (rule secs_aligned [OF _ q]) (use assms(1) in simp)
  show "off div 512 + k \<le> secs n"
  proof -
    have "secs m \<le> secs (n - off)"
      using m(2) by (simp add: secs_def div_le_mono)
    then show ?thesis
      using sn q by (simp add: k)
  qed
  show "(off + k * SECTOR_SIZE) div 512 = off div 512 + k" "(off + k * SECTOR_SIZE) mod 512 = 0"
    by (simp_all add: q SECTOR_SIZE_def)
  show "off + k * SECTOR_SIZE < n \<or> off div 512 + k = secs n"
  proof (cases "m = n - off")
    case True
    then show ?thesis by (simp add: sn q k)
  next
    case False
    then have m': "m = 8192 * 512" "m < n - off"
      using m by auto
    then have "k * SECTOR_SIZE = m"
      by (simp add: k secs_def SECTOR_SIZE_def)
    then show ?thesis
      using m'(2) by linarith
  qed
qed

lemma dump_chunk:
  assumes "off < n" and "off mod 512 = 0"
  defines "m \<equiv> min 4096 (n - off)"
  shows "0 < secs m" "secs m \<le> 8" "off div 512 + secs m \<le> secs n"
    "\<not> off + m < n \<Longrightarrow> off div 512 + secs m = secs n"
    "off + m < n \<Longrightarrow> (off + m) mod 512 = 0 \<and> (off + m) div 512 = off div 512 + secs m"
    "0 < m"
proof -
  show m0: "0 < m"
    using assms(1) by (simp add: m_def)
  show "0 < secs m"
    by (rule secs_pos [OF m0])
  have m: "m \<le> 4096" "m \<le> n - off"
    by (auto simp: m_def)
  show "secs m \<le> 8"
    using secs_bounds(2) [of m] m(1) by linarith
  obtain q where q: "off = q * 512"
    using assms(2) by (auto simp: mod_eq_0_iff_dvd elim!: dvdE)
  have sn: "secs n = q + secs (n - off)"
    by (rule secs_aligned [OF _ q]) (use assms(1) in simp)
  have "secs m \<le> secs (n - off)"
    using m(2) by (simp add: secs_def div_le_mono)
  then show "off div 512 + secs m \<le> secs n"
    using sn q by simp
  show "off div 512 + secs m = secs n" if "\<not> off + m < n"
  proof -
    have "m = n - off"
      using that m(2) assms(1) by linarith
    then show ?thesis
      using sn q by simp
  qed
  show "(off + m) mod 512 = 0 \<and> (off + m) div 512 = off div 512 + secs m" if "off + m < n"
  proof -
    have "m = 4096"
      using that by (auto simp: m_def)
    then show ?thesis
      by (simp add: q secs_def)
  qed
qed

lemma lba_at:
  assumes "D + j < 2 ^ 48"
  shows "w64 D + word_of_nat j = w64 (D + j)" "unat (w64 (D + j)) = D + j" "unat (w64 (D + j)) < 2 ^ 48"
proof -
  show "w64 D + word_of_nat j = w64 (D + j)"
    by (simp add: w64_def)
  show "unat (w64 (D + j)) = D + j" "unat (w64 (D + j)) < 2 ^ 48"
    using assms unat_w64 [of "D + j"] by simp_all
qed

section \<open>The transfer loops\<close>

context ata_disk
begin

lemma write_model_loop_law:
  assumes "port_ready port st" and "off mod 512 = 0" and "off div 512 \<le> secs n" and "D + secs n < 2 ^ 48"
    and "write_model_loop hba st mem (w64 D) n off = (r, st')"
  shows "only_dev st st' \<and>
    (\<forall>i. i < D + off div 512 \<or> D + secs n \<le> i \<longrightarrow> sect (dev st') i = sect (dev st) i) \<and>
    (r = Inr () \<longrightarrow> (\<forall>i. D + off div 512 \<le> i \<and> i < D + secs n \<longrightarrow>
       sect (dev st') i = mem_slice mem ((i - D) * 512) 512))"
  using assms
proof (induction "n - off" arbitrary: st off rule: less_induct)
  case less
  show ?case
  proof (cases "off < n")
    case False
    then have "secs n \<le> off div 512"
      using less.prems(2) by (auto simp: secs_def mod_eq_0_iff_dvd elim!: dvdE)
    then show ?thesis
      using less.prems(5) False
      by (subst (asm) write_model_loop.simps) (auto simp: keeps_refl)
  next
    case True
    let ?q = "off div 512" and ?s = "chunk_sectors n off"
    define k where "k = unat ?s"
    note f = chunk_facts [OF True less.prems(2), folded k_def]
    note l = lba_at [of D ?q]
    have lt: "D + ?q < 2 ^ 48"
      using f less.prems(4) by linarith
    let ?b = "mem_slice mem off (k * 512)"
    obtain q1 s1 where w: "write_sectors hba st (w64 (D + ?q)) ?s ?b = (q1, s1)" by force
    have eq: "try_q (q1, s1) (\<lambda>_ st. write_model_loop hba st mem (w64 D) n (off + k * SECTOR_SIZE)) = (r, st')"
      using less.prems(5) [unfolded write_model_loop.simps [of hba st] if_P [OF True] Let_def] w l(1) [OF lt]
      by (simp add: SECTOR_SIZE_def k_def)
    have pre: "0 < unat ?s" "unat ?s \<le> MODEL_IO_SECTORS" "unat (w64 (D + ?q)) < 2 ^ 48" "length ?b = unat ?s * 512"
      using f l(3) [OF lt] by (simp_all add: k_def)
    note law = wr_law [OF less.prems(1) pre w, folded k_def, unfolded l(2) [OF lt]]
    note frame = write_outside [OF less.prems(1) pre w, folded k_def, unfolded l(2) [OF lt]]
    show ?thesis
    proof (cases "q1 = Inr ()")
      case False
      then show ?thesis
        using eq law frame f(3) by (cases q1) auto
    next
      case True
      have rec: "write_model_loop hba s1 mem (w64 D) n (off + k * SECTOR_SIZE) = (r, st')"
        using eq True by simp
      have r1: "port_ready port s1"
        using law less.prems(1) keeps_ready by blast
      have dec: "n - (off + k * SECTOR_SIZE) < n - off"
        using \<open>off < n\<close> f(1) by (simp add: SECTOR_SIZE_def)
      note IH = less.hyps [OF dec r1 f(5) _ less.prems(4) rec, unfolded f(4), OF f(3)]
      have mid: "sect (dev s1) i = mem_slice mem ((i - D) * 512) 512" if "D + ?q \<le> i" "i < D + ?q + k" for i
      proof -
        have "off + (i - (D + ?q)) * 512 = (i - D) * 512"
          using that less.prems(2) div_mult_mod_eq [of off 512] by (simp add: diff_mult_distrib)
        then show ?thesis
          using law True write_range_mem_slice [OF that] by simp
      qed
      have "sect (dev st') i = mem_slice mem ((i - D) * 512) 512"
        if "r = Inr ()" "D + ?q \<le> i" "i < D + secs n" for i
        using IH mid [OF that(2)] that by (cases "i < D + ?q + k") auto
      moreover have "sect (dev st') i = sect (dev st) i" if "i < D + ?q \<or> D + secs n \<le> i" for i
        using IH frame [of i] f(3) that by (auto simp: add.assoc)
      moreover have "only_dev st st'"
        using IH law keeps_trans by blast
      ultimately show ?thesis by blast
    qed
  qed
qed

lemma load_model_loop_law:
  assumes "port_ready port st" and "off mod 512 = 0" and "off div 512 \<le> secs n" and "D + secs n < 2 ^ 48"
    and "load_model_loop hba st (w64 D) n off acc = (r, st')"
  shows "only_dev st st' \<and> sect (dev st') = sect (dev st) \<and>
    (\<forall>m. r = Inr m \<longrightarrow> m = acc @ read_range (sect (dev st)) (D + off div 512) (secs n - off div 512) \<and>
      (off = 0 \<and> 0 < n \<longrightarrow> subslice (sect (dev st) D) 0 4 = ascii ''GGUF''))"
  using assms
proof (induction "n - off" arbitrary: st off acc rule: less_induct)
  case less
  show ?case
  proof (cases "off < n")
    case False
    then have "secs n \<le> off div 512"
      using less.prems(2) by (auto simp: secs_def mod_eq_0_iff_dvd elim!: dvdE)
    then show ?thesis
      using less.prems(5) False
      by (subst (asm) load_model_loop.simps) (auto simp: keeps_refl)
  next
    case True
    let ?q = "off div 512" and ?s = "chunk_sectors n off" and ?c = "sect (dev st)"
    define k where "k = unat ?s"
    note f = chunk_facts [OF True less.prems(2), folded k_def]
    note l = lba_at [of D ?q]
    have lt: "D + ?q < 2 ^ 48"
      using f less.prems(4) by linarith
    obtain q1 s1 where rd: "read_sectors hba st (w64 (D + ?q)) ?s = (q1, s1)" by force
    have eq: "try_q (q1, s1) (\<lambda>chunk st. if off = 0 \<and> subslice chunk 0 4 \<noteq> ascii ''GGUF'' then (Inl (), st)
        else load_model_loop hba st (w64 D) n (off + k * SECTOR_SIZE) (acc @ chunk)) = (r, st')"
      using less.prems(5) [unfolded load_model_loop.simps [of hba st] if_P [OF True] Let_def] rd l(1) [OF lt]
      unfolding k_def SECTOR_SIZE_def by simp
    have pre: "0 < unat ?s" "unat ?s \<le> MODEL_IO_SECTORS"
      using f by (simp_all add: k_def)
    note law = rd_law [OF less.prems(1) pre rd, folded k_def, unfolded l(2) [OF lt]]
    show ?thesis
    proof (cases "r = Inl () \<and> st' = s1")
      case True
      then show ?thesis using law by simp
    next
      case ok: False
      then have q1: "q1 = Inr (read_range ?c (D + ?q) k)"
        using eq law lt by (cases q1) auto
      have gg: "off = 0 \<Longrightarrow> subslice (read_range ?c (D + ?q) k) 0 4 = ascii ''GGUF''"
        and rec: "load_model_loop hba s1 (w64 D) n (off + k * SECTOR_SIZE) (acc @ read_range ?c (D + ?q) k) = (r, st')"
        using eq q1 ok by (auto split: if_splits)
      have "subslice (read_range ?c D k) 0 4 = subslice (?c D) 0 4"
        using read_range_add [of ?c D 1 "k - 1"] f(1) sect_length [of "dev st" D] by (simp add: subslice_def)
      then have g: "off = 0 \<Longrightarrow> subslice (?c D) 0 4 = ascii ''GGUF''"
        using gg by simp
      have r1: "port_ready port s1"
        using law less.prems(1) keeps_ready by blast
      have dec: "n - (off + k * SECTOR_SIZE) < n - off"
        using True f(1) by (simp add: SECTOR_SIZE_def)
      note IH = less.hyps [OF dec r1 f(5) _ less.prems(4) rec, unfolded f(4), OF f(3)]
      have "read_range ?c (D + ?q) (secs n - ?q)
          = read_range ?c (D + ?q) k @ read_range ?c (D + (?q + k)) (secs n - (?q + k))"
        using read_range_add [of ?c "D + ?q" k "secs n - (?q + k)"] f(3) by (simp add: add.assoc)
      then show ?thesis
        using IH law g keeps_trans [of st s1 st'] by auto
    qed
  qed
qed

end

section \<open>The header\<close>

lemma model_consts:
  "MODEL_FIXED_CACHE_LBA = w64 2048" "MODEL_FIXED_CACHE_LBA + MODEL_HEADER_SECTORS = w64 2056"
  "w64 2048 + MODEL_HEADER_SECTORS = w64 2056" "w64 2048 + 1 = w64 2049"
  by (simp_all add: MODEL_FIXED_CACHE_LBA_def MODEL_HEADER_SECTORS_def w64_def)

lemma length_model_magics [simp]:
  "length MODEL_MAGIC_READY = 8" "length MODEL_MAGIC_WRITING = 8" "length MODEL_CACHE_TAG = 8"
  by (simp_all add: MODEL_MAGIC_READY_def MODEL_MAGIC_WRITING_def MODEL_CACHE_TAG_def ascii_def)

lemma magics_differ: "MODEL_MAGIC_WRITING \<noteq> MODEL_MAGIC_READY"
  by (simp add: MODEL_MAGIC_READY_def MODEL_MAGIC_WRITING_def ascii_def)

lemma write_model_header_fields:
  assumes "length tag = 8"
  shows "length (write_model_header tag n l) = 512" "subslice (write_model_header tag n l) 0 8 = tag"
    "le_u64 (write_model_header tag n l) 8 = n" "le_u64 (write_model_header tag n l) 16 = l"
    "subslice (write_model_header tag n l) 24 32 = MODEL_CACHE_TAG"
  using assms by (simp_all add: write_model_header_def le_u64_def slice_simps length_overwrite)

text \<open>
  \<open>cache_holds c mem n\<close>: the sectors hold the ready header for a model of \<open>n\<close> bytes and the model's
  sectors.  \<open>cache_fixed\<close>: the driver uses, or has yet to choose, the fixed cache LBA.
\<close>

definition cache_holds :: "(nat \<Rightarrow> bytes) \<Rightarrow> (nat \<Rightarrow> u8) \<Rightarrow> nat \<Rightarrow> bool" where
  "cache_holds c mem n \<longleftrightarrow>
    c 2048 = write_model_header MODEL_MAGIC_READY (word_of_nat n) (w64 2056) \<and>
    (\<forall>i < secs n. c (2056 + i) = mem_slice mem (i * 512) 512)"

definition cache_fixed :: "'d ahci \<Rightarrow> bool" where
  "cache_fixed st \<longleftrightarrow> model_cache_start_lba st \<in> {None, Some (w64 2048)}"

lemma discover_fixed:
  "cache_fixed st \<Longrightarrow> discover_model_cache_lba st = (Some (w64 2048), st\<lparr>model_cache_start_lba := Some (w64 2048)\<rparr>)"
  by (cases st) (auto simp: cache_fixed_def discover_model_cache_lba_def model_consts once_set_def)

lemma db_registers_model: "db_registers L st st' \<Longrightarrow> model_info st' = model_info st"
  by (cases st, cases st') (auto simp: db_registers_def memory_db_register_state_def)

text \<open>The database depends on the sectors from its header on.\<close>

lemma db_log_from:
  assumes "\<forall>i. L \<le> i \<longrightarrow> c' i = c i"
  shows "db_log c' L log = db_log c L log" "db_cursor_ok c' L = db_cursor_ok c L"
proof -
  have hdr: "db_header c' L = db_header c L"
    using assms by (intro ext) (simp add: db_header_def)
  then show "db_cursor_ok c' L = db_cursor_ok c L"
    by (simp add: db_cursor_ok_def)
  have "db_entry c' L log k = db_entry c L log k" for k
    using assms log_start_ge [of L "take k log"] by (intro db_entry_cong) (auto simp: db_layout)
  then show "db_log c' L log = db_log c L log"
    using assms hdr by (simp add: db_log_def db_map_def map_at_def)
qed

lemma writing_not_ok: "\<not> model_header_ok (write_model_header MODEL_MAGIC_WRITING n l) cache_lba"
  using magics_differ by (simp add: model_header_ok_def write_model_header_fields)

lemma ready_ok:
  assumes "MIN_RAW_MODEL_SIZE \<le> n" and "n \<le> MAX_RAW_MODEL_SIZE"
  shows "model_header_ok (write_model_header MODEL_MAGIC_READY (word_of_nat n) (w64 2056)) (w64 2048)"
    and "unat (word_of_nat n :: u64) = n"
proof -
  show n: "unat (word_of_nat n :: u64) = n"
    using assms by (intro unat_of_nat64) (simp add: MAX_RAW_MODEL_SIZE_def)
  show "model_header_ok (write_model_header MODEL_MAGIC_READY (word_of_nat n) (w64 2056)) (w64 2048)"
    using assms n by (auto simp: model_header_ok_def write_model_header_fields model_consts MIN_RAW_MODEL_SIZE_def)
qed

lemma read_range_cache_holds:
  assumes "cache_holds c mem n"
  shows "take n (read_range c 2056 (secs n)) = mem_slice mem 0 n"
proof -
  have "read_range c 2056 k = mem_slice mem 0 (k * 512)" if "k \<le> secs n" for k
    using that
  proof (induction k)
    case (Suc k)
    then show ?case
      using assms mem_slice_split [of mem 0 "k * 512" 512]
      by (simp add: read_range_Suc cache_holds_def add.commute)
  qed (simp add: mem_slice_def)
  from this [OF order_refl] show ?thesis
    using secs_bounds(1) [of n] by (simp add: take_mem_slice)
qed

section \<open>Writing and loading\<close>

lemma sectors_w64: "n < 2 ^ 64 \<Longrightarrow> sectors_for_bytes n = w64 (secs n)"
proof -
  assume n: "n < 2 ^ 64"
  have "secs n < 2 ^ 64"
    using secs_bounds(2) [of n] n by simp
  then show ?thesis
    by (simp add: word_unat_eq_iff unat_sectors_for_bytes [OF n] unat_w64)
qed

text \<open>What an attempt to write the model leaves: everything, nothing, or no ready header.\<close>

definition cache_attempt :: "(nat \<Rightarrow> bytes) \<Rightarrow> (nat \<Rightarrow> bytes) \<Rightarrow> (nat \<Rightarrow> u8) \<Rightarrow> nat \<Rightarrow> bool" where
  "cache_attempt c c' mem n \<longleftrightarrow> cache_holds c' mem n \<or> \<not> model_header_ok (c' 2048) (w64 2048) \<or>
    c' 2048 = c 2048 \<and> (\<forall>i. 2050 \<le> i \<longrightarrow> c' i = c i)"

context ata_disk
begin

lemma smoke_law:
  assumes "port_ready port st" and "smoke_test_raw_model_cache hba st (w64 2048) = (r, st')"
  shows "only_dev st st' \<and> (\<forall>i. i \<noteq> 2049 \<longrightarrow> sect (dev st') i = sect (dev st) i)"
proof -
  let ?b = "overwrite (overwrite zero_sector 0 (ascii ''HSMOKE01'')) 8 (u64_to_le_bytes (w64 2049))"
  have len: "length ?b = 512"
    by (simp add: length_overwrite ascii_def)
  have u: "unat (w64 2049) = 2049" "unat (w64 2049) < 2 ^ 48"
    by (simp_all add: unat_w64)
  obtain q1 s1 where w: "write_sectors hba st (w64 2049) 1 ?b = (q1, s1)" by force
  note one = write_one [OF assms(1) u(2) len w]
  obtain q2 s2 where rd: "read_sectors hba s1 (w64 2049) 1 = (q2, s2)" by force
  note two = read_any [OF keeps_ready [OF one(1) assms(1)] rd]
  have "st' = s1 \<or> st' = s2"
    using assms(2) w rd
    by (cases q1; cases q2) (auto simp: smoke_test_raw_model_cache_def model_consts Let_def split: if_splits)
  then show ?thesis
    using one two keeps_trans [of st s1 s2] u(1) by auto
qed

lemma write_model_at_law:
  assumes "port_ready port st" and n: "n < 2 ^ 64" and bound: "end_at (2056 + secs n) < 2 ^ 48"
    and wr: "write_model_at hba st mem (w64 2048) (w64 2056) n = (r, st')"
  shows "(\<forall>i. i < 2048 \<or> 2049 \<le> i \<and> i < 2056 \<or> data_at (2056 + secs n) \<le> i \<longrightarrow> sect (dev st') i = sect (dev st) i) \<and>
    (r = Inr () \<longrightarrow> cache_holds (sect (dev st')) mem n) \<and>
    (cache_holds (sect (dev st')) mem n \<or> \<not> model_header_ok (sect (dev st') 2048) (w64 2048) \<or>
      sect (dev st') = sect (dev st))"
proof -
  let ?c = "sect (dev st)" and ?L = "2056 + secs n"
  let ?W = "write_model_header MODEL_MAGIC_WRITING (word_of_nat n) (w64 2056)"
  let ?R = "write_model_header MODEL_MAGIC_READY (word_of_nat n) (w64 2056)"
  have u: "unat (w64 2048) = 2048" "unat (w64 2048) < 2 ^ 48" and len: "length ?W = 512" "length ?R = 512"
    by (simp_all add: unat_w64 write_model_header_fields)
  have Ll: "?L < data_at ?L" "2056 + secs n < 2 ^ 48" "2048 < data_at ?L"
    using bound by (simp_all add: db_layout)
  obtain q1 s1 where w1: "write_sectors hba st (w64 2048) 1 ?W = (q1, s1)" by force
  note one = write_one [OF assms(1) u(2) len(1) w1, unfolded u(1)]
  have r1: "port_ready port s1"
    using one(1) assms(1) keeps_ready by blast
  show ?thesis
  proof (cases "q1 = Inr ()")
    case False
    then have "st' = s1" "r = Inl ()"
      using wr w1 by (cases q1; simp add: write_model_at_def)+
    then show ?thesis
      using one writing_not_ok Ll by auto
  next
    case True
    note c1 = one(2) [OF True]
    obtain q2 s2 where lp: "write_model_loop hba s1 mem (w64 2056) n 0 = (q2, s2)" by force
    note two = write_model_loop_law [OF r1 _ _ Ll(2) lp, simplified]
    have h2: "sect (dev s2) 2048 = ?W"
      using two c1 by simp
    have fr2: "sect (dev s2) i = ?c i" if "i < 2048 \<or> 2049 \<le> i \<and> i < 2056 \<or> ?L \<le> i" for i
      using two c1 that by (auto simp: fun_upd_apply)
    show ?thesis
    proof (cases "q2 = Inr ()")
      case False
      then have "st' = s2" "r = Inl ()"
        using wr w1 True lp by (cases q2; simp add: write_model_at_def)+
      then show ?thesis
        using h2 fr2 Ll writing_not_ok by auto
    next
      case True2: True
      obtain q3 s3 where w3: "write_sectors hba s2 (w64 2048) 1 ?R = (q3, s3)" by force
      have r2: "port_ready port s2"
        using two r1 keeps_ready by blast
      note three = write_one [OF r2 u(2) len(2) w3, unfolded u(1)]
      have data2: "\<forall>i < secs n. sect (dev s2) (2056 + i) = mem_slice mem (i * 512) 512"
        using two True2 by auto
      have h3: "sect (dev s3) = sect (dev s2) \<or> cache_holds (sect (dev s3)) mem n"
        using three(3) data2 by (auto simp: cache_holds_def)
      have fr3: "sect (dev s3) i = ?c i" if "i < 2048 \<or> 2049 \<le> i \<and> i < 2056 \<or> ?L \<le> i" for i
        using three(3) fr2 [OF that] that by auto
      show ?thesis
      proof (cases "q3 = Inr ()")
        case False
        then have "st' = s3" "r = Inl ()"
          using wr w1 True lp True2 w3 by (cases q3; simp add: write_model_at_def)+
        then show ?thesis
          using h2 h3 fr3 Ll writing_not_ok by auto
      next
        case True3: True
        have c3: "cache_holds (sect (dev s3)) mem n"
          using three(2) [OF True3] data2 by (simp add: cache_holds_def)
        define last where "last = w64 2056 + sat_sub64 (w64 (secs n)) 1"
        obtain q4 s4 where en: "ensure_memory_db hba s3 (w64 ?L) (w64 2056) last = (q4, s4)" by force
        have st': "st' = s4" "r = Inr ()"
          using wr w1 True lp True2 w3 True3 en
          by (simp_all add: write_model_at_def Let_def sectors_w64 [OF n] w64_add last_def)
        have fr4: "\<forall>i. i < ?L \<or> data_at ?L \<le> i \<longrightarrow> sect (dev s4) i = sect (dev s3) i"
          using ensure_law [OF keeps_ready [OF three(1) r2] bound en] by blast
        then have "cache_holds (sect (dev s4)) mem n"
          using c3 by (simp add: cache_holds_def)
        then show ?thesis
          using st' fr4 fr3 Ll by auto
      qed
    qed
  qed
qed

lemma write_cache_law:
  assumes st: "port_ready port st" "cache_fixed st" and n: "n < 2 ^ 64" and bound: "end_at (2056 + secs n) < 2 ^ 48"
    and wr: "write_raw_model_cache hba st mem n = (r, st')"
  shows "(\<forall>i. i < 2048 \<or> 2050 \<le> i \<and> i < 2056 \<or> data_at (2056 + secs n) \<le> i \<longrightarrow> sect (dev st') i = sect (dev st) i) \<and>
    (r = Inr () \<longrightarrow> cache_holds (sect (dev st')) mem n) \<and>
    cache_attempt (sect (dev st)) (sect (dev st')) mem n"
proof -
  let ?s = "st\<lparr>model_cache_start_lba := Some (w64 2048)\<rparr>"
  have s: "port_ready port ?s" "dev ?s = dev st"
    using st(1) by (simp_all add: port_ready_def)
  obtain q1 s1 where sm: "smoke_test_raw_model_cache hba ?s (w64 2048) = (q1, s1)" by force
  note one = smoke_law [OF s(1) sm, unfolded s(2)]
  have eq: "(if \<not> raw_model_range_fits ?s (w64 2056) n then (Inl (), ?s)
      else try_q (q1, s1) (\<lambda>_ st. write_model_at hba st mem (w64 2048) (w64 2056) n)) = (r, st')"
    using wr by (simp only: write_raw_model_cache_def discover_fixed [OF st(2)] prod.case option.case
        Let_def model_consts sm)
  show ?thesis
  proof (cases "raw_model_range_fits ?s (w64 2056) n \<and> q1 = Inr ()")
    case False
    then have "r = Inl () \<and> (dev st' = dev st \<or> st' = s1)"
      using eq s(2) by (cases q1) (auto split: if_splits)
    then show ?thesis
      using one by (auto simp: cache_attempt_def db_layout)
  next
    case True
    then have "write_model_at hba s1 mem (w64 2048) (w64 2056) n = (r, st')"
      using eq by simp
    note two = write_model_at_law [OF keeps_ready [OF conjunct1 [OF one] s(1)] n bound this]
    have "sect (dev s1) i = sect (dev st) i" if "i < 2048 \<or> 2050 \<le> i" for i
      using one that by auto
    moreover have "sect (dev s1) 2048 = sect (dev st) 2048"
      using one by simp
    ultimately show ?thesis
      using two by (auto simp: cache_attempt_def db_layout)
  qed
qed

lemma verify_extent_law:
  assumes "port_ready port st" and n: "n < 2 ^ 64" and bound: "end_at (2056 + secs n) < 2 ^ 48"
    and ve: "verify_raw_model_extent hba st (w64 2056) n = (ok, st')"
  shows "port_ready port st' \<and> model_info st' = model_info st \<and>
    (\<forall>i. i < 2056 + secs n \<or> data_at (2056 + secs n) \<le> i \<longrightarrow> sect (dev st') i = sect (dev st) i)"
proof -
  let ?L = "2056 + secs n"
  define last where "last = w64 2056 + w64 (secs n) - 1"
  obtain q1 s1 where rd: "read_sectors hba st last 1 = (q1, s1)" by force
  note one = read_any [OF assms(1) rd]
  define s2 where "s2 = (case ssd_sector_count s1 of
      Some capacity_sectors \<Rightarrow> if w64 ?L < capacity_sectors then snd (read_sectors hba s1 (w64 ?L) 1) else s1
    | None \<Rightarrow> s1)"
  have r1: "port_ready port s1"
    using one(1) assms(1) keeps_ready by blast
  have s2: "only_dev s1 s2" "sect (dev s2) = sect (dev s1)"
    using read_any [OF r1, of "w64 ?L" "fst (read_sectors hba s1 (w64 ?L) 1)" "snd (read_sectors hba s1 (w64 ?L) 1)"]
    by (auto simp: s2_def keeps_refl split: option.split)
  obtain q3 s3 where en: "ensure_memory_db hba s2 (w64 ?L) (w64 2056) last = (q3, s3)" by force
  note law = ensure_law [OF keeps_ready [OF s2(1) r1] bound en]
  have "st' = st \<or> st' = s1 \<or> st' = s3"
    using ve rd en
    by (cases q1) (auto simp: verify_raw_model_extent_def Let_def sectors_w64 [OF n] w64_add last_def s2_def
        split: if_splits)
  moreover have "port_ready port s3" "model_info s3 = model_info st"
    "\<forall>i. i < ?L \<or> data_at ?L \<le> i \<longrightarrow> sect (dev s3) i = sect (dev st) i"
    using law db_registers_ready [OF _ keeps_ready [OF s2(1) r1]] db_registers_model [OF conjunct1 [OF law]]
      only_devD(4) [OF one(1)] only_devD(4) [OF s2(1)] one s2 by auto
  ultimately show ?thesis
    using assms(1) r1 one only_devD(4) [OF one(1)] by auto
qed

lemma load_law:
  assumes st: "port_ready port st" "cache_fixed st" "model_info st = None"
    and ld: "try_load_raw_model hba st alloc_ok = (ok, st')"
  defines "h \<equiv> sect (dev st) 2048"
  defines "n \<equiv> unat (le_u64 h 8)"
  shows "(ok \<longrightarrow> alloc_ok \<and> model_header_ok h (w64 2048) \<and>
      model_info st' = Some (take n (read_range (sect (dev st)) 2056 (secs n)), ''ssd-cache'') \<and>
      subslice (sect (dev st) 2056) 0 4 = ascii ''GGUF'') \<and>
    (\<not> ok \<longrightarrow> model_info st' = None) \<and>
    (\<forall>i. i < 2056 + secs n \<or> data_at (2056 + secs n) \<le> i \<longrightarrow> sect (dev st') i = sect (dev st) i)"
proof -
  let ?s = "st\<lparr>model_cache_start_lba := Some (w64 2048)\<rparr>"
  have s: "port_ready port ?s" "dev ?s = dev st" "model_info ?s = None"
    using st by (simp_all add: port_ready_def)
  obtain q1 s1 where rd: "read_sectors hba ?s (w64 2048) 1 = (q1, s1)" by force
  have "unat (w64 2048) = 2048" "unat (w64 2048) < 2 ^ 48"
    by (simp_all add: unat_w64)
  note one = read_one [OF s(1) this(2) rd, unfolded this(1) s(2)]
  have mi1: "model_info s1 = None"
    using only_devD(4) [OF one(1)] s(3) by simp
  note eq = ld [unfolded try_load_raw_model_def st(3) discover_fixed [OF st(2)]]
  show ?thesis
  proof (cases "q1 = Inr h \<and> model_header_ok h (w64 2048)")
    case False
    then have "\<not> ok \<and> st' = s1"
      using eq rd one(3) by (auto simp: h_def)
    then show ?thesis
      using one mi1 by simp
  next
    case True
    then have lba: "le_u64 h 16 = w64 2056" and nb: "n \<le> 8 * 1024 * 1024 * 1024" "0 < n"
      by (auto simp: model_header_ok_def model_consts n_def MAX_RAW_MODEL_SIZE_def)
    have n64: "n < 2 ^ 64"
      using nb by simp
    have "secs n * 512 < n + 512"
      by (rule secs_bounds)
    then have bound: "end_at (2056 + secs n) < 2 ^ 48"
      using nb by (simp add: db_layout)
    have la: "load_model_at hba s1 alloc_ok (w64 2056) n = (ok, st')"
      using eq rd True lba by (simp add: n_def)
    obtain v s2 where ve: "verify_raw_model_extent hba s1 (w64 2056) n = (v, s2)" by force
    note two = verify_extent_law [OF keeps_ready [OF one(1) s(1)] n64 bound ve]
    obtain q3 s3 where lp: "load_model_loop hba s2 (w64 2056) n 0 [] = (q3, s3)" by force
    have r2: "port_ready port s2" using two by blast
    have "2056 + secs n < 2 ^ 48"
      using bound by (simp add: db_layout)
    note three = load_model_loop_law [OF r2 _ _ this lp, simplified]
    have same: "sect (dev s2) i = sect (dev st) i" if "i < 2056 + secs n" for i
      using two one(2) that by simp
    have rr: "read_range (sect (dev s2)) 2056 (secs n) = read_range (sect (dev st)) 2056 (secs n)"
      using same by (intro read_range_cong) simp
    have g: "sect (dev s2) 2056 = sect (dev st) 2056"
      using same secs_pos [OF nb(2)] by simp
    have mi: "model_info s2 = None" "model_info s3 = None"
      using two mi1 three only_devD(4) [of s2 s3] by auto
    consider "st' \<in> {s1, s2, s3}" "\<not> ok"
      | m where "q3 = Inr m" "st' = set_model_info_with_source s3 (take n m) ''ssd-cache''" "ok" "alloc_ok"
      using la ve lp by (cases q3) (auto simp: load_model_at_def split: if_splits)
    then show ?thesis
    proof cases
      case 1
      then show ?thesis
        using mi mi1 two three one(2) by auto
    next
      case (2 m)
      then show ?thesis
        using three two one(2) rr g nb(2) True by (auto simp: set_model_info_with_source_def)
    qed
  qed
qed

lemma write_model_loop_live:
  assumes "port_ready port st" and "io_ok hba st" and "off mod 512 = 0" and "D + secs n < 2 ^ 48"
  shows "returns_ok (write_model_loop hba st mem (w64 D) n off)"
  using assms
proof (induction "n - off" arbitrary: st off rule: less_induct)
  case less
  show ?case
  proof (cases "off < n")
    case True
    let ?q = "off div 512" and ?s = "chunk_sectors n off"
    note f = chunk_facts [OF True less.prems(3)]
    have lt: "D + ?q < 2 ^ 48"
      using f less.prems(4) by linarith
    let ?b = "mem_slice mem off (unat ?s * 512)"
    have "returns_ok (write_model_loop hba s mem (w64 D) n (off + unat ?s * SECTOR_SIZE))"
      if w: "write_sectors hba st (w64 (D + ?q)) ?s ?b = (Inr x, s)" for x s
    proof -
      have dev: "only_dev st s"
        using wr_law [OF less.prems(1) f(1,2) lba_at(3) [OF lt] _ w] by simp
      show ?thesis
        using f(5) less.prems(4) keeps_ready [OF dev less.prems(1)] io_ok_dev [OF dev less.prems(2)]
        by (intro less.hyps chunk_decreases True)
    qed
    then show ?thesis
      unfolding write_model_loop.simps [of hba st mem "w64 D" n off] if_P [OF True] Let_def
      unfolding SECTOR_SIZE_def lba_at(1) [OF lt]
      by (rule try_q_ok [OF io_ok_write [OF less.prems(2)]])
  qed (simp add: write_model_loop.simps [of hba st mem "w64 D" n off])
qed

lemma load_model_loop_live:
  assumes "port_ready port st" and "io_ok hba st" and "off mod 512 = 0" and "D + secs n < 2 ^ 48"
    and "off = 0 \<longrightarrow> subslice (sect (dev st) D) 0 4 = ascii ''GGUF''"
  shows "returns_ok (load_model_loop hba st (w64 D) n off acc)"
  using assms
proof (induction "n - off" arbitrary: st off acc rule: less_induct)
  case less
  show ?case
  proof (cases "off < n")
    case True
    let ?q = "off div 512" and ?s = "chunk_sectors n off"
    note f = chunk_facts [OF True less.prems(3)]
    have lt: "D + ?q < 2 ^ 48"
      using f less.prems(4) by linarith
    have "returns_ok (if off = 0 \<and> subslice x 0 4 \<noteq> ascii ''GGUF'' then (Inl (), s)
        else load_model_loop hba s (w64 D) n (off + unat ?s * SECTOR_SIZE) (acc @ x))"
      if rd: "read_sectors hba st (w64 (D + ?q)) ?s = (Inr x, s)" for x s
    proof -
      note law = rd_law [OF less.prems(1) f(1,2) rd, unfolded lba_at(2) [OF lt]]
      have x: "x = read_range (sect (dev st)) (D + ?q) (unat ?s)"
        using law lt by simp
      have "subslice (read_range (sect (dev st)) D (unat ?s)) 0 4 = subslice (sect (dev st) D) 0 4"
        using read_range_add [of "sect (dev st)" D 1 "unat ?s - 1"] f(1) sect_length [of "dev st" D]
        by (simp add: subslice_def)
      then have "off = 0 \<longrightarrow> subslice x 0 4 = ascii ''GGUF''"
        using x less.prems(5) by auto
      moreover have dev: "only_dev st s"
        using law by blast
      have "returns_ok (load_model_loop hba s (w64 D) n (off + unat ?s * SECTOR_SIZE) (acc @ x))"
        using f(1,5) less.prems(4) keeps_ready [OF dev less.prems(1)] io_ok_dev [OF dev less.prems(2)]
        by (intro less.hyps chunk_decreases True) (simp_all add: SECTOR_SIZE_def)
      ultimately show ?thesis by auto
    qed
    then show ?thesis
      unfolding load_model_loop.simps [of hba st "w64 D" n off] if_P [OF True] Let_def
      unfolding SECTOR_SIZE_def lba_at(1) [OF lt]
      by (rule try_q_ok [OF io_ok_read [OF less.prems(2)]])
  qed (simp add: load_model_loop.simps [of hba st "w64 D" n off])
qed

lemma smoke_live:
  assumes "port_ready port st" and "io_ok hba st"
  shows "returns_ok (smoke_test_raw_model_cache hba st (w64 2048))"
proof -
  let ?b = "overwrite (overwrite zero_sector 0 (ascii ''HSMOKE01'')) 8 (u64_to_le_bytes (w64 2049))"
  have len: "length ?b = 512"
    by (simp add: length_overwrite ascii_def)
  have u: "unat (w64 2049) = 2049" "unat (w64 2049) < 2 ^ 48"
    by (simp_all add: unat_w64)
  have "returns_ok (try_q (read_sectors hba s (w64 2049) 1) (\<lambda>read_buf st.
      if subslice read_buf 0 16 \<noteq> subslice ?b 0 16 then (Inl (), st) else (Inr (), st)))"
    if w: "write_sectors hba st (w64 2049) 1 ?b = (Inr x, s)" for x s
  proof -
    note one = write_one [OF assms(1) u(2) len w]
    have "x2 = ?b" if "read_sectors hba s (w64 2049) 1 = (Inr x2, s2)" for x2 s2
      using read_one(3) [OF keeps_ready [OF one(1) assms(1)] u(2) that] one(2) u(1) by simp
    then show ?thesis
      by (intro try_q_ok io_ok_read [OF io_ok_dev [OF one(1) assms(2)]]) auto
  qed
  then show ?thesis
    unfolding smoke_test_raw_model_cache_def model_consts Let_def
    by (rule try_q_ok [OF io_ok_write [OF assms(2)]])
qed

lemma write_model_at_live:
  assumes "port_ready port st" and io: "io_ok hba st" and lt: "2056 + secs n < 2 ^ 48"
  shows "returns_ok (write_model_at hba st mem (w64 2048) (w64 2056) n)"
proof -
  have u: "unat (w64 2048) < 2 ^ 48"
    by (simp add: unat_w64)
  have keep: "only_dev s s1" if "port_ready port s" "write_sectors hba s (w64 2048) 1 (write_model_header tag a b) = (x, s1)"
    "length tag = 8" for s s1 tag a b x
    using write_one(1) [OF that(1) u _ that(2)] that(3) by (simp add: write_model_header_fields)
  show ?thesis
    unfolding write_model_at_def
  proof (rule try_q_ok [OF io_ok_write [OF io]], rule try_q_ok, goal_cases)
    case (1 x s)
    note dev = keep [OF assms(1) 1 length_model_magics(2)]
    show ?case
      using keeps_ready [OF dev assms(1)] io_ok_dev [OF dev io] lt
      by (intro write_model_loop_live) simp_all
  next
    case (2 x s y s2)
    note dev = keep [OF assms(1) 2(1) length_model_magics(2)]
    have "only_dev s s2"
      using write_model_loop_law [OF keeps_ready [OF dev assms(1)] _ _ lt 2(2)] by simp
    then have "io_ok hba s2"
      using io_ok_dev dev io by blast
    then show ?case
      by (intro try_q_ok io_ok_write) (simp_all add: Let_def)
  qed
qed

lemma write_cache_live:
  assumes st: "port_ready port st" "cache_fixed st" and io: "io_ok hba st" and lt: "2056 + secs n < 2 ^ 48"
    and fits: "raw_model_range_fits st (w64 2056) n"
  shows "returns_ok (write_raw_model_cache hba st mem n)"
proof -
  let ?s = "st\<lparr>model_cache_start_lba := Some (w64 2048)\<rparr>"
  have s: "port_ready port ?s" "io_ok hba ?s" "raw_model_range_fits ?s (w64 2056) n"
    using st(1) io fits io_ok_statics [of ?s st hba] by (simp_all add: port_ready_def raw_model_range_fits_def)
  have "returns_ok (write_model_at hba s1 mem (w64 2048) (w64 2056) n)"
    if "smoke_test_raw_model_cache hba ?s (w64 2048) = (Inr x, s1)" for x s1
  proof -
    have dev: "only_dev ?s s1"
      using smoke_law [OF s(1) that] by blast
    show ?thesis
      by (rule write_model_at_live [OF keeps_ready [OF dev s(1)] io_ok_dev [OF dev s(2)] lt])
  qed
  then have "returns_ok (try_q (smoke_test_raw_model_cache hba ?s (w64 2048))
      (\<lambda>_ st. write_model_at hba st mem (w64 2048) (w64 2056) n))"
    by (rule try_q_ok [OF smoke_live [OF s(1,2)]])
  then show ?thesis
    using s(3) by (simp only: write_raw_model_cache_def discover_fixed [OF st(2)] prod.case option.case
        Let_def model_consts not_True_eq_False if_False simp_thms)
qed

lemma verify_extent_live:
  assumes "io_ok hba st" and "0 < n" and "n < 2 ^ 64"
  shows "fst (verify_raw_model_extent hba st (w64 2056) n)"
proof -
  have "secs n * 512 < n + 512"
    by (rule secs_bounds)
  then have "unat (w64 (secs n)) = secs n"
    using assms(3) by (simp add: unat_w64)
  then have "w64 (secs n) \<noteq> 0"
    using secs_pos [OF assms(2)] by (auto simp: word_unat_eq_iff)
  then show ?thesis
    using io_ok_read [OF assms(1), of "w64 2056 + w64 (secs n) - 1" 1]
    by (cases "read_sectors hba st (w64 2056 + w64 (secs n) - 1) 1"; cases "fst (read_sectors hba st (w64 2056 + w64 (secs n) - 1) 1)")
      (auto simp: verify_raw_model_extent_def Let_def sectors_w64 [OF assms(3)])
qed

lemma verify_extent_io:
  assumes "port_ready port st" and io: "io_ok hba st" and n: "n < 2 ^ 64" and bound: "end_at (2056 + secs n) < 2 ^ 48"
    and ve: "verify_raw_model_extent hba st (w64 2056) n = (ok, st')"
  shows "io_ok hba st'"
proof -
  let ?L = "2056 + secs n"
  define last where "last = w64 2056 + w64 (secs n) - 1"
  obtain q1 s1 where rd: "read_sectors hba st last 1 = (q1, s1)" by force
  note one = read_any [OF assms(1) rd]
  have r1: "port_ready port s1"
    using one(1) assms(1) keeps_ready by blast
  have ens: "io_ok hba (snd (ensure_memory_db hba s2 (w64 ?L) (w64 2056) last))" if "only_dev s1 s2" for s2
  proof -
    obtain q3 s3 where en: "ensure_memory_db hba s2 (w64 ?L) (w64 2056) last = (q3, s3)" by force
    have "db_registers ?L s2 s3"
      using ensure_law [OF keeps_ready [OF that r1] bound en] by blast
    from db_registers_io [OF this io_ok_dev [OF that io_ok_dev [OF one(1) io]]] show ?thesis
      by (simp add: en)
  qed
  have "only_dev s1 (snd (read_sectors hba s1 (w64 ?L) 1))"
    using read_any(1) [OF r1, of "w64 ?L"] by (metis prod.collapse)
  then show ?thesis
    using ve rd ens ens [OF keeps_refl] io io_ok_dev [OF one(1) io]
    by (cases q1) (auto simp: verify_raw_model_extent_def Let_def sectors_w64 [OF n] w64_add last_def
        split: if_splits option.splits)
qed

lemma load_live:
  assumes st: "port_ready port st" "cache_fixed st" and io: "io_ok hba st"
    and holds: "cache_holds (sect (dev st)) mem n" and n: "MIN_RAW_MODEL_SIZE \<le> n" "n \<le> MAX_RAW_MODEL_SIZE"
    and fits: "raw_model_range_fits st (w64 2056) n" and gguf: "mem_slice mem 0 4 = ascii ''GGUF''"
  shows "fst (try_load_raw_model hba st True)"
proof (cases "model_info st")
  case None
  let ?s = "st\<lparr>model_cache_start_lba := Some (w64 2048)\<rparr>"
  have s: "port_ready port ?s" "io_ok hba ?s"
    using st(1) io io_ok_statics [of ?s st hba] by (simp_all add: port_ready_def)
  obtain q1 s1 where rd: "read_sectors hba ?s (w64 2048) 1 = (q1, s1)" by force
  have u: "unat (w64 2048) = 2048" "unat (w64 2048) < 2 ^ 48"
    by (simp_all add: unat_w64)
  have dev1: "only_dev ?s s1" "sect (dev s1) = sect (dev st)" and q1: "q1 = Inr (sect (dev st) 2048)"
    using read_one [OF s(1) u(2) rd] io_ok_reads [OF s(2)] u(1) by auto
  have hdr: "model_header_ok (sect (dev st) 2048) (w64 2048)" "le_u64 (sect (dev st) 2048) 16 = w64 2056"
    "unat (le_u64 (sect (dev st) 2048) 8) = n"
    using ready_ok [OF n] holds by (simp_all add: cache_holds_def write_model_header_fields)
  have nb: "0 < n" "n < 2 ^ 64" "n \<le> 8 * 1024 * 1024 * 1024"
    using n by (simp_all add: MIN_RAW_MODEL_SIZE_def MAX_RAW_MODEL_SIZE_def)
  have "secs n * 512 < n + 512"
    by (rule secs_bounds)
  then have bound: "end_at (2056 + secs n) < 2 ^ 48" and lt: "2056 + secs n < 2 ^ 48"
    using nb by (simp_all add: db_layout)
  have r1: "port_ready port s1" "io_ok hba s1"
    using keeps_ready [OF dev1(1) s(1)] io_ok_dev [OF dev1(1) s(2)] .
  have fits1: "raw_model_range_fits s1 (w64 2056) n"
    using fits only_devD(2) [OF dev1(1)] by (simp add: raw_model_range_fits_def)
  obtain v s2 where ve: "verify_raw_model_extent hba s1 (w64 2056) n = (v, s2)" by force
  have v: "v"
    using verify_extent_live [OF r1(2) nb(1,2)] ve by simp
  note two = verify_extent_law [OF r1(1) nb(2) bound ve]
  have "sect (dev s2) 2056 = mem_slice mem 0 512"
    using two dev1(2) holds secs_pos [OF nb(1)] by (auto simp: cache_holds_def)
  then have "subslice (sect (dev s2) 2056) 0 4 = ascii ''GGUF''"
    using subslice_mem_slice [of 0 4 512 mem 0] gguf by simp
  then have "returns_ok (load_model_loop hba s2 (w64 2056) n 0 [])"
    using two verify_extent_io [OF r1 nb(2) bound ve] lt by (intro load_model_loop_live) simp_all
  then have "fst (load_model_at hba s1 True (w64 2056) n)"
    using fits1 ve v by (auto simp: load_model_at_def returns_ok_def split: sum.split prod.split)
  then show ?thesis
    using rd q1 hdr None by (simp add: try_load_raw_model_def discover_fixed [OF st(2)])
qed (simp add: try_load_raw_model_def)

text \<open>Everything up to the call of \<open>ensure_memory_db\<close> leaves the sectors behind the model alone.\<close>

lemma write_model_at_ensure:
  assumes "port_ready port st" and n: "n < 2 ^ 64" and lt: "2056 + secs n < 2 ^ 48"
    and wr: "write_model_at hba st mem (w64 2048) (w64 2056) n = (r, st')"
  shows "\<exists>s3 last. only_dev st s3 \<and> (\<forall>i. 2056 + secs n \<le> i \<longrightarrow> sect (dev s3) i = sect (dev st) i) \<and>
    (st' = s3 \<or> st' = snd (ensure_memory_db hba s3 (w64 (2056 + secs n)) (w64 2056) last))"
proof -
  let ?same = "\<lambda>s. only_dev st s \<and> (\<forall>i. 2056 + secs n \<le> i \<longrightarrow> sect (dev s) i = sect (dev st) i)"
  have u: "unat (w64 2048) = 2048" "unat (w64 2048) < 2 ^ 48"
    by (simp_all add: unat_w64)
  have hdr: "?same s1" if s: "?same s" and w: "write_sectors hba s (w64 2048) 1 (write_model_header tag a b) = (x, s1)"
    and "length tag = 8" for s s1 tag a b x
  proof -
    have "only_dev s s1" "sect (dev s1) \<in> {sect (dev s), (sect (dev s))(2048 := write_model_header tag a b)}"
      using write_one(1,3) [OF keeps_ready [OF _ assms(1)] u(2) _ w] s that(3) u(1)
      by (simp_all add: write_model_header_fields)
    then show ?thesis
      using s keeps_trans [of st s s1] by auto
  qed
  have lp: "?same s1" if s: "?same s" and w: "write_model_loop hba s mem (w64 2056) n 0 = (x, s1)" for s s1 x
    using write_model_loop_law [OF keeps_ready [OF _ assms(1)] _ _ lt w] s keeps_trans [of st s s1] by auto
  have tag: "length MODEL_MAGIC_WRITING = 8" "length MODEL_MAGIC_READY = 8"
    by simp_all
  have st0: "?same st"
    by (simp add: keeps_refl)
  show ?thesis
    using wr unfolding write_model_at_def
  proof (cases rule: try_q_cases)
    case (err e)
    then show ?thesis using hdr [OF st0 _ tag(1)] by blast
  next
    case (ok a s1)
    note s1 = hdr [OF st0 ok(1) tag(1)]
    show ?thesis
      using ok(2)
    proof (cases rule: try_q_cases)
      case (err e)
      then show ?thesis using lp [OF s1] by blast
    next
      case (ok b s2)
      note s2 = lp [OF s1 ok(1)]
      show ?thesis
        using ok(2)
      proof (cases rule: try_q_cases)
        case (err e)
        then show ?thesis using hdr [OF s2 _ tag(2)] by blast
      next
        case (ok d s3)
        have "st' = snd (ensure_memory_db hba s3 (w64 (2056 + secs n)) (w64 2056) (w64 2056 + sat_sub64 (w64 (secs n)) 1))"
          using ok(2) by (simp add: Let_def sectors_w64 [OF n] w64_add)
        then show ?thesis
          using hdr [OF s2 ok(1) tag(2)] by blast
      qed
    qed
  qed
qed

lemma write_cache_keeps_db:
  assumes st: "port_ready port st" "cache_fixed st" and ok: "reads_ok hba st" and n: "n < 2 ^ 64"
    and cap: "ssd_sector_count st = Some cap" "L + 131072 \<le> unat cap" and L: "L = 2056 + secs n"
    and reg: "memory_db_header_lba st \<in> {None, Some (w64 L)}"
    and db: "db_log (sect (dev st)) L log" and cur: "db_cursor_ok (sect (dev st)) L"
    and wr: "write_raw_model_cache hba st mem n = (r, st')"
  shows "db_log (sect (dev st')) L log"
proof -
  let ?s = "st\<lparr>model_cache_start_lba := Some (w64 2048)\<rparr>"
  have bound: "end_at L < 2 ^ 48" and lt: "2056 + secs n < 2 ^ 48"
    using db by (auto simp: db_log_def db_layout L)
  have s: "port_ready port ?s" "dev ?s = dev st" "reads_ok hba ?s"
    using st(1) ok reads_ok_statics [of ?s st hba] by (simp_all add: port_ready_def)
  obtain q1 s1 where sm: "smoke_test_raw_model_cache hba ?s (w64 2048) = (q1, s1)" by force
  note one = smoke_law [OF s(1) sm, unfolded s(2)]
  have eq: "(if \<not> raw_model_range_fits ?s (w64 2056) n then (Inl (), ?s)
      else try_q (q1, s1) (\<lambda>_ st. write_model_at hba st mem (w64 2048) (w64 2056) n)) = (r, st')"
    using wr by (simp only: write_raw_model_cache_def discover_fixed [OF st(2)] prod.case option.case
        Let_def model_consts sm)
  have beyond: "db_log c L log" "db_cursor_ok c L" if "\<forall>i. L \<le> i \<longrightarrow> c i = sect (dev st) i" for c
    using db_log_from [of L c] that db cur by auto
  show ?thesis
  proof (cases "st' = ?s \<or> st' = s1")
    case True
    then show ?thesis
      using beyond(1) one s(2) by (auto simp: L)
  next
    case False
    then have "write_model_at hba s1 mem (w64 2048) (w64 2056) n = (r, st')"
      using eq by (cases q1) (auto split: if_splits)
    then obtain s3 last where s3: "only_dev s1 s3" "\<forall>i. L \<le> i \<longrightarrow> sect (dev s3) i = sect (dev s1) i"
      "st' = s3 \<or> st' = snd (ensure_memory_db hba s3 (w64 L) (w64 2056) last)"
      using write_model_at_ensure [OF keeps_ready [OF conjunct1 [OF one] s(1)] n lt] L by blast
    have dev: "only_dev ?s s3"
      using one s3(1) keeps_trans by blast
    have eq3: "\<forall>i. L \<le> i \<longrightarrow> sect (dev s3) i = sect (dev st) i"
      using s3(2) one by (auto simp: L)
    obtain q4 s4 where en: "ensure_memory_db hba s3 (w64 L) (w64 2056) last = (q4, s4)" by force
    have "db_log (sect (dev s4)) L log"
      using ensure_keeps [OF keeps_ready [OF dev s(1)] bound _ _ cap(2) _ beyond [OF eq3] en]
        reads_ok_keeps [OF dev] s(3) only_devD [OF dev] cap(1) reg by simp
    then show ?thesis
      using s3(3) en beyond(1) [OF eq3] by auto
  qed
qed

section \<open>The framebuffer dump\<close>

lemma dump_write_law:
  assumes "port_ready port st" and "off mod 512 = 0" and "off div 512 \<le> secs n" and "1024 + secs n < 2 ^ 48"
    and "dump_write_loop hba st fb n off = (r, st')"
  shows "only_dev st st' \<and>
    (\<forall>i. i < 1024 + off div 512 \<or> 1024 + secs n \<le> i \<longrightarrow> sect (dev st') i = sect (dev st) i) \<and>
    (r = Inr () \<longrightarrow> (\<forall>i. 1024 + off div 512 \<le> i \<and> i < 1024 + secs n \<longrightarrow>
       sect (dev st') i = mem_slice fb ((i - 1024) * 512) 512))"
  using assms
proof (induction "n - off" arbitrary: st off rule: less_induct)
  case less
  show ?case
  proof (cases "off < n")
    case False
    then have "secs n \<le> off div 512"
      using less.prems(2) by (auto simp: secs_def mod_eq_0_iff_dvd elim!: dvdE)
    then show ?thesis
      using less.prems(5) False
      by (subst (asm) dump_write_loop.simps) (auto simp: keeps_refl)
  next
    case True
    let ?q = "off div 512"
    define m where "m = min 4096 (n - off)"
    define k where "k = secs m"
    note f = dump_chunk [OF True less.prems(2), folded m_def, folded k_def]
    have lt: "1024 + ?q < 2 ^ 48"
      using f less.prems(4) by linarith
    have uk: "unat (word_of_nat k :: u16) = k"
      using f(2) by (intro unat_of_nat16) simp
    let ?b = "mem_slice fb off (k * 512)"
    obtain q1 s1 where w: "write_sectors hba st (w64 (1024 + ?q)) (word_of_nat k) ?b = (q1, s1)" by force
    have eq: "try_q (q1, s1) (\<lambda>_ st. dump_write_loop hba st fb n (off + m)) = (r, st')"
      using less.prems(5) [unfolded dump_write_loop.simps [of hba st] if_P [OF True] Let_def] w
      by (simp add: m_def k_def secs_def w64_def)
    have pre: "0 < unat (word_of_nat k :: u16)" "unat (word_of_nat k :: u16) \<le> MODEL_IO_SECTORS"
      "unat (w64 (1024 + ?q)) < 2 ^ 48" "length ?b = unat (word_of_nat k :: u16) * 512"
      using f lba_at(3) [OF lt] uk by (simp_all add: MODEL_IO_SECTORS_def)
    note law = wr_law [OF less.prems(1) pre w, unfolded uk lba_at(2) [OF lt]]
    note frame = write_outside [OF less.prems(1) pre w, unfolded uk lba_at(2) [OF lt]]
    have mid: "sect (dev s1) i = mem_slice fb ((i - 1024) * 512) 512"
      if "q1 = Inr ()" "1024 + ?q \<le> i" "i < 1024 + ?q + k" for i
    proof -
      have "off + (i - (1024 + ?q)) * 512 = (i - 1024) * 512"
        using that less.prems(2) div_mult_mod_eq [of off 512] by (simp add: diff_mult_distrib)
      then show ?thesis
        using law that write_range_mem_slice [OF that(2,3)] by simp
    qed
    show ?thesis
    proof (cases "q1 = Inr () \<and> off + m < n")
      case False
      then have "st' = s1 \<and> (r = Inr () \<longrightarrow> q1 = Inr () \<and> \<not> off + m < n)"
        using eq by (cases q1) (auto simp: dump_write_loop.simps [of hba s1])
      then show ?thesis
        using law frame mid f(3,4) by auto
    next
      case True2: True
      have rec: "dump_write_loop hba s1 fb n (off + m) = (r, st')"
        using eq True2 by simp
      have al: "(off + m) mod 512 = 0" "(off + m) div 512 = ?q + k"
        using f(5) True2 by auto
      note IH = less.hyps [OF _ keeps_ready [OF conjunct1 [OF law] less.prems(1)] al(1) _ less.prems(4) rec,
          unfolded al(2), OF _ f(3)]
      have IH: "only_dev s1 st'" "\<And>i. i < 1024 + (?q + k) \<or> 1024 + secs n \<le> i \<Longrightarrow> sect (dev st') i = sect (dev s1) i"
        "\<And>i. r = Inr () \<Longrightarrow> 1024 + (?q + k) \<le> i \<Longrightarrow> i < 1024 + secs n \<Longrightarrow>
          sect (dev st') i = mem_slice fb ((i - 1024) * 512) 512"
        using IH f(6) True by auto
      have "sect (dev st') i = mem_slice fb ((i - 1024) * 512) 512"
        if "r = Inr ()" "1024 + ?q \<le> i" "i < 1024 + secs n" for i
        using IH(2,3) mid [OF _ that(2)] that True2 by (cases "i < 1024 + ?q + k") auto
      moreover have "sect (dev st') i = sect (dev st) i" if "i < 1024 + ?q \<or> 1024 + secs n \<le> i" for i
        using IH(2) frame [of i] f(3) that by (auto simp: add.assoc)
      moreover have "only_dev st st'"
        using IH law keeps_trans by blast
      ultimately show ?thesis by blast
    qed
  qed
qed

lemma dump_verify_keeps:
  assumes "port_ready port st" and "off mod 512 = 0" and "dump_verify_loop hba st fb n off = (r, st')"
  shows "sect (dev st') = sect (dev st)"
  using assms
proof (induction "n - off" arbitrary: st off rule: less_induct)
  case less
  show ?case
  proof (cases "off < n")
    case False
    then show ?thesis
      using less.prems(3) by (simp add: dump_verify_loop.simps [of hba st])
  next
    case True
    define m where "m = min 4096 (n - off)"
    define k where "k = secs m"
    note f = dump_chunk [OF True less.prems(2), folded m_def, folded k_def]
    have uk: "unat (word_of_nat k :: u16) = k"
      using f(2) by (intro unat_of_nat16) simp
    obtain q1 s1 where rd: "read_sectors hba st (1024 + word_of_nat (off div 512)) (word_of_nat k) = (q1, s1)" by force
    have pre: "0 < unat (word_of_nat k :: u16)" "unat (word_of_nat k :: u16) \<le> MODEL_IO_SECTORS"
      using f uk by (simp_all add: MODEL_IO_SECTORS_def)
    note law = rd_law [OF less.prems(1) pre rd]
    have "try_q (q1, s1) (\<lambda>b st. if take m b \<noteq> mem_slice fb off m then (Inl (), st)
        else dump_verify_loop hba st fb n (off + m)) = (r, st')"
      using less.prems(3) [unfolded dump_verify_loop.simps [of hba st] if_P [OF True] Let_def] rd
      unfolding k_def m_def secs_def by simp
    then have "st' = s1 \<or> dump_verify_loop hba s1 fb n (off + m) = (r, st')"
      by (cases q1) (auto split: if_splits)
    then show ?thesis
    proof
      assume rec: "dump_verify_loop hba s1 fb n (off + m) = (r, st')"
      show ?thesis
      proof (cases "off + m < n")
        case True2: True
        then have "(off + m) mod 512 = 0"
          using f(5) by simp
        then show ?thesis
          using less.hyps [OF _ keeps_ready [OF conjunct1 [OF law] less.prems(1)] _ rec] f(6) True law by simp
      qed (use rec law in \<open>simp add: dump_verify_loop.simps [of hba s1]\<close>)
    qed (use law in simp)
  qed
qed

lemma dump_law:
  assumes "port_ready port st" and "1024 + secs n < 2 ^ 48" and du: "dump_boot_log hba st (Some (fb, n)) = (ok, st')"
  shows "(\<forall>i. i < 1024 \<or> 1024 + secs n \<le> i \<longrightarrow> sect (dev st') i = sect (dev st) i) \<and>
    (ok \<longrightarrow> (\<forall>i < secs n. sect (dev st') (1024 + i) = mem_slice fb (i * 512) 512))"
proof -
  obtain q1 s1 where w: "dump_write_loop hba st fb n 0 = (q1, s1)" by force
  note one = dump_write_law [OF assms(1) _ _ assms(2) w, simplified]
  obtain q2 s2 where v: "dump_verify_loop hba s1 fb n 0 = (q2, s2)" by force
  have "sect (dev s2) = sect (dev s1)"
    using one keeps_ready assms(1) by (intro dump_verify_keeps [OF _ _ v]) auto
  then show ?thesis
    using du w v one by (cases q1) (auto simp: dump_boot_log_def)
qed

lemma dump_write_live:
  assumes "port_ready port st" and "io_ok hba st" and "off mod 512 = 0" and "1024 + secs n < 2 ^ 48"
  shows "returns_ok (dump_write_loop hba st fb n off)"
  using assms
proof (induction "n - off" arbitrary: st off rule: less_induct)
  case less
  show ?case
  proof (cases "off < n")
    case True
    define m where "m = min 4096 (n - off)"
    define k where "k = secs m"
    note f = dump_chunk [OF True less.prems(3), folded m_def, folded k_def]
    let ?l = "1024 + word_of_nat (off div 512) :: u64"
    have l: "unat ?l < 2 ^ 48"
      using lba_at(3) [of 1024 "off div 512"] f less.prems(4) by (simp add: w64_def)
    have uk: "unat (word_of_nat k :: u16) = k"
      using f(2) by (intro unat_of_nat16) simp
    have "returns_ok (dump_write_loop hba s fb n (off + m))"
      if w: "write_sectors hba st ?l (word_of_nat k) (mem_slice fb off (k * 512)) = (Inr x, s)" for x s
    proof (cases "off + m < n")
      case True2: True
      have dev: "only_dev st s"
        using wr_law [OF less.prems(1) _ _ l _ w] f uk by (simp add: MODEL_IO_SECTORS_def)
      show ?thesis
        using f(5,6) True True2 less.prems(4) keeps_ready [OF dev less.prems(1)] io_ok_dev [OF dev less.prems(2)]
        by (intro less.hyps) auto
    qed (simp add: dump_write_loop.simps [of hba s])
    from try_q_ok [OF io_ok_write [OF less.prems(2)] this] show ?thesis
      using True unfolding dump_write_loop.simps [of hba st fb n off] by (simp add: Let_def m_def k_def secs_def)
  qed (simp add: dump_write_loop.simps [of hba st])
qed

lemma dump_verify_live:
  assumes "port_ready port st" and "io_ok hba st" and "off mod 512 = 0" and "1024 + secs n < 2 ^ 48"
    and "\<forall>i < secs n. sect (dev st) (1024 + i) = mem_slice fb (i * 512) 512"
  shows "returns_ok (dump_verify_loop hba st fb n off)"
  using assms
proof (induction "n - off" arbitrary: st off rule: less_induct)
  case less
  show ?case
  proof (cases "off < n")
    case True
    define m where "m = min 4096 (n - off)"
    define k where "k = secs m"
    note f = dump_chunk [OF True less.prems(3), folded m_def, folded k_def]
    let ?l = "1024 + word_of_nat (off div 512) :: u64" and ?q = "off div 512"
    have l: "unat ?l = 1024 + ?q" "unat ?l < 2 ^ 48"
      using lba_at(2,3) [of 1024 ?q] f less.prems(4) by (simp_all add: w64_def)
    have uk: "unat (word_of_nat k :: u16) = k"
      using f(2) by (intro unat_of_nat16) simp
    have rr: "j \<le> k \<Longrightarrow> read_range (sect (dev st)) (1024 + ?q) j = mem_slice fb off (j * 512)" for j
    proof (induction j)
      case (Suc j)
      have "off + j * 512 = (?q + j) * 512"
        using less.prems(3) div_mult_mod_eq [of off 512] by simp
      moreover have "sect (dev st) (1024 + (?q + j)) = mem_slice fb ((?q + j) * 512) 512"
        using less.prems(5) f(3) Suc.prems by simp
      ultimately have "sect (dev st) (1024 + ?q + j) = mem_slice fb (off + j * 512) 512"
        by (metis add.assoc)
      then show ?case
        using Suc mem_slice_split [of fb off "j * 512" 512] by (simp add: read_range_Suc add.commute)
    qed (simp add: mem_slice_def)
    have step: "returns_ok (if take m b \<noteq> mem_slice fb off m then (Inl (), s) else dump_verify_loop hba s fb n (off + m))"
      if rd: "read_sectors hba st ?l (word_of_nat k) = (Inr b, s)" for b s
    proof -
      have law: "only_dev st s" "sect (dev s) = sect (dev st)" "b = mem_slice fb off (k * 512)"
        using rd_law [OF less.prems(1) _ _ rd] f uk l rr [OF order_refl] by (simp_all add: MODEL_IO_SECTORS_def)
      have b: "take m b = mem_slice fb off m"
        using law(3) secs_bounds(1) [of m] by (simp add: take_mem_slice k_def)
      show ?thesis
      proof (cases "off + m < n")
        case True2: True
        have "returns_ok (dump_verify_loop hba s fb n (off + m))"
          using f(5,6) True True2 less.prems(4,5) law(2) keeps_ready [OF law(1) less.prems(1)]
            io_ok_dev [OF law(1) less.prems(2)]
          by (intro less.hyps) auto
        then show ?thesis using b by simp
      qed (use b in \<open>simp add: dump_verify_loop.simps [of hba s]\<close>)
    qed
    have eq: "dump_verify_loop hba st fb n off = try_q (read_sectors hba st ?l (word_of_nat k))
        (\<lambda>b s. if take m b \<noteq> mem_slice fb off m then (Inl (), s) else dump_verify_loop hba s fb n (off + m))"
      unfolding dump_verify_loop.simps [of hba st fb n off] if_P [OF True] Let_def k_def m_def secs_def ..
    show ?thesis
      unfolding eq by (rule try_q_ok [OF io_ok_read [OF less.prems(2)] step])
  qed (simp add: dump_verify_loop.simps [of hba st])
qed

lemma dump_live:
  assumes "port_ready port st" and "io_ok hba st" and "1024 + secs n < 2 ^ 48"
  shows "fst (dump_boot_log hba st (Some (fb, n)))"
proof -
  obtain s1 where w: "dump_write_loop hba st fb n 0 = (Inr (), s1)"
    using dump_write_live [OF assms(1,2) _ assms(3), of 0 fb]
    by (cases "dump_write_loop hba st fb n 0"; cases "fst (dump_write_loop hba st fb n 0)") auto
  note one = dump_write_law [OF assms(1) _ _ assms(3) w, simplified]
  have "returns_ok (dump_verify_loop hba s1 fb n 0)"
    using one keeps_ready assms io_ok_dev by (intro dump_verify_live) auto
  then show ?thesis
    using w by (auto simp: dump_boot_log_def returns_ok_def split: prod.split)
qed

end

end
