(* ===== verification/ModelCacheProps.thy ===== *)
theory ModelCacheProps
  imports ModelCacheLaws
begin

text \<open>
  The properties of the raw model cache, for every adapter and disk that keep the hardware
  contract, with instances on the reference disk.
\<close>

text \<open>A later boot from the same sectors: no model in memory, the cache LBA not chosen yet.\<close>

definition cache_restart :: "('d \<Rightarrow> nat \<Rightarrow> bytes) \<Rightarrow> nat \<Rightarrow> 'd ahci \<Rightarrow> 'd ahci \<Rightarrow> bool" where
  "cache_restart sect port st st1 \<longleftrightarrow> port_ready port st1 \<and> sect (dev st1) = sect (dev st) \<and>
    model_info st1 = None \<and> model_cache_start_lba st1 = None"

definition model_fits :: "nat \<Rightarrow> bool" where
  "model_fits n \<longleftrightarrow> n < 2 ^ 64 \<and> end_at (2056 + secs n) < 2 ^ 48"

text \<open>A model of 1 GiB that starts with the GGUF magic.\<close>

definition ref_model :: "nat \<Rightarrow> u8" where
  "ref_model i = (if i < 4 then ascii ''GGUF'' ! i else 0)"

lemma ref_model_facts:
  "model_fits 1073741824" "secs 1073741824 = 2097152" "mem_slice ref_model 0 4 = ascii ''GGUF''"
  "raw_model_range_fits ref_ahci (w64 2056) 1073741824" "cache_fixed ref_ahci"
  by (simp_all add: model_fits_def secs_def db_layout mem_slice_def ref_model_def upt_rec ascii_def
      raw_model_range_fits_def ref_ahci_def checked_add64_def sectors_for_bytes_def SECTOR_SIZE_def w64_def cache_fixed_def)

lemma ref_write: "\<exists>st'. write_raw_model_cache ref_hba ref_ahci ref_model 1073741824 = (Inr (), st')"
proof -
  have "returns_ok (write_raw_model_cache ref_hba ref_ahci ref_model 1073741824)"
    using ref.write_cache_live [OF ref_ahci_ready(1) ref_model_facts(5) ref_io_ok [OF ref_ahci_ready(2,3)] _ ref_model_facts(4)]
    by (simp add: ref_model_facts(2))
  then show ?thesis
    by (cases "write_raw_model_cache ref_hba ref_ahci ref_model 1073741824";
        cases "fst (write_raw_model_cache ref_hba ref_ahci ref_model 1073741824)") auto
qed

lemma ref_reload:
  obtains st1 st3 where "write_raw_model_cache ref_hba ref_ahci ref_model 1073741824 = (Inr (), st1)"
    "cache_restart ref_sect ref_port st1 (ref_ahci\<lparr>dev := dev st1\<rparr>)"
    "try_load_raw_model ref_hba (ref_ahci\<lparr>dev := dev st1\<rparr>) True = (True, st3)"
proof -
  obtain st1 where wr: "write_raw_model_cache ref_hba ref_ahci ref_model 1073741824 = (Inr (), st1)"
    using ref_write by blast
  let ?st2 = "ref_ahci\<lparr>dev := dev st1\<rparr>"
  have st2: "port_ready ref_port ?st2" "cache_fixed ?st2" "io_ok ref_hba ?st2"
    "cache_restart ref_sect ref_port st1 ?st2" "raw_model_range_fits ?st2 (w64 2056) 1073741824"
    using ref_model_facts(4,5) ref_io_ok [of ?st2 0]
    by (simp_all add: cache_restart_def cache_fixed_def port_ready_def raw_model_range_fits_def) (simp_all add: ref_ahci_def)
  have "cache_holds (ref_sect (dev ?st2)) ref_model 1073741824"
    using ref.write_cache_law [OF ref_ahci_ready(1) ref_model_facts(5) _ _ wr] ref_model_facts(1)
    by (simp add: model_fits_def)
  then have "fst (try_load_raw_model ref_hba ?st2 True)"
    using ref.load_live [OF st2(1-3) _ _ _ st2(5) ref_model_facts(3)]
    by (simp add: MIN_RAW_MODEL_SIZE_def MAX_RAW_MODEL_SIZE_def)
  then obtain st3 where ld: "try_load_raw_model ref_hba ?st2 True = (True, st3)"
    by (cases "try_load_raw_model ref_hba ?st2 True") auto
  show thesis
    by (rule that [OF wr st2(4) ld])
qed

lemma ref_blank: "\<not> model_header_ok (ref_sect (dev ref_ahci) i) l"
proof -
  have "subslice (ref_sect (dev ref_ahci) i) 0 8 = replicate 8 0"
    by (simp add: ref_sect_def ref_ahci_def pad_sector_def subslice_def)
  moreover have "hd MODEL_MAGIC_READY \<noteq> 0"
    by (simp add: MODEL_MAGIC_READY_def ascii_def)
  then have "replicate 8 0 \<noteq> MODEL_MAGIC_READY"
    by (metis hd_replicate zero_neq_numeral)
  ultimately show ?thesis
    by (simp add: model_header_ok_def)
qed

text \<open>
  C8.  A model written by a successful \<open>write_raw_model_cache\<close> and loaded by a successful
  \<open>try_load_raw_model\<close> on a later boot from the same sectors is the model, byte for byte.
\<close>

theorem model_cache_roundtrip:
  assumes "ata_disk hba sect inflight port" and "port_ready port st" and "cache_fixed st" and "model_fits n"
    and "write_raw_model_cache hba st mem n = (Inr (), st1)"
    and "cache_restart sect port st1 st2"
    and "try_load_raw_model hba st2 alloc_ok = (True, st3)"
  shows "model_info st3 = Some (mem_slice mem 0 n, ''ssd-cache'')"
proof -
  have n: "n < 2 ^ 64" "end_at (2056 + secs n) < 2 ^ 48"
    using assms(4) by (auto simp: model_fits_def)
  have st2: "port_ready port st2" "cache_fixed st2" "model_info st2 = None" "sect (dev st2) = sect (dev st1)"
    using assms(6) by (auto simp: cache_restart_def cache_fixed_def)
  have holds: "cache_holds (sect (dev st2)) mem n"
    using ata_disk.write_cache_law [OF assms(1-3) n assms(5)] st2(4) by simp
  then have "unat (le_u64 (sect (dev st2) 2048) 8) = n"
    using n(1) by (simp add: cache_holds_def write_model_header_fields unat_of_nat64)
  then show ?thesis
    using ata_disk.load_law [OF assms(1) st2(1-3) assms(7)] read_range_cache_holds [OF holds] by simp
qed

theorem model_cache_roundtrip_witness:
  "\<exists>st1 st3. write_raw_model_cache ref_hba ref_ahci ref_model 1073741824 = (Inr (), st1) \<and>
    try_load_raw_model ref_hba (ref_ahci\<lparr>dev := dev st1\<rparr>) True = (True, st3) \<and>
    model_info st3 = Some (mem_slice ref_model 0 1073741824, ''ssd-cache'')"
proof -
  obtain st1 st3 where wr: "write_raw_model_cache ref_hba ref_ahci ref_model 1073741824 = (Inr (), st1)"
    and re: "cache_restart ref_sect ref_port st1 (ref_ahci\<lparr>dev := dev st1\<rparr>)"
    and ld: "try_load_raw_model ref_hba (ref_ahci\<lparr>dev := dev st1\<rparr>) True = (True, st3)"
    by (rule ref_reload)
  show ?thesis
    using model_cache_roundtrip [OF ref.ata_disk_axioms ref_ahci_ready(1) ref_model_facts(5,1) wr re ld] wr ld
    by blast
qed

text \<open>
  C5.  An interrupted write never exposes a half-written model.  Whatever \<open>write_raw_model_cache\<close>
  returns, a load that succeeds on the next boot yields either the complete new model or exactly
  what the sectors held before the attempt (the old header and the old model).
\<close>

theorem model_cache_crash_safe:
  assumes "ata_disk hba sect inflight port" and "port_ready port st" and "cache_fixed st" and "model_fits n"
    and "write_raw_model_cache hba st mem n = (r, st1)"
    and "cache_restart sect port st1 st2"
    and "try_load_raw_model hba st2 alloc_ok = (True, st3)"
  shows "model_info st3 = Some (mem_slice mem 0 n, ''ssd-cache'') \<or>
    model_header_ok (sect (dev st) 2048) (w64 2048) \<and>
    (let n0 = unat (le_u64 (sect (dev st) 2048) 8)
     in model_info st3 = Some (take n0 (read_range (sect (dev st)) 2056 (secs n0)), ''ssd-cache''))"
proof -
  have n: "n < 2 ^ 64" "end_at (2056 + secs n) < 2 ^ 48"
    using assms(4) by (auto simp: model_fits_def)
  have st2: "port_ready port st2" "cache_fixed st2" "model_info st2 = None" "sect (dev st2) = sect (dev st1)"
    using assms(6) by (auto simp: cache_restart_def cache_fixed_def)
  note ld = ata_disk.load_law [OF assms(1) st2(1-3) assms(7), unfolded st2(4)]
  have "cache_attempt (sect (dev st)) (sect (dev st1)) mem n"
    using ata_disk.write_cache_law [OF assms(1-3) n assms(5)] by blast
  then consider "cache_holds (sect (dev st1)) mem n"
    | "sect (dev st1) 2048 = sect (dev st) 2048" "\<forall>i. 2050 \<le> i \<longrightarrow> sect (dev st1) i = sect (dev st) i"
    using ld by (auto simp: cache_attempt_def)
  then show ?thesis
  proof cases
    case 1
    then have "unat (le_u64 (sect (dev st1) 2048) 8) = n"
      using n(1) by (simp add: cache_holds_def write_model_header_fields unat_of_nat64)
    then show ?thesis
      using ld read_range_cache_holds [OF 1] by simp
  next
    case 2
    then have "read_range (sect (dev st1)) 2056 k = read_range (sect (dev st)) 2056 k" for k
      by (intro read_range_cong) simp
    then show ?thesis
      using ld 2(1) by (simp add: Let_def)
  qed
qed

theorem model_cache_crash_safe_witness:
  "\<exists>r st1 st3. write_raw_model_cache ref_hba ref_ahci ref_model 1073741824 = (r, st1) \<and>
    try_load_raw_model ref_hba (ref_ahci\<lparr>dev := dev st1\<rparr>) True = (True, st3) \<and>
    model_info st3 = Some (mem_slice ref_model 0 1073741824, ''ssd-cache'')"
proof -
  obtain st1 st3 where wr: "write_raw_model_cache ref_hba ref_ahci ref_model 1073741824 = (Inr (), st1)"
    and re: "cache_restart ref_sect ref_port st1 (ref_ahci\<lparr>dev := dev st1\<rparr>)"
    and ld: "try_load_raw_model ref_hba (ref_ahci\<lparr>dev := dev st1\<rparr>) True = (True, st3)"
    by (rule ref_reload)
  show ?thesis
    using model_cache_crash_safe [OF ref.ata_disk_axioms ref_ahci_ready(1) ref_model_facts(5,1) wr re ld]
      ref_blank wr ld by blast
qed

text \<open>
  C31.  A successful load implies that the header passed every check: the ready magic and tag, the
  fixed data LBA, and a size between 1 GiB and 8 GiB; the bytes published are the first \<open>size\<close>
  bytes of the model's sectors and start with the GGUF magic.  A failed load publishes nothing.
  Either way no sector of the header or the model changes.
\<close>

theorem model_load_checked:
  assumes "ata_disk hba sect inflight port" and "port_ready port st" and "cache_fixed st"
    and "model_info st = None" and "try_load_raw_model hba st alloc_ok = (ok, st')"
  shows "(if ok then \<exists>m. model_info st' = Some (m, ''ssd-cache'') \<and>
        MIN_RAW_MODEL_SIZE \<le> length m \<and> length m \<le> MAX_RAW_MODEL_SIZE \<and>
        m = take (length m) (read_range (sect (dev st)) 2056 (secs (length m))) \<and>
        take 4 m = ascii ''GGUF'' \<and> model_header_ok (sect (dev st) 2048) (w64 2048)
      else model_info st' = None) \<and>
    (\<forall>i < 2056 + secs (unat (le_u64 (sect (dev st) 2048) 8)). sect (dev st') i = sect (dev st) i)"
proof -
  let ?n = "unat (le_u64 (sect (dev st) 2048) 8)" and ?c = "sect (dev st)"
  let ?m = "take ?n (read_range ?c 2056 (secs ?n))"
  note law = ata_disk.load_law [OF assms]
  have len: "length ?m = ?n"
    using length_read_range [of ?c 2056 "secs ?n"] ata_disk.sect_length [OF assms(1)] secs_bounds(1) [of ?n] by simp
  have "take 4 ?m = subslice (?c 2056) 0 4" if "4 \<le> ?n"
    using read_range_add [of ?c 2056 1 "secs ?n - 1"] secs_pos [of ?n] that
      ata_disk.sect_length [OF assms(1), of "dev st" 2056]
    by (simp add: subslice_def min_def)
  moreover have "MIN_RAW_MODEL_SIZE \<le> ?n \<and> ?n \<le> MAX_RAW_MODEL_SIZE" "4 \<le> ?n" if "model_header_ok (?c 2048) (w64 2048)"
    using that by (auto simp: model_header_ok_def MIN_RAW_MODEL_SIZE_def)
  ultimately have "if ok then model_info st' = Some (?m, ''ssd-cache'') \<and>
      MIN_RAW_MODEL_SIZE \<le> length ?m \<and> length ?m \<le> MAX_RAW_MODEL_SIZE \<and>
      ?m = take (length ?m) (read_range ?c 2056 (secs (length ?m))) \<and>
      take 4 ?m = ascii ''GGUF'' \<and> model_header_ok (?c 2048) (w64 2048)
    else model_info st' = None"
    unfolding len using law by auto
  then show ?thesis
    using law by auto
qed

theorem model_load_checked_witness:
  "\<exists>d st3 m. try_load_raw_model ref_hba (ref_ahci\<lparr>dev := d\<rparr>) True = (True, st3) \<and>
    model_info st3 = Some (m, ''ssd-cache'') \<and> take 4 m = ascii ''GGUF''"
proof -
  obtain st1 st3 where re: "cache_restart ref_sect ref_port st1 (ref_ahci\<lparr>dev := dev st1\<rparr>)"
    and ld: "try_load_raw_model ref_hba (ref_ahci\<lparr>dev := dev st1\<rparr>) True = (True, st3)"
    by (rule ref_reload)
  have st2: "port_ready ref_port (ref_ahci\<lparr>dev := dev st1\<rparr>)" "cache_fixed (ref_ahci\<lparr>dev := dev st1\<rparr>)"
    "model_info (ref_ahci\<lparr>dev := dev st1\<rparr>) = None"
    using re by (auto simp: cache_restart_def cache_fixed_def)
  obtain m where "model_info st3 = Some (m, ''ssd-cache'')" "take 4 m = ascii ''GGUF''"
    using model_load_checked [OF ref.ata_disk_axioms st2 ld] by auto
  then show ?thesis
    using ld by blast
qed



text \<open>
  C33.  \<open>dump_boot_log\<close> writes the framebuffer to the sectors from LBA 1024 on and nowhere else; when
  it reports success those sectors hold exactly the framebuffer.  Nothing keeps it below LBA 2048.
\<close>

theorem dump_boot_log_extent:
  assumes "ata_disk hba sect inflight port" and "port_ready port st" and "1024 + secs fb_size < 2 ^ 48"
    and "dump_boot_log hba st (Some (fb, fb_size)) = (ok, st')"
  shows "(\<forall>i. i < 1024 \<or> 1024 + secs fb_size \<le> i \<longrightarrow> sect (dev st') i = sect (dev st) i) \<and>
    (ok \<longrightarrow> (\<forall>i < secs fb_size. sect (dev st') (1024 + i) = mem_slice fb (i * 512) 512))"
  using ata_disk.dump_law [OF assms] by simp

theorem dump_boot_log_extent_witness:
  "\<exists>ok st'. dump_boot_log ref_hba ref_ahci (Some (\<lambda>_. 9, 1024)) = (ok, st') \<and>
    ref_sect (dev st') 2048 = ref_sect (dev ref_ahci) 2048"
proof -
  obtain ok st' where d: "dump_boot_log ref_hba ref_ahci (Some (\<lambda>_. 9, 1024)) = (ok, st')" by force
  show ?thesis
    using dump_boot_log_extent [OF ref.ata_disk_axioms ref_ahci_ready(1) _ d] d by (simp add: secs_def)
qed

text \<open>
  C34.  A framebuffer of more than 512 KiB reaches the model cache header at LBA 2048.  After a
  successful \<open>dump_boot_log\<close> of such a framebuffer, whose bytes at offset 524288 are not by chance
  the ready magic, the cached model is lost: the next boot's \<open>try_load_raw_model\<close> fails.
\<close>

theorem dump_boot_log_loses_model:
  assumes "ata_disk hba sect inflight port" and "port_ready port st" and "1024 + secs fb_size < 2 ^ 48"
    and "524288 < fb_size" and "mem_slice fb 524288 8 \<noteq> MODEL_MAGIC_READY"
    and "dump_boot_log hba st (Some (fb, fb_size)) = (True, st1)"
    and "cache_restart sect port st1 st2" and "try_load_raw_model hba st2 alloc_ok = (ok, st3)"
  shows "\<not> ok"
proof -
  have "secs 524289 \<le> secs fb_size"
    using assms(4) unfolding secs_def by (intro div_le_mono) simp
  then have "1024 < secs fb_size"
    by (simp add: secs_def)
  then have "sect (dev st1) 2048 = mem_slice fb 524288 512"
    using ata_disk.dump_law [OF assms(1-3,6)] by (auto dest!: spec [of _ 1024])
  then have "subslice (sect (dev st1) 2048) 0 8 = mem_slice fb 524288 8"
    using subslice_mem_slice [of 0 8 512 fb 524288] by simp
  then have "\<not> model_header_ok (sect (dev st2) 2048) (w64 2048)"
    using assms(5,7) by (simp add: model_header_ok_def cache_restart_def)
  then show ?thesis
    using ata_disk.load_law [OF assms(1) _ _ _ assms(8)] assms(7) by (auto simp: cache_restart_def cache_fixed_def)
qed

theorem dump_boot_log_loses_model_witness:
  "\<exists>st1 ok st3. dump_boot_log ref_hba ref_ahci (Some (\<lambda>_. 9, 1048576)) = (True, st1) \<and>
    try_load_raw_model ref_hba (ref_ahci\<lparr>dev := dev st1\<rparr>) True = (ok, st3) \<and> \<not> ok"
proof -
  have n: "secs 1048576 = 2048"
    by (simp add: secs_def)
  obtain st1 where d: "dump_boot_log ref_hba ref_ahci (Some (\<lambda>_. 9, 1048576)) = (True, st1)"
    using ref.dump_live [OF ref_ahci_ready(1) ref_io_ok [OF ref_ahci_ready(2,3)], of 1048576 "\<lambda>_. 9"] n
    by (cases "dump_boot_log ref_hba ref_ahci (Some (\<lambda>_. 9, 1048576))") auto
  have re: "cache_restart ref_sect ref_port st1 (ref_ahci\<lparr>dev := dev st1\<rparr>)"
    by (simp add: cache_restart_def ref_ahci_def port_ready_def)
  obtain ok st3 where ld: "try_load_raw_model ref_hba (ref_ahci\<lparr>dev := dev st1\<rparr>) True = (ok, st3)" by force
  have "hd (mem_slice (\<lambda>_. 9) 524288 8) \<noteq> hd MODEL_MAGIC_READY"
    by (simp add: mem_slice_def MODEL_MAGIC_READY_def ascii_def upt_rec)
  then have "mem_slice (\<lambda>_. 9) 524288 8 \<noteq> MODEL_MAGIC_READY"
    by metis
  then show ?thesis
    using dump_boot_log_loses_model [OF ref.ata_disk_axioms ref_ahci_ready(1) _ _ _ d re ld] d ld n
    by (intro exI [of _ st1] exI [of _ ok] exI [of _ st3]) simp
qed

end
