(* ===== verification/AhciController.thy ===== *)
theory AhciController
  imports ModelCache
begin

text \<open>
  Discovery of the disk: \<open>enumerate_controller\<close> of \<open>kernel/src/drivers/storage/ahci.rs\<close> resets the adapter,
  walks its ports, and on the SATA disk at port 2 sets up the command memory, identifies the disk and
  tries to load the cached model.  Messages are left out.
\<close>

section \<open>Definitions\<close>

definition HBA_GHC :: nat where "HBA_GHC = 1"
definition HBA_PI :: nat where "HBA_PI = 3"

text \<open>The registers of port \<open>i\<close> start at byte \<open>0x100 + i * 0x80\<close> of the mapping.\<close>

definition port_base :: "nat \<Rightarrow> nat" where
  "port_base i = (0x100 + i * 0x80) div 4"

definition ahci_device_type :: "u32 \<Rightarrow> string" where
  "ahci_device_type sig =
    (if sig = 0x00000101 \<or> sig = 0x01010101 then ''SATA''
     else if sig = 0xeb140101 then ''SATAPI''
     else if sig = 0xc33c0101 then ''Enclosure Management Bridge''
     else if sig = 0x96690101 then ''Port Multiplier''
     else ''Unknown'')"

text \<open>A register read up to \<open>n\<close> times until its value is accepted; \<open>v\<close> is the value read before.\<close>

fun wait_reg :: "'d hba \<Rightarrow> nat \<Rightarrow> (u32 \<Rightarrow> bool) \<Rightarrow> nat \<Rightarrow> u32 \<Rightarrow> 'd \<Rightarrow> u32 \<times> 'd" where
  "wait_reg hba r ok 0 v d = (v, d)"
| "wait_reg hba r ok (Suc n) v d =
    (case hba_read hba d r of (v, d) \<Rightarrow> if ok v then (v, d) else wait_reg hba r ok n v d)"

definition ahci_enable :: "'d hba \<Rightarrow> 'd \<Rightarrow> 'd" where
  "ahci_enable hba d = (case hba_read hba d HBA_GHC of (ghc_val, d) \<Rightarrow> hba_write hba d HBA_GHC (ghc_val OR push_bit 31 1))"

definition hba_reset :: "'d hba \<Rightarrow> 'd \<Rightarrow> 'd" where
  "hba_reset hba d =
    (case hba_read hba d HBA_GHC of (ghc_val, d) \<Rightarrow>
       snd (wait_reg hba HBA_GHC (\<lambda>v. v AND 1 = 0) 1000 0 (hba_write hba d HBA_GHC (ghc_val OR 1))))"

text \<open>Spin-up and detection; \<open>None\<close> when no device answers.\<close>

definition detect_port :: "'d hba \<Rightarrow> nat \<Rightarrow> 'd \<Rightarrow> bool \<times> 'd" where
  "detect_port hba port d =
    (case hba_read hba d (port + PxSSTS) of (ssts, d) \<Rightarrow>
       if ssts AND 0xf = 0 then (False, d)
       else case hba_read hba d (port + PxCMD) of (cmd, d) \<Rightarrow>
         let d = hba_write hba d (port + PxCMD) (cmd OR (push_bit 1 1 OR push_bit 2 1))
         in case hba_read hba d (port + PxSSTS) of (ssts, d) \<Rightarrow>
              case (if ssts AND 0xf \<noteq> 3 then wait_reg hba (port + PxSSTS) (\<lambda>v. v AND 0xf = 3) 100 ssts d else (ssts, d)) of
                (ssts, d) \<Rightarrow> (ssts AND 0xf = 3, d))"

definition port_signature :: "'d hba \<Rightarrow> nat \<Rightarrow> 'd \<Rightarrow> string \<times> 'd" where
  "port_signature hba port d =
    (case hba_read hba d (port + PxCMD) of (cmd, d) \<Rightarrow>
       let cmd = cmd OR push_bit 4 1;
           d = hba_write hba d (port + PxCMD) cmd;
           d = hba_write hba d (port + PxCMD) (cmd OR 1)
       in case hba_read hba d (port + PxSIG) of (sig, d) \<Rightarrow>
            case (if ahci_device_type sig = ''Unknown''
                  then wait_reg hba (port + PxSIG) (\<lambda>s. ahci_device_type s \<noteq> ''Unknown'') 500 sig d else (sig, d)) of
              (sig, d) \<Rightarrow> (ahci_device_type sig, d))"

text \<open>
  The command list and the FIS area the allocator hands out, with their physical addresses
  (\<open>None\<close> makes the \<open>unwrap\<close> panic), and whether the buffer for a model can be allocated.
\<close>

record dma_memory =
  cl_virt :: nat
  cl_phys :: "u64 option"
  fis_virt :: nat
  fis_phys :: "u64 option"
  model_alloc_ok :: bool

definition program_port :: "'d hba \<Rightarrow> nat \<Rightarrow> u64 \<Rightarrow> u64 \<Rightarrow> 'd \<Rightarrow> 'd" where
  "program_port hba port clp fp d =
    (let d = stop_port hba port d;
         d = hba_write hba d port (ucast clp);
         d = hba_write hba d (port + 1) (ucast (drop_bit 32 clp));
         d = hba_write hba d (port + 2) (ucast fp);
         d = hba_write hba d (port + 3) (ucast (drop_bit 32 fp))
     in start_port hba port d)"

definition setup_sata_port :: "'d hba \<Rightarrow> dma_memory \<Rightarrow> nat \<Rightarrow> 'd ahci \<Rightarrow> 'd ahci option" where
  "setup_sata_port hba mem port st =
    (case cl_phys mem of None \<Rightarrow> None
     | Some clp \<Rightarrow>
      (case fis_phys mem of None \<Rightarrow> None
       | Some fp \<Rightarrow>
        (let st = st\<lparr>dev := program_port hba port clp fp (dev st),
                     first_sata_port := once_set (first_sata_port st) port,
                     first_sata_port_cl := once_set (first_sata_port_cl st) (cl_virt mem),
                     first_sata_port_fis := once_set (first_sata_port_fis st) (fis_virt mem)\<rparr>;
             st = identify_device hba port st
         in Some (snd (try_load_raw_model hba st (model_alloc_ok mem))))))"

definition enumerate_port :: "'d hba \<Rightarrow> dma_memory \<Rightarrow> u32 \<Rightarrow> nat \<Rightarrow> 'd ahci \<Rightarrow> 'd ahci option" where
  "enumerate_port hba mem pi i st =
    (if pi AND push_bit i 1 = 0 then Some st
     else case detect_port hba (port_base i) (dev st) of
       (False, d) \<Rightarrow> Some (st\<lparr>dev := d\<rparr>)
     | (True, d) \<Rightarrow>
        (case port_signature hba (port_base i) d of
           (device_type, d) \<Rightarrow>
             if device_type = ''SATA'' \<and> i = 2 then setup_sata_port hba mem (port_base i) (st\<lparr>dev := d\<rparr>)
             else Some (st\<lparr>dev := d\<rparr>)))"

fun enumerate_ports :: "'d hba \<Rightarrow> dma_memory \<Rightarrow> u32 \<Rightarrow> nat list \<Rightarrow> 'd ahci \<Rightarrow> 'd ahci option" where
  "enumerate_ports hba mem pi [] st = Some st"
| "enumerate_ports hba mem pi (i # ps) st = Option.bind (enumerate_port hba mem pi i st) (enumerate_ports hba mem pi ps)"

text \<open>\<open>bar5\<close>: the ABAR is mapped; \<open>set_command\<close> enables bus mastering and the memory space.\<close>

definition enumerate_controller ::
  "'d hba \<Rightarrow> ('d \<Rightarrow> 'd) \<Rightarrow> bool \<Rightarrow> dma_memory \<Rightarrow> 'd ahci \<Rightarrow> 'd ahci option" where
  "enumerate_controller hba set_command bar5 mem st =
    (let d = set_command (dev st)
     in if \<not> bar5 then Some (st\<lparr>dev := d\<rparr>)
        else
          let d = ahci_enable hba (hba_reset hba (ahci_enable hba d));
              d = snd (hba_read hba d 0)
          in case hba_read hba d HBA_PI of (pi, d) \<Rightarrow>
               enumerate_ports hba mem pi [0..<32] (st\<lparr>dev := read_regs hba [4, HBA_GHC] d\<rparr>))"

section \<open>The driver's port is chosen once\<close>

definition keeps_port :: "'d ahci \<Rightarrow> 'd ahci \<Rightarrow> bool" where
  "keeps_port st st' \<longleftrightarrow> first_sata_port st' = first_sata_port st \<and> first_sata_port_cl st' = first_sata_port_cl st"

named_theorems port_intros

lemma keeps_port_simps [simp]: "keeps_port st st" "keeps_port st (st\<lparr>dev := d\<rparr>)"
  "keeps_port st (memory_db_register_state st lba)" "keeps_port st (st\<lparr>model_cache_start_lba := x\<rparr>)"
  "keeps_port st (set_model_info_with_source st m src)" "keeps_port st (st\<lparr>ssd_sector_count := c, dev := d\<rparr>)"
  by (simp_all add: keeps_port_def memory_db_register_state_def set_model_info_with_source_def)

lemma keeps_port_trans: "keeps_port a b \<Longrightarrow> keeps_port b c \<Longrightarrow> keeps_port a c"
  by (simp add: keeps_port_def)

lemma keeps_port_try_q [port_intros]:
  "keeps_port st (snd m) \<Longrightarrow> (\<And>x s. m = (Inr x, s) \<Longrightarrow> keeps_port s (snd (f x s))) \<Longrightarrow>
    keeps_port st (snd (try_q m f))"
  by (cases m; cases "fst m") (auto intro: keeps_port_trans)

lemma keeps_port_transfer [port_intros]: "keeps_port st (snd (transfer_sectors hba p st lba n b w))"
  by (auto simp: transfer_sectors_def Let_def split: option.split prod.split wait_result.split)

lemma keeps_port_sectors [port_intros]: "keeps_port st (snd (read_sectors hba st lba n))"
  "keeps_port st (snd (write_sectors hba st lba n b))"
  using keeps_port_transfer [of st hba _ lba n _ _]
  by (auto simp: read_sectors_def write_sectors_def split: option.split prod.split sum.split) (metis snd_conv)+

lemma keeps_port_map [port_intros]: "keeps_port st (snd (memory_db_read_map_header hba st lba))"
  "keeps_port st (snd (memory_db_write_map_header hba st lba used))"
  "keeps_port st (snd (memory_db_read_map_entry hba st lba i))"
  "keeps_port st (snd (memory_db_write_header hba st h))"
  by (auto simp: memory_db_read_map_header_def memory_db_write_map_header_def memory_db_read_map_entry_def
      memory_db_write_header_def intro!: port_intros split: option.split sum.split)

lemma keeps_port_zero [port_intros]: "keeps_port st (snd (zero_sectors_from hba st lba n))"
  by (induction n arbitrary: st lba) (auto intro!: port_intros)

lemma keeps_port_fresh [port_intros]: "keeps_port st (snd (write_fresh_db hba st lba cap ms ml))"
  by (auto simp: write_fresh_db_def Let_def intro!: port_intros)

lemma keeps_port_recover_loop [port_intros]: "keeps_port st (snd (recover_loop hba st lba e k cursor recovered))"
  by (induction k arbitrary: st cursor recovered) (auto intro!: port_intros split: option.split)

lemma keeps_port_recover: "memory_db_recover_from_map hba st h = (r, h', st') \<Longrightarrow> keeps_port st st'"
proof -
  assume eq: "memory_db_recover_from_map hba st h = (r, h', st')"
  obtain q s1 where m: "memory_db_read_map_header hba st (map_lba h) = (q, s1)" by force
  have s1: "keeps_port st s1"
    using keeps_port_map(1) [of st hba "map_lba h"] by (simp add: m)
  have loop: "recover_loop hba s1 lba e k c n = (x, s2) \<Longrightarrow> keeps_port st s2" for lba e k c n x s2
    using keeps_port_recover_loop [of s1 hba lba e k c n] keeps_port_trans [OF s1] by simp
  show ?thesis
    using eq s1 loop by (auto simp: memory_db_recover_from_map_def Let_def m split: if_splits sum.splits prod.splits)
qed

lemma keeps_port_existing [port_intros]:
  "keeps_port st (snd (ensure_existing hba st ex lba cap e ms ml))"
proof -
  obtain q s1 where m: "memory_db_read_map_header hba st (le_u64 ex 72) = (q, s1)" by force
  obtain r h s2 where c: "memory_db_recover_from_map hba s1 (existing_header ex ms ml) = (r, h, s2)"
    by (metis prod_cases3)
  have s: "keeps_port st s1" "keeps_port st s2" "keeps_port s2 (memory_db_register_state s2 lba)"
    using keeps_port_map(1) [of st hba "le_u64 ex 72"] keeps_port_recover [OF c] keeps_port_trans by (auto simp: m)
  have fresh: "keeps_port s (snd (write_fresh_db hba s lba cap ms ml))" for s
    by (intro port_intros)
  have publish: "keeps_port s2 (snd (try_q (memory_db_write_map_header hba s2 (map_lba h) (map_entries_used h))
      (\<lambda>_ st. memory_db_write_header hba (memory_db_register_state st lba) h)))"
    by (intro port_intros) (metis keeps_port_map(4) keeps_port_simps(3) keeps_port_trans)
  show ?thesis
    using fresh [of s1] fresh [of s2] publish s keeps_port_trans
    by (auto simp: ensure_existing_def Let_def m c split: sum.split)
qed

lemma keeps_port_ensure [port_intros]: "keeps_port st (snd (ensure_memory_db hba st lba ms ml))"
proof -
  obtain r s1 where rd: "read_sectors hba st lba 1 = (r, s1)" by force
  have s1: "keeps_port st s1"
    using keeps_port_sectors(1) [of st hba lba 1] by (simp add: rd)
  show ?thesis
    using keeps_port_trans [OF s1 keeps_port_fresh] keeps_port_trans [OF s1 keeps_port_existing]
    by (auto simp: ensure_memory_db_def rd Let_def split: option.split sum.split)
qed

lemma keeps_port_verify [port_intros]: "keeps_port st (snd (verify_raw_model_extent hba st lba n))"
proof -
  let ?last = "lba + sectors_for_bytes n - 1"
  obtain r s1 where rd: "read_sectors hba st ?last 1 = (r, s1)" by force
  have s1: "keeps_port st s1"
    using keeps_port_sectors(1) [of st hba ?last 1] by (simp add: rd)
  have s2: "keeps_port st (snd (ensure_memory_db hba s1 a b c))"
    "keeps_port st (snd (ensure_memory_db hba (snd (read_sectors hba s1 l 1)) a b c))" for a b c l
    using keeps_port_trans [OF s1 keeps_port_ensure] keeps_port_trans [OF s1 keeps_port_trans [OF keeps_port_sectors(1) keeps_port_ensure]] by blast+
  show ?thesis
    using s1 s2 by (auto simp: verify_raw_model_extent_def Let_def rd split: sum.split option.split)
qed

lemma keeps_port_load_loop [port_intros]: "keeps_port st (snd (load_model_loop hba st lba n off acc))"
proof (induction hba st lba n off acc rule: load_model_loop.induct)
  case (1 hba st lba n off acc)
  show ?case
    by (subst load_model_loop.simps) (auto simp: Let_def intro!: port_intros 1)
qed

lemma keeps_port_load_at: "keeps_port st (snd (load_model_at hba st ok lba n))"
proof -
  obtain v s1 where ve: "verify_raw_model_extent hba st lba n = (v, s1)" by force
  have s1: "keeps_port st s1"
    using keeps_port_verify [of st hba lba n] by (simp add: ve)
  obtain r s2 where lo: "load_model_loop hba s1 lba n 0 [] = (r, s2)" by force
  have s2: "keeps_port st s2"
    using keeps_port_trans [OF s1 keeps_port_load_loop [of s1 hba lba n 0 "[]"]] by (simp add: lo)
  show ?thesis
    using s1 s2 keeps_port_trans [OF s2 keeps_port_simps(5)] by (auto simp: load_model_at_def ve lo split: sum.split)
qed

lemma keeps_port_load: "keeps_port st (snd (try_load_raw_model hba st ok))"
proof -
  obtain c s1 where d: "discover_model_cache_lba st = (c, s1)" by force
  have s1: "keeps_port st s1"
    using d by (auto simp: discover_model_cache_lba_def split: option.splits)
  have "keeps_port st (snd (load_model_at hba s2 ok a b))" "keeps_port st s2" if "read_sectors hba s1 l 1 = (r, s2)" for l r s2 a b
    using keeps_port_sectors(1) [of s1 hba l 1] keeps_port_load_at keeps_port_trans s1 that by (metis snd_conv)+
  then show ?thesis
    using s1 by (auto simp: try_load_raw_model_def d split: option.split prod.split sum.split)
qed

lemma setup_sata_port_sets:
  assumes "first_sata_port st = None" and "first_sata_port_cl st = None" and "setup_sata_port hba mem port st = Some st'"
  shows "first_sata_port st' = Some port \<and> first_sata_port_cl st' = Some (cl_virt mem)"
proof -
  obtain clp fp where p: "cl_phys mem = Some clp" "fis_phys mem = Some fp"
    using assms(3) by (auto simp: setup_sata_port_def split: option.splits)
  define s1 where "s1 = st\<lparr>dev := program_port hba port clp fp (dev st), first_sata_port := once_set (first_sata_port st) port,
    first_sata_port_cl := once_set (first_sata_port_cl st) (cl_virt mem),
    first_sata_port_fis := once_set (first_sata_port_fis st) (fis_virt mem)\<rparr>"
  have s1: "first_sata_port s1 = Some port" "first_sata_port_cl s1 = Some (cl_virt mem)"
    "st' = snd (try_load_raw_model hba (identify_device hba port s1) (model_alloc_ok mem))"
    using assms p by (simp_all add: setup_sata_port_def Let_def s1_def once_set_def)
  have "keeps_port s1 (identify_device hba port s1)"
    by (auto simp: identify_device_def Let_def split: prod.split)
  then have "keeps_port s1 st'"
    using keeps_port_trans [OF _ keeps_port_load] s1(3) by blast
  then show ?thesis
    using s1 by (simp add: keeps_port_def)
qed

text \<open>A port but the third changes the device only; the third sets the statics at most once.\<close>

lemma enumerate_port_cases:
  assumes "enumerate_port hba mem pi i st = Some st'" and "first_sata_port st = None" and "first_sata_port_cl st = None"
  shows "keeps_port st st' \<or> i = 2 \<and> first_sata_port st' = Some (port_base 2) \<and> first_sata_port_cl st' = Some (cl_virt mem)"
  using assms setup_sata_port_sets [of "st\<lparr>dev := _\<rparr>" hba mem "port_base 2" st']
  by (auto simp: enumerate_port_def split: if_splits prod.splits bool.splits)

lemma enumerate_port_other: "enumerate_port hba mem pi i st = Some st' \<Longrightarrow> i \<noteq> 2 \<Longrightarrow> keeps_port st st'"
  by (auto simp: enumerate_port_def split: if_splits prod.splits bool.splits)

lemma enumerate_ports_other: "enumerate_ports hba mem pi ps st = Some st' \<Longrightarrow> 2 \<notin> set ps \<Longrightarrow> keeps_port st st'"
  by (induction ps arbitrary: st) (auto simp: Option.bind_eq_Some_conv dest: enumerate_port_other intro: keeps_port_trans)

lemma enumerate_ports_cases:
  assumes "enumerate_ports hba mem pi ps st = Some st'" and "distinct ps"
    and "first_sata_port st = None" and "first_sata_port_cl st = None"
  shows "keeps_port st st' \<or> first_sata_port st' = Some (port_base 2) \<and> first_sata_port_cl st' = Some (cl_virt mem)"
  using assms
proof (induction ps arbitrary: st)
  case (Cons i ps)
  then obtain s1 where s1: "enumerate_port hba mem pi i st = Some s1" "enumerate_ports hba mem pi ps s1 = Some st'"
    by (auto simp: Option.bind_eq_Some_conv)
  from enumerate_port_cases [OF s1(1) Cons.prems(3,4)] show ?case
  proof
    assume k: "keeps_port st s1"
    then show ?thesis
      using Cons.IH [OF s1(2)] Cons.prems k by (auto simp: keeps_port_def)
  next
    assume "i = 2 \<and> first_sata_port s1 = Some (port_base 2) \<and> first_sata_port_cl s1 = Some (cl_virt mem)"
    then show ?thesis
      using enumerate_ports_other [OF s1(2)] Cons.prems(2) by (auto simp: keeps_port_def)
  qed
qed (simp add: keeps_port_def)

lemma enumerate_ports_total:
  "cl_phys mem \<noteq> None \<Longrightarrow> fis_phys mem \<noteq> None \<Longrightarrow> enumerate_ports hba mem pi ps st \<noteq> None"
proof (induction ps arbitrary: st)
  case (Cons i ps)
  then have "enumerate_port hba mem pi i st \<noteq> None"
    by (auto simp: enumerate_port_def setup_sata_port_def Let_def split: prod.split bool.split)
  then show ?case
    using Cons by auto
qed simp

section \<open>Properties\<close>


text \<open>An adapter whose only device is a SATA disk of zeros at port 2.\<close>

definition zero_hba :: "unit hba" where
  "zero_hba = \<lparr>hba_read = (\<lambda>d r. (if r = HBA_PI then 4 else if r = port_base 2 + PxSSTS then 3
       else if r = port_base 2 + PxSIG then 0x101 else 0, d)),
     hba_write = (\<lambda>d r v. d), hba_set_command = (\<lambda>d h t b. d), hba_buffer = (\<lambda>d. replicate 512 0),
     hba_ct_phys = 0, hba_data_phys = 0\<rparr>"

definition zero_ahci :: "unit ahci" where
  "zero_ahci = \<lparr>first_sata_port = None, first_sata_port_cl = None, first_sata_port_fis = None,
     model_cache_start_lba = None, ssd_sector_count = None, memory_db_header_lba = None, model_info = None, dev = ()\<rparr>"

definition zero_memory :: dma_memory where
  "zero_memory = \<lparr>cl_virt = 7, cl_phys = Some 4096, fis_virt = 8, fis_phys = Some 8192, model_alloc_ok = True\<rparr>"


end
