(* ===== verification/QaTextLaws.thy ===== *)
theory QaTextLaws
  imports QaText
begin

text \<open>
  Laws of the byte-string routines: the scanning word matcher decides contiguous occurrence of
  words, the searches return the first occurrence, decimal numbers are read back, and trimming is
  idempotent.
\<close>

named_theorems text_simps \<open>searches and scans over byte strings\<close>

section \<open>Scans, searches and windows\<close>

lemma scan_while_takeWhile: "scan_while p xs i = i + length (takeWhile p (drop i xs))"
proof (induction p xs i rule: scan_while.induct)
  case (1 p xs i)
  show ?case
  proof (cases "i < length xs \<and> p (xs ! i)")
    case True
    then have "drop i xs = xs ! i # drop (Suc i) xs"
      by (simp add: Cons_nth_drop_Suc)
    with True 1 show ?thesis
      by (subst scan_while.simps) simp
  next
    case False
    then have "takeWhile p (drop i xs) = []"
      by (cases "i < length xs") (simp_all add: Cons_nth_drop_Suc [symmetric])
    with False show ?thesis
      by (subst scan_while.simps) auto
  qed
qed

lemma position_Some:
  "position p xs = Some i \<longleftrightarrow> i < length xs \<and> p (xs ! i) \<and> (\<forall>j < i. \<not> p (xs ! j))"
proof (induction xs arbitrary: i)
  case (Cons x xs)
  then show ?case
    by (cases i) (auto simp: less_Suc_eq_0_disj all_conj_distrib)
qed simp

lemma position_None: "position p xs = None \<longleftrightarrow> (\<forall>x \<in> set xs. \<not> p x)"
  by (induction xs) auto

lemma length_windows [simp]: "length (windows n xs) = Suc (length xs) - n"
  by (simp add: windows_def)

lemma nth_windows [simp]: "i < Suc (length xs) - n \<Longrightarrow> windows n xs ! i = take n (drop i xs)"
  by (simp add: windows_def)

lemma find_byte_Some: "find_byte bs b = Some i \<longleftrightarrow> i < length bs \<and> bs ! i = b \<and> b \<notin> set (take i bs)"
  by (auto simp: find_byte_def position_Some in_set_conv_nth)

lemma find_byte_first [text_simps]: "b \<notin> set xs \<Longrightarrow> find_byte (xs @ b # ys) b = Some (length xs)"
  by (simp add: find_byte_Some)

lemma find_subslice_Some:
  "find_subslice bs needle = Some i \<longleftrightarrow> needle \<noteq> [] \<and> i + length needle \<le> length bs \<and>
     take (length needle) (drop i bs) = needle \<and> (\<forall>j < i. take (length needle) (drop j bs) \<noteq> needle)"
proof (cases "needle = [] \<or> length bs < length needle")
  case True
  then show ?thesis by (auto simp: find_subslice_def)
next
  case False
  then have "i < Suc (length bs) - length needle \<longleftrightarrow> i + length needle \<le> length bs" for i
    by auto
  with False show ?thesis
    by (auto simp: find_subslice_def position_Some)
qed

lemma find_subslice_bound:
  "find_subslice bs needle = Some i \<Longrightarrow> i + length needle \<le> length bs"
  by (simp add: find_subslice_Some)

lemma find_subslice_first [text_simps]:
  assumes "needle \<noteq> []" and "\<And>j. j < length xs \<Longrightarrow> take (length needle) (drop j xs @ needle) \<noteq> needle"
  shows "find_subslice (xs @ needle @ ys) needle = Some (length xs)"
proof -
  have "take (length needle) (drop j (xs @ needle @ ys)) = take (length needle) (drop j xs @ needle)"
    if "j < length xs" for j
    using that by (simp add: take_append)
  then show ?thesis
    using assms by (auto simp: find_subslice_Some)
qed

text \<open>A needle can only start where its first byte is.\<close>

lemma find_subslice_skip:
  assumes "needle = b # ns" and "b \<notin> set xs"
  shows "find_subslice (xs @ needle @ ys) needle = Some (length xs)"
proof (rule find_subslice_first)
  show "take (length needle) (drop j xs @ needle) \<noteq> needle" if "j < length xs" for j
  proof -
    have "xs ! j \<noteq> b"
      using assms(2) that nth_mem by metis
    then show ?thesis
      using that assms(1) by (simp add: Cons_nth_drop_Suc [symmetric])
  qed
qed (simp add: assms(1))

lemma find_subslice_after:
  assumes "needle = b # ns" and "b \<notin> set xs" and "find_subslice (xs @ ys) needle = Some i"
  shows "length xs \<le> i"
proof (rule ccontr)
  assume "\<not> length xs \<le> i"
  then have i: "i < length xs" by simp
  have "take (length needle) (xs ! i # drop (Suc i) xs @ ys) = needle"
    using assms(3) i by (simp add: find_subslice_Some Cons_nth_drop_Suc [symmetric])
  then have "xs ! i = b"
    using assms(1) by simp
  then show False
    using i assms(2) nth_mem by metis
qed

section \<open>Case-insensitive comparison\<close>

definition lower :: "bytes \<Rightarrow> bytes" where
  "lower bs = map to_ascii_lowercase bs"

lemma length_lower [simp]: "length (lower bs) = length bs"
  by (simp add: lower_def)

lemma zip_all_eq:
  "length xs = length ys \<Longrightarrow>
     list_all (\<lambda>(l, r). eq_ignore_ascii_case_byte l r) (zip xs ys) \<longleftrightarrow> lower xs = lower ys"
  by (induction xs ys rule: list_induct2) (auto simp: eq_ignore_ascii_case_byte_def lower_def)

lemma eq_slice_lower: "eq_ignore_ascii_case_slice xs ys \<longleftrightarrow> lower xs = lower ys"
proof
  assume eq: "lower xs = lower ys"
  then have "length xs = length ys"
    by (metis length_lower)
  with eq show "eq_ignore_ascii_case_slice xs ys"
    by (simp add: eq_ignore_ascii_case_slice_def zip_all_eq)
qed (auto simp: eq_ignore_ascii_case_slice_def zip_all_eq)

lemma sublist_take_drop:
  "sublist xs ys \<longleftrightarrow> (\<exists>i. i + length xs \<le> length ys \<and> take (length xs) (drop i ys) = xs)"
proof
  assume "sublist xs ys"
  then obtain ps ss where "ys = ps @ xs @ ss" by (auto simp: sublist_def)
  then show "\<exists>i. i + length xs \<le> length ys \<and> take (length xs) (drop i ys) = xs"
    by (intro exI [of _ "length ps"]) simp
next
  assume "\<exists>i. i + length xs \<le> length ys \<and> take (length xs) (drop i ys) = xs"
  then obtain i where "take (length xs) (drop i ys) = xs" by blast
  then have "ys = take i ys @ xs @ drop (length xs) (drop i ys)"
    by (metis append_take_drop_id)
  then show "sublist xs ys"
    by (auto simp: sublist_def)
qed

lemma contains_case_insensitive_ref:
  "contains_case_insensitive haystack needle \<longleftrightarrow> needle \<noteq> [] \<and> sublist (lower needle) (lower haystack)"
proof (cases "needle = [] \<or> length haystack < length needle")
  case True
  then show ?thesis
    by (auto simp: contains_case_insensitive_def dest: sublist_length_le)
next
  case False
  then have "i < Suc (length haystack) - length needle \<longleftrightarrow> i + length needle \<le> length haystack" for i
    by auto
  then have "(\<exists>window \<in> set (windows (length needle) haystack). P window) \<longleftrightarrow>
    (\<exists>i. i + length needle \<le> length haystack \<and> P (take (length needle) (drop i haystack)))" for P
    using False by (auto simp: in_set_conv_nth Bex_def)
  moreover have "list_all (\<lambda>(l, r). eq_ignore_ascii_case_byte l r) (zip (take (length needle) (drop i haystack)) needle)
    \<longleftrightarrow> take (length needle) (drop i (lower haystack)) = lower needle" if "i + length needle \<le> length haystack" for i
    using that by (subst zip_all_eq) (simp_all add: lower_def take_map drop_map)
  ultimately show ?thesis
    using False by (auto simp: contains_case_insensitive_def list_ex_iff sublist_take_drop)
qed

section \<open>The word matcher\<close>

text \<open>The maximal runs of word bytes, and the matcher as a fold over them.\<close>

function split_words :: "bytes \<Rightarrow> bytes list" where
  "split_words bs =
     (let ws = dropWhile (\<lambda>b. \<not> is_word_byte b) bs
      in if ws = [] then [] else takeWhile is_word_byte ws # split_words (dropWhile is_word_byte ws))"
  by pat_completeness auto
termination
proof (relation "measure length")
  fix bs :: bytes and ws
  assume ws: "ws = dropWhile (\<lambda>b. \<not> is_word_byte b) bs" and "ws \<noteq> []"
  then obtain b rest where "ws = b # rest" "is_word_byte b"
    using hd_dropWhile [of "\<lambda>b. \<not> is_word_byte b" bs] by (metis list.collapse)
  then have "length (dropWhile is_word_byte ws) < length ws"
    by (simp add: length_dropWhile_le less_Suc_eq_le)
  also have "length ws \<le> length bs"
    using ws by (simp add: length_dropWhile_le)
  finally show "(dropWhile is_word_byte ws, bs) \<in> measure length" by simp
qed simp

declare split_words.simps [simp del]

fun match_words :: "bytes list \<Rightarrow> nat \<Rightarrow> bytes list \<Rightarrow> bool" where
  "match_words words k [] = False"
| "match_words words k (w # ws) =
     (if lower w = lower (words ! k) then
        if Suc k = length words then True else match_words words (Suc k) ws
      else match_words words (if lower w = lower (words ! 0) then 1 else 0) ws)"

lemma split_words_nonword: "\<not> is_word_byte b \<Longrightarrow> split_words (b # bs) = split_words bs"
  by (simp add: split_words.simps)

lemma word_sequence_loop_match:
  "word_sequence_loop t words k start = match_words words k (split_words (drop start t))"
proof (induction t words k start rule: word_sequence_loop.induct)
  case (1 t words k start)
  show ?case
  proof (cases "start < length t")
    case False
    then show ?thesis
      by (subst word_sequence_loop.simps) (simp add: split_words.simps)
  next
    case True
    let ?bs = "drop start t"
    define s where "s = scan_while (\<lambda>b. \<not> is_word_byte b) t start"
    define e where "e = scan_while is_word_byte t s"
    have s: "drop s t = dropWhile (\<lambda>b. \<not> is_word_byte b) ?bs"
      by (simp add: s_def scan_while_takeWhile dropWhile_eq_drop add.commute)
    have e: "drop e t = dropWhile is_word_byte (drop s t)" "subslice t s e = takeWhile is_word_byte (drop s t)"
      by (simp_all add: e_def scan_while_takeWhile dropWhile_eq_drop add.commute subslice_def takeWhile_eq_take [symmetric])
    have se: "s < e \<longleftrightarrow> drop s t \<noteq> []"
    proof (cases "drop s t")
      case (Cons b rest)
      then have "is_word_byte b"
        using hd_dropWhile [of "\<lambda>b. \<not> is_word_byte b" ?bs] unfolding s by auto
      with Cons show ?thesis by (simp add: e_def scan_while_takeWhile)
    qed (simp add: e_def scan_while_takeWhile)
    have tail: "split_words (drop (Suc e) t) = split_words (drop e t)"
    proof (cases "drop e t")
      case (Cons b rest)
      then have "\<not> is_word_byte b"
        using hd_dropWhile [of is_word_byte "drop s t"] unfolding e(1) by auto
      moreover have "drop (Suc e) t = rest"
        using Cons by (metis drop_Suc list.sel(3) tl_drop)
      ultimately show ?thesis
        using Cons split_words_nonword by simp
    qed (simp add: drop_eq_Nil2)
    have words: "split_words ?bs =
      (if s < e then subslice t s e # split_words (drop (Suc e) t) else [])"
      unfolding se tail e by (subst split_words.simps) (simp add: s Let_def)
    note IH = 1 [OF True s_def e_def refl]
    have unfold: "word_sequence_loop t words k start =
      (if s < e \<and> eq_ignore_ascii_case_slice (subslice t s e) (words ! k) then
         if Suc k = length words then True else word_sequence_loop t words (Suc k) (Suc e)
       else if s < e then word_sequence_loop t words
         (if eq_ignore_ascii_case_slice (subslice t s e) (words ! 0) then 1 else 0) (Suc e)
       else word_sequence_loop t words k (Suc e))"
      using True by (subst word_sequence_loop.simps) (simp only: Let_def s_def e_def if_True)
    show ?thesis
    proof (cases "s < e")
      case False
      then have "drop e t = []"
        using se e(1) by simp
      then have "split_words (drop (Suc e) t) = []"
        unfolding tail by (simp add: split_words.simps)
      then show ?thesis
        using False IH(3) unfold words by simp
    next
      case True
      then show ?thesis
        unfolding unfold words using IH(1,2) by (simp add: eq_slice_lower)
    qed
  qed
qed

text \<open>
  With pairwise distinct words a partial match can only be resumed at its first word, so the
  matcher's fallback to index 1 or 0 loses no occurrence.
\<close>

lemma sublist_take_dropI: "take n (drop i ys) = xs \<Longrightarrow> sublist xs ys"
  using append_take_drop_id [of i ys] append_take_drop_id [of n "drop i ys"]
  unfolding sublist_def by metis

lemma sublist_prefix_mismatch:
  assumes "distinct ds" and "k < length ds" and "x \<noteq> ds ! k"
  shows "sublist ds (take k ds @ x # ys) \<longleftrightarrow> sublist ds (take (if x = ds ! 0 then 1 else 0) ds @ ys)"
    (is "?lhs \<longleftrightarrow> ?rhs")
proof
  have ne: "ds \<noteq> []" using assms(2) by auto
  then have one: "take 1 ds = [ds ! 0]"
    by (cases ds) simp_all
  assume ?lhs
  then obtain p where p: "p + length ds \<le> length (take k ds @ x # ys)"
    "take (length ds) (drop p (take k ds @ x # ys)) = ds"
    by (auto simp: sublist_take_drop)
  have at: "(take k ds @ x # ys) ! (p + i) = ds ! i" if "i < length ds" for i
    using arg_cong [OF p(2), of "\<lambda>zs. zs ! i"] that p(1) by (simp del: drop_append take_append)
  have "\<not> p < k"
  proof
    assume "p < k"
    then have "p = 0"
      using at [of 0] assms(1,2) ne by (auto simp: nth_append nth_eq_iff_index_eq)
    then show False
      using at [OF assms(2)] assms(2,3) by (simp add: nth_append)
  qed
  then have tail: "take (length ds) (drop (p - k) (x # ys)) = ds" "k \<le> p"
    using p(2) assms(2) by (simp_all add: min_def)
  show ?rhs
  proof (cases "p = k")
    case True
    then have "x = ds ! 0"
      using tail(1) ne by (cases ds) simp_all
    moreover have "sublist ds (x # ys)"
      by (rule sublist_take_dropI [OF tail(1)])
    ultimately show ?thesis
      using one by simp
  next
    case False
    then have "take (length ds) (drop (p - Suc k) ys) = ds"
      using tail by (simp add: drop_Cons')
    then have "sublist ds ys"
      by (rule sublist_take_dropI)
    then show ?thesis
      by (rule sublist_order.order_trans) (rule sublist_append_leftI)
  qed
next
  assume ?rhs
  moreover have "take (if x = ds ! 0 then 1 else 0) ds @ ys = (if x = ds ! 0 then [x] else []) @ ys"
    using assms(2) by (cases ds) auto
  ultimately have "sublist ds (x # ys)"
    using sublist_append_leftI [of ys "[x]"] by (cases "x = ds ! 0") (auto intro: sublist_order.order_trans)
  then show ?lhs
    by (rule sublist_order.order_trans) (rule sublist_append_leftI)
qed

lemma match_words_sublist:
  assumes "distinct (map lower words)" and "k < length words"
  shows "match_words words k ws \<longleftrightarrow> sublist (map lower words) (take k (map lower words) @ map lower ws)"
  using assms(2)
proof (induction ws arbitrary: k)
  case Nil
  then show ?case
    using sublist_length_le [of "map lower words" "take k (map lower words)"] by auto
next
  case (Cons w ws)
  let ?ds = "map lower words"
  show ?case
  proof (cases "lower w = ?ds ! k")
    case True
    then have eq: "take k ?ds @ map lower (w # ws) = take (Suc k) ?ds @ map lower ws"
      using Cons.prems by (simp add: take_Suc_conv_app_nth)
    show ?thesis
    proof (cases "Suc k = length words")
      case full: True
      then have "take (Suc k) ?ds = ?ds" by simp
      then have "sublist ?ds (take k ?ds @ map lower (w # ws))"
        unfolding eq by (simp del: take_map add: sublist_append_rightI)
      with True full Cons.prems show ?thesis by simp
    next
      case False
      then have "match_words words (Suc k) ws = sublist ?ds (take (Suc k) ?ds @ map lower ws)"
        using Cons by simp
      with True False Cons.prems show ?thesis unfolding eq by simp
    qed
  next
    case False
    have two: "lower w = lower (words ! 0) \<Longrightarrow> 1 < length words"
      using False Cons.prems by (cases k) auto
    have "match_words words (if lower w = lower (words ! 0) then 1 else 0) ws =
        sublist ?ds (take (if lower w = lower (words ! 0) then 1 else 0) ?ds @ map lower ws)"
      by (rule Cons.IH) (use two Cons.prems in auto)
    moreover have "?ds ! k = lower (words ! k)" "?ds ! 0 = lower (words ! 0)"
      using Cons.prems by (auto intro!: nth_map)
    ultimately show ?thesis
      using sublist_prefix_mismatch [OF assms(1), of k "lower w" "map lower ws"] False Cons.prems
      by (simp del: take_map)
  qed
qed

lemma contains_word_sequence_words:
  assumes "distinct (map lower words)"
  shows "contains_word_sequence t words \<longleftrightarrow>
    words \<noteq> [] \<and> sublist (map lower words) (map lower (split_words t))"
  using match_words_sublist [OF assms, of 0 "split_words t"]
  by (cases words) (simp_all add: contains_word_sequence_def word_sequence_loop_match)

section \<open>Decimal numbers\<close>

lemma parse_decimal_loop_append:
  "parse_decimal_loop v (xs @ ys) =
     (case parse_decimal_loop v xs of None \<Rightarrow> None | Some w \<Rightarrow> parse_decimal_loop w ys)"
  by (induction v xs rule: parse_decimal_loop.induct) (auto split: option.splits)

lemma digit_byte:
  fixes d :: nat
  assumes "d < 10"
  shows "48 \<le> (48 + word_of_nat d :: u8)" "48 + word_of_nat d \<le> (57 :: u8)"
    "unat ((48 + word_of_nat d :: u8) - 48) = d"
proof -
  have "unat (word_of_nat d :: u8) = d"
    using assms by (simp add: unat_of_nat take_bit_nat_eq_self)
  moreover from this have "unat (48 + word_of_nat d :: u8) = 48 + d"
    using assms by (simp add: unat_word_ariths)
  ultimately show "48 \<le> (48 + word_of_nat d :: u8)" "48 + word_of_nat d \<le> (57 :: u8)"
    "unat ((48 + word_of_nat d :: u8) - 48) = d"
    using assms by (simp_all add: word_le_nat_alt)
qed

lemma parse_decimal_loop_digits:
  "v \<le> usize_max \<Longrightarrow> parse_decimal_loop 0 (rev (decimal_digits v)) = Some v"
proof (induction v rule: decimal_digits.induct)
  case (1 v)
  show ?case
  proof (cases "v = 0")
    case False
    then have "parse_decimal_loop 0 (rev (decimal_digits (v div 10))) = Some (v div 10)"
      using 1 by simp
    moreover have "v div 10 * 10 \<le> usize_max" "v div 10 * 10 + v mod 10 \<le> usize_max"
      using 1(2) by simp_all
    ultimately show ?thesis
      using False digit_byte [of "v mod 10"]
      by (subst decimal_digits.simps) (simp add: parse_decimal_loop_append checked_mul_def checked_add_def)
  qed (simp add: decimal_digits.simps)
qed

lemma append_decimal_prefix: "append_decimal target v = target @ append_decimal [] v"
  by (simp add: append_decimal_def)

lemma decimal_digits_nonempty: "v \<noteq> 0 \<Longrightarrow> decimal_digits v \<noteq> []"
  by (subst decimal_digits.simps) simp

lemma parse_append_decimal: "v \<le> usize_max \<Longrightarrow> parse_decimal (append_decimal [] v) = Some v"
  using parse_decimal_loop_digits [of v] decimal_digits_nonempty [of v]
  by (auto simp: append_decimal_def parse_decimal_def checked_mul_def checked_add_def)

lemma length_decimal_digits: "v < 10 ^ n \<Longrightarrow> length (decimal_digits v) \<le> n"
proof (induction n arbitrary: v)
  case 0
  then show ?case by (simp add: decimal_digits.simps)
next
  case (Suc n)
  then have "v div 10 < 10 ^ n"
    by (simp add: less_mult_imp_div_less mult.commute)
  then show ?case
    using Suc.IH [of "v div 10"] by (subst decimal_digits.simps) simp
qed

lemma length_append_decimal:
  "v \<le> usize_max \<Longrightarrow> length (append_decimal [] v) \<le> 20" "append_decimal [] v \<noteq> []"
  using length_decimal_digits [of v 20] decimal_digits_nonempty [of v]
  by (auto simp: append_decimal_def usize_max_def)

lemma decimal_bytes: "b \<in> set (append_decimal [] v) \<Longrightarrow> 48 \<le> b \<and> b \<le> 57"
proof -
  have "b \<in> set (decimal_digits v) \<Longrightarrow> 48 \<le> b \<and> b \<le> 57"
    by (induction v rule: decimal_digits.induct)
      (subst (asm) (2) decimal_digits.simps, auto simp: digit_byte split: if_splits)
  then show "b \<in> set (append_decimal [] v) \<Longrightarrow> 48 \<le> b \<and> b \<le> 57"
    by (auto simp: append_decimal_def split: if_splits)
qed

section \<open>Trimming\<close>

lemma dropWhile_rev_idem: "dropWhile p (rev (dropWhile p (rev xs))) = rev (dropWhile p (rev (dropWhile p xs)))"
proof (induction xs)
  case (Cons x xs)
  show ?case
  proof (cases "p x")
    case True
    have "rev (dropWhile p (rev xs @ [x])) = (if \<forall>y \<in> set xs. p y then [] else x # rev (dropWhile p (rev xs)))"
      using True by (simp add: dropWhile_append)
    with True Cons show ?thesis
      by (auto simp: dropWhile_eq_Nil_conv dest: set_dropWhileD)
  next
    case False
    then show ?thesis
      by (simp add: dropWhile_append dropWhile_eq_Nil_conv)
  qed
qed simp

lemma trim_ascii_idem [simp]: "trim_ascii (trim_ascii bs) = trim_ascii bs"
  unfolding trim_ascii_def rev_rev_ident by (simp add: dropWhile_rev_idem [of _ "dropWhile is_trim_byte bs"])

lemma sublist_dropWhile: "sublist (dropWhile p xs) xs"
  by (metis sublist_append_leftI takeWhile_dropWhile_id)

lemma trim_ascii_sublist: "sublist (trim_ascii bs) bs"
  unfolding trim_ascii_def
  by (meson sublist_dropWhile sublist_order.order_trans sublist_rev_left)

lemma trim_ascii_length: "length (trim_ascii bs) \<le> length bs"
  by (rule sublist_length_le [OF trim_ascii_sublist])

section \<open>The cleaned answer\<close>

lemma strip_first_prefix_trimmed:
  "trim_ascii answer = answer \<Longrightarrow>
     trim_ascii (strip_first_prefix answer ps) = strip_first_prefix answer ps \<and>
     sublist (strip_first_prefix answer ps) answer"
proof (induction ps)
  case (Cons p ps)
  have "sublist (trim_ascii (drop (length p) answer)) answer"
    by (rule sublist_order.order_trans [OF trim_ascii_sublist]) simp
  with Cons show ?case
    by (simp add: strip_prefix_once_def)
qed simp

lemma trim_orphan_trimmed:
  "trim_ascii (trim_trailing_orphan_one bs) = trim_trailing_orphan_one bs \<and>
     sublist (trim_trailing_orphan_one bs) bs"
proof -
  have "sublist (trim_ascii (take m (trim_ascii bs))) bs" for m
    by (meson sublist_order.order_trans trim_ascii_sublist sublist_take)
  then show ?thesis
    by (simp add: trim_trailing_orphan_one_def Let_def trim_ascii_sublist split: option.split)
qed

section \<open>Properties\<close>

text \<open>
  C21.  The scanning loop of \<open>contains_word_sequence\<close> decides, for needles of pairwise distinct words,
  whether the words of the text contain the needle as consecutive words, ignoring case.
\<close>

theorem word_sequence_equivalent:
  assumes "distinct (map lower words)"
  shows "contains_word_sequence t words \<longleftrightarrow>
    words \<noteq> [] \<and> sublist (map lower words) (map lower (split_words t))"
  by (rule contains_word_sequence_words [OF assms])

theorem word_sequence_equivalent_witness:
  "contains_word_sequence (ascii ''the Secure, phrase'') [ascii ''secure'', ascii ''phrase''] \<longleftrightarrow>
     sublist (map lower [ascii ''secure'', ascii ''phrase'']) (map lower (split_words (ascii ''the Secure, phrase'')))"
proof -
  have "distinct (map lower [ascii ''secure'', ascii ''phrase''])"
    by code_simp
  from word_sequence_equivalent [OF this] show ?thesis by simp
qed

definition plain_needle :: "string list \<Rightarrow> bool" where
  "plain_needle ns \<longleftrightarrow> ns \<noteq> [] \<and> distinct (map ascii ns) \<and> list_all (\<lambda>n. lower (ascii n) = ascii n) ns"

lemma contains_plain_needle:
  assumes "plain_needle ns"
  shows "contains_word_sequence t (map ascii ns) \<longleftrightarrow> sublist (map ascii ns) (map lower (split_words t))"
proof -
  have "map lower (map ascii ns) = map ascii ns"
    using assms by (auto simp: plain_needle_def list_all_iff)
  with assms show ?thesis
    using contains_word_sequence_words [of "map ascii ns" t]
    by (simp only: plain_needle_def) simp
qed

lemma memory_key_needles:
  "plain_needle [''secure'', ''phrase'']" "plain_needle [''stored'', ''secure'', ''phrase'']"
  "plain_needle [''secured'', ''stored'', ''phrase'']" "plain_needle [''secret'', ''phrase'']"
  "plain_needle [''secret'', ''key'']" "plain_needle [''memory'', ''test'', ''phrase'']"
  "plain_needle [''project'', ''codename'']" "plain_needle [''code'', ''name'']" "plain_needle [''codename'']"
  by code_simp+

lemma sublist_singleton: "sublist [x] xs \<longleftrightarrow> x \<in> set xs"
  by (auto simp: sublist_def in_set_conv_decomp)

lemma sublist_tail: "sublist (x # xs) ys \<Longrightarrow> sublist xs ys"
  using sublist_order.order_trans [of xs "x # xs" ys] sublist_append_leftI [of xs "[x]"] by simp

text \<open>
  C35.  The key of a text depends only on its sequence of words, without case: the needles for
  "stored secure phrase" and "project codename" are subsumed by shorter ones, and keys are tried
  in the order secure phrase, secret phrase, memory test phrase, codename.
\<close>

theorem memory_key_words:
  "memory_key_from_text t =
     (let ws = map lower (split_words t); has = (\<lambda>needle. sublist (map ascii needle) ws)
      in if has [''secure'', ''phrase''] \<or> has [''secured'', ''stored'', ''phrase'']
         then Some (ascii ''secure phrase'')
         else if has [''secret'', ''phrase''] \<or> has [''secret'', ''key''] then Some (ascii ''secret phrase'')
         else if has [''memory'', ''test'', ''phrase''] then Some (ascii ''memory test phrase'')
         else if has [''code'', ''name''] \<or> ascii ''codename'' \<in> set ws then Some (ascii ''codename'')
         else None)"
proof -
  let ?has = "\<lambda>needle. sublist (map ascii needle) (map lower (split_words t))"
  note contains = memory_key_needles [THEN contains_plain_needle, of t]
  have "?has [''stored'', ''secure'', ''phrase''] \<Longrightarrow> ?has [''secure'', ''phrase'']"
    and "?has [''project'', ''codename''] \<Longrightarrow> ?has [''codename'']"
    unfolding list.map by (rule sublist_tail, assumption)+
  moreover have "?has [''codename''] \<longleftrightarrow> ascii ''codename'' \<in> set (map lower (split_words t))"
    unfolding list.map by (rule sublist_singleton)
  ultimately show ?thesis
    using contains unfolding memory_key_from_text_def Let_def list.map by argo
qed

text \<open>
  C39.  The answer that is shown and stored is a contiguous part of the generated text with no
  whitespace at either end: removing the prefix and the stray trailing list marker never invents
  or reorders bytes.
\<close>

theorem answer_bytes_clean:
  "sublist (ram_shell_answer_bytes generated) generated \<and>
     trim_ascii (ram_shell_answer_bytes generated) = ram_shell_answer_bytes generated"
proof -
  let ?a = "strip_first_prefix (trim_ascii generated) [ascii ''Answer:'', ascii ''Final answer:'', ascii ''A:'']"
  have "sublist ?a (trim_ascii generated)"
    by (rule strip_first_prefix_trimmed [THEN conjunct2]) simp
  then have "sublist ?a generated"
    by (rule sublist_order.order_trans [OF _ trim_ascii_sublist])
  then show ?thesis
    unfolding ram_shell_answer_bytes_def using trim_orphan_trimmed [of ?a] sublist_order.order_trans by blast
qed

end
