(* ===== verification/QaHistory.thy ===== *)
theory QaHistory
  imports QaTextLaws
begin

text \<open>
  The question/answer history of \<open>bitapp/src/hermit_app.rs\<close>: the bounded record list, the session
  delta that is appended to the memory database, the two record formats of the log, and the parser
  that rebuilds the history from the log at boot.
\<close>

section \<open>Records and bounds\<close>

record qa_record =
  question :: bytes
  answer :: bytes

definition RAM_SHELL_HISTORY_CAP_BYTES :: nat where
  "RAM_SHELL_HISTORY_CAP_BYTES = 64 * 1024"

definition qa_record_payload_len :: "qa_record \<Rightarrow> nat" where
  "qa_record_payload_len r = sat_add (sat_add (length (question r)) (length (answer r))) 8"

definition history_payload_len :: "qa_record list \<Rightarrow> nat" where
  "history_payload_len history = sum_list (map qa_record_payload_len history)"

fun shrink_records :: "qa_record list \<Rightarrow> nat \<Rightarrow> qa_record list" where
  "shrink_records [] needed = []"
| "shrink_records (r # history) needed =
     (if RAM_SHELL_HISTORY_CAP_BYTES < sat_add (history_payload_len (r # history)) needed
      then shrink_records history needed else r # history)"

definition shrink_bytes :: "bytes \<Rightarrow> nat \<Rightarrow> bytes" where
  "shrink_bytes buf needed =
     (let required = sat_add (length buf) needed
      in if required \<le> RAM_SHELL_HISTORY_CAP_BYTES then buf
         else if RAM_SHELL_HISTORY_CAP_BYTES \<le> needed then []
         else drop (min (required - RAM_SHELL_HISTORY_CAP_BYTES) (length buf)) buf)"

section \<open>Serialised records\<close>

definition append_serialized_qa :: "bytes \<Rightarrow> bytes \<Rightarrow> bytes \<Rightarrow> bytes" where
  "append_serialized_qa target prompt ans =
     (let target = (if target = [] then target else target @ [10]);
          target = target @ ascii ''[RAMQA v1 q='';
          target = append_decimal target (length prompt);
          target = target @ ascii '' a='';
          target = append_decimal target (length ans);
          target = target @ ascii '']'' @ [10]
      in target @ prompt @ [10] @ ans @ [10])"

definition append_serialized_forget :: "bytes \<Rightarrow> bytes \<Rightarrow> bytes" where
  "append_serialized_forget target key =
     (let target = (if target = [] then target else target @ [10]);
          target = target @ ascii ''[RAMDEL v1 k='';
          target = append_decimal target (length key);
          target = target @ ascii '']'' @ [10]
      in target @ key @ [10])"

section \<open>Keyed records\<close>

definition qa_record_key :: "qa_record \<Rightarrow> bytes option" where
  "qa_record_key r =
     (if \<not> looks_like_question (question r) then
        (case memory_key_from_text (question r) of
           Some key \<Rightarrow> Some key
         | None \<Rightarrow> memory_key_from_text (answer r))
      else memory_key_from_text (answer r))"

definition upsert_history_record :: "qa_record list \<Rightarrow> qa_record \<Rightarrow> qa_record list" where
  "upsert_history_record history r =
     (case qa_record_key r of
        Some key \<Rightarrow> filter (\<lambda>existing. qa_record_key existing \<noteq> Some key) history
      | None \<Rightarrow> history) @ [r]"

definition record_mentions_key :: "qa_record \<Rightarrow> bytes \<Rightarrow> bool" where
  "record_mentions_key r key \<longleftrightarrow>
     memory_key_from_text (question r) = Some key \<or> memory_key_from_text (answer r) = Some key"

definition record_matches_forget_phrase :: "qa_record \<Rightarrow> bytes \<Rightarrow> bool" where
  "record_matches_forget_phrase r phrase =
     (let phrase = trim_ascii phrase
      in if phrase = [] then False
         else if (case memory_key_from_text phrase of
                    Some key \<Rightarrow> qa_record_key r = Some key \<or> record_mentions_key r key
                  | None \<Rightarrow> False) then True
         else contains_case_insensitive (question r) phrase \<or> contains_case_insensitive (answer r) phrase)"

definition forget_history_records :: "qa_record list \<Rightarrow> bytes \<Rightarrow> nat \<times> qa_record list" where
  "forget_history_records history phrase =
     (let kept = filter (\<lambda>r. \<not> record_matches_forget_phrase r phrase) history
      in (length history - length kept, kept))"

section \<open>Session operations\<close>

definition append_to_history ::
  "qa_record list \<Rightarrow> bytes \<Rightarrow> bytes \<Rightarrow> bytes \<Rightarrow> qa_record list \<times> bytes" where
  "append_to_history history session_delta prompt ans =
     (let needed = sat_add (sat_add (length prompt) (length ans)) 64;
          history = shrink_records history needed;
          session_delta = shrink_bytes session_delta needed;
          history = upsert_history_record history \<lparr>question = prompt, answer = ans\<rparr>
      in (history, append_serialized_qa session_delta prompt ans))"

definition append_forget_to_history ::
  "qa_record list \<Rightarrow> bytes \<Rightarrow> bytes \<Rightarrow> nat \<times> qa_record list \<times> bytes" where
  "append_forget_to_history history session_delta phrase =
     (let phrase = trim_ascii phrase
      in if phrase = [] then (0, history, session_delta)
         else
           let key = (case memory_key_from_text phrase of Some key \<Rightarrow> key | None \<Rightarrow> phrase);
               needed = sat_add (length key) 64;
               session_delta = shrink_bytes session_delta needed;
               (removed, history) = forget_history_records history key
           in (removed, history, append_serialized_forget session_delta key))"

section \<open>Parsing the log\<close>

text \<open>The free-text format \<open>Q: ...\<close>, \<open>A: ...\<close> of older logs.\<close>

function parse_legacy_qa_records :: "bytes \<Rightarrow> qa_record list \<Rightarrow> qa_record list" where
  "parse_legacy_qa_records bs history =
     (case find_subslice bs (ascii ''Q: '') of
        None \<Rightarrow> history
      | Some q_pos \<Rightarrow>
          let bs = drop (q_pos + 3) bs
          in case find_byte bs 10 of
               None \<Rightarrow> history
             | Some q_end \<Rightarrow>
                 let q = trim_ascii (take q_end bs); bs = drop (q_end + 1) bs
                 in if take 3 bs \<noteq> ascii ''A: '' then parse_legacy_qa_records bs history
                    else
                      let bs = drop 3 bs;
                          a_end = (case find_byte bs 10 of Some n \<Rightarrow> n | None \<Rightarrow> length bs);
                          a = trim_ascii (take a_end bs);
                          history = (if q \<noteq> [] \<and> a \<noteq> []
                            then upsert_history_record history \<lparr>question = q, answer = a\<rparr> else history)
                      in if length bs \<le> a_end then history
                         else parse_legacy_qa_records (drop (a_end + 1) bs) history)"
  by pat_completeness auto
termination
  by (relation "measure (\<lambda>(bs, history). length bs)") (auto dest!: find_subslice_bound)

declare parse_legacy_qa_records.simps [simp del]

text \<open>
  \<open>&bytes[i..j]\<close> of the structured parser: a range outside the slice panics, which is \<open>None\<close>.
\<close>

definition index_range :: "bytes \<Rightarrow> nat \<Rightarrow> nat \<Rightarrow> bytes option" where
  "index_range bs i j = (if i \<le> j \<and> j \<le> length bs then Some (subslice bs i j) else None)"

text \<open>
  One record of the structured format ends the parse (\<open>Break\<close>), makes it resume one byte after the
  marker (\<open>Resume\<close>), or is read, with the offset of what follows.
\<close>

datatype parsed =
    Break
  | Resume
  | Deleted bytes nat
  | Recorded qa_record nat

definition next_record :: "bytes \<Rightarrow> (nat \<times> bool) option" where
  "next_record bs =
     (let rel_qa = find_subslice bs (ascii ''[RAMQA v1 q='');
          rel_del = find_subslice bs (ascii ''[RAMDEL v1 k='');
          pick = (\<lambda>cur (rel, kind). case rel of None \<Rightarrow> cur
            | Some cand \<Rightarrow> (case cur of None \<Rightarrow> Some (cand, kind)
                | Some (s, k) \<Rightarrow> if cand < s then Some (cand, kind) else Some (s, k)))
      in foldl pick None [(rel_qa, False), (rel_del, True)])"

definition parse_ramdel :: "bytes \<Rightarrow> nat \<Rightarrow> parsed option" where
  "parse_ramdel bs start =
     (let header_start = start + 13
      in case find_byte (drop header_start bs) 10 of
           None \<Rightarrow> Some Break
         | Some header_end_rel \<Rightarrow>
             let header_end = header_start + header_end_rel;
                 header = subslice bs header_start header_end
             in if header = [] \<or> last header \<noteq> 93 then Some Resume
                else case parse_decimal (butlast header) of
                    None \<Rightarrow> Some Resume
                  | Some key_len \<Rightarrow>
                      let key_start = header_end + 1; key_end = sat_add key_start key_len
                      in if length bs < key_end then Some Break
                         else case index_range bs key_start key_end of
                             None \<Rightarrow> None
                           | Some key \<Rightarrow> Some (Deleted (trim_ascii key) (min (sat_add key_end 1) (length bs))))"

definition parse_ramqa :: "bytes \<Rightarrow> nat \<Rightarrow> parsed option" where
  "parse_ramqa bs start =
     (let header_start = start + 12
      in case find_byte (drop header_start bs) 10 of
           None \<Rightarrow> Some Break
         | Some header_end_rel \<Rightarrow>
             let header_end = header_start + header_end_rel;
                 header = subslice bs header_start header_end
             in case find_subslice header (ascii '' a='') of
                  None \<Rightarrow> Some Resume
                | Some a_marker \<Rightarrow>
                    if header = [] \<or> last header \<noteq> 93 then Some Resume
                    else case parse_decimal (take a_marker header) of
                      None \<Rightarrow> Some Resume
                    | Some q_len \<Rightarrow>
                        (case index_range header (a_marker + 3) (length header - 1) of
                           None \<Rightarrow> None
                         | Some a_field \<Rightarrow>
                             (case parse_decimal a_field of
                                None \<Rightarrow> Some Resume
                              | Some a_len \<Rightarrow>
                                  let q_start = header_end + 1; q_end = sat_add q_start q_len;
                                      a_start = sat_add q_end 1; a_end = sat_add a_start a_len
                                  in if length bs < a_end then Some Break
                                     else case index_range bs q_start q_end of
                                         None \<Rightarrow> None
                                       | Some q \<Rightarrow>
                                           (case index_range bs a_start a_end of
                                              None \<Rightarrow> None
                                            | Some a \<Rightarrow> Some (Recorded \<lparr>question = q, answer = a\<rparr>
                                                (min (sat_add a_end 1) (length bs)))))))"

lemma sat_add_one_ge: "a \<le> usize_max \<Longrightarrow> a \<le> sat_add a 1"
  by (simp add: sat_add_def)

lemma sat_add_bound: "sat_add a b \<le> usize_max"
  by (simp add: sat_add_def)

lemma next_offset_advances:
  "index_range bs i (sat_add a b) = Some xs \<Longrightarrow> start < i \<Longrightarrow> start < min (sat_add (sat_add a b) 1) (length bs)"
  using sat_add_one_ge [OF sat_add_bound, of a b] by (auto simp: index_range_def split: if_splits)

lemma answer_offset_advances:
  assumes "start < i" and "index_range bs i (sat_add i n) = Some q"
    and "index_range bs (sat_add (sat_add i n) 1) (sat_add (sat_add (sat_add i n) 1) k) = Some a"
  shows "start < min (sat_add (sat_add (sat_add (sat_add i n) 1) k) 1) (length bs)"
proof -
  have "start < sat_add (sat_add i n) 1"
    using assms(1,2) sat_add_one_ge [OF sat_add_bound, of i n] by (auto simp: index_range_def split: if_splits)
  from next_offset_advances [OF assms(3) this] show ?thesis .
qed

definition parse_record :: "bool \<Rightarrow> bytes \<Rightarrow> nat \<Rightarrow> parsed option" where
  "parse_record record_kind bs start = (if record_kind then parse_ramdel bs start else parse_ramqa bs start)"

lemma parse_record_advances:
  "parse_record record_kind bs start = Some (Deleted key nxt) \<Longrightarrow> start < nxt"
  "parse_record record_kind bs start = Some (Recorded r nxt) \<Longrightarrow> start < nxt"
  by (auto simp: parse_record_def parse_ramdel_def parse_ramqa_def Let_def
      simp del: One_nat_def min_less_iff_conj
      intro: next_offset_advances answer_offset_advances split: option.splits if_splits)

function parse_structured_loop :: "bytes \<Rightarrow> nat \<Rightarrow> qa_record list \<Rightarrow> qa_record list option" where
  "parse_structured_loop bs offset history =
     (if offset < length bs then
        case next_record (drop offset bs) of
          None \<Rightarrow> Some (parse_legacy_qa_records (drop offset bs) history)
        | Some (rel_start, record_kind) \<Rightarrow>
            let start = offset + rel_start;
                history = (if offset < start
                  then parse_legacy_qa_records (subslice bs offset start) history else history)
            in case parse_record record_kind bs start of
                 None \<Rightarrow> None
               | Some Break \<Rightarrow> Some history
               | Some Resume \<Rightarrow> parse_structured_loop bs (start + 1) history
               | Some (Deleted key nxt) \<Rightarrow>
                   parse_structured_loop bs nxt
                     (if key = [] then history else snd (forget_history_records history key))
               | Some (Recorded r nxt) \<Rightarrow> parse_structured_loop bs nxt (upsert_history_record history r)
      else Some history)"
  by pat_completeness auto
termination
  by (relation "measure (\<lambda>(bs, offset, history). length bs - offset)")
    (auto intro!: diff_less_mono2 dest!: parse_record_advances)

declare parse_structured_loop.simps [simp del]

definition parse_structured_qa_records :: "bytes \<Rightarrow> qa_record list \<Rightarrow> qa_record list option" where
  "parse_structured_qa_records bs history = parse_structured_loop bs 0 history"

end
