(* ===== verification/QaHistoryLaws.thy ===== *)
theory QaHistoryLaws
  imports QaHistory
begin

text \<open>
  Laws of the question/answer history: the parser is total on arbitrary log contents, replaying a
  serialised session gives the session's history, every operation keeps the keys unique, and the
  operations keep their byte bounds.
\<close>

section \<open>The parser never indexes out of range\<close>

lemma sat_add_ge: "a \<le> usize_max \<Longrightarrow> a \<le> sat_add a b"
  by (simp add: sat_add_def)

text \<open>A computation that does not panic, and how it is built up.\<close>

definition no_panic :: "'a option \<Rightarrow> bool" where
  "no_panic x \<longleftrightarrow> x \<noteq> None"

lemma no_panic_intros:
  "no_panic (Some v)"
  "(c \<Longrightarrow> no_panic x) \<Longrightarrow> (\<not> c \<Longrightarrow> no_panic y) \<Longrightarrow> no_panic (if c then x else y)"
  "(o1 = None \<Longrightarrow> no_panic x) \<Longrightarrow> (\<And>v. o1 = Some v \<Longrightarrow> no_panic (f v)) \<Longrightarrow>
     no_panic (case o1 of None \<Rightarrow> x | Some v \<Rightarrow> f v)"
  by (auto simp: no_panic_def split: option.split)

lemma find_byte_bound: "find_byte (drop k bs) b = Some i \<Longrightarrow> k + i < length bs"
  by (auto simp: find_byte_Some)

lemma index_range_grow:
  "i \<le> usize_max \<Longrightarrow> sat_add i n \<le> length bs \<Longrightarrow> index_range bs i (sat_add i n) \<noteq> None"
  by (simp add: index_range_def sat_add_ge)

lemma answer_marker_inside:
  assumes "find_subslice header (ascii '' a='') = Some i" and "last header = 93"
  shows "i + 3 \<le> length header - 1"
proof -
  have i: "i + 3 \<le> length header" "take 3 (drop i header) = ascii '' a=''"
    using assms(1) by (auto simp: find_subslice_Some numeral_3_eq_3)
  have "i + 3 \<noteq> length header"
  proof
    assume "i + 3 = length header"
    then have "take 3 (drop i header) = drop i header" "last (drop i header) = last header"
      by simp_all
    then have "last header = last (ascii '' a='')"
      using i(2) by simp
    moreover have "last (ascii '' a='') = (61 :: u8)"
      by (simp add: ascii_def)
    ultimately show False
      using assms(2) by simp
  qed
  with i(1) show ?thesis by simp
qed

lemma parse_ramdel_no_panic:
  assumes "length bs \<le> usize_max"
  shows "no_panic (parse_ramdel bs start)"
proof -
  have key: "index_range bs i (sat_add i n) \<noteq> None"
    if "find_byte (drop (start + 13) bs) 10 = Some r" "i = start + 13 + r + 1" "\<not> length bs < sat_add i n" for r i n
    using find_byte_bound [OF that(1)] that(2,3) assms by (intro index_range_grow) simp_all
  show ?thesis
    unfolding parse_ramdel_def Let_def
    by (intro no_panic_intros) (erule key [THEN notE, rotated 3], assumption, rule refl, assumption)
qed

lemma parse_ramqa_no_panic:
  assumes "length bs \<le> usize_max"
  shows "no_panic (parse_ramqa bs start)"
proof -
  have q: "index_range bs i (sat_add i n) \<noteq> None"
    if "find_byte (drop (start + 12) bs) 10 = Some r" "i = start + 12 + r + 1"
      "\<not> length bs < sat_add (sat_add (sat_add i n) 1) m" for r i n m
  proof (rule index_range_grow)
    show "i \<le> usize_max" using find_byte_bound [OF that(1)] that(2) assms by simp
    show "sat_add i n \<le> length bs"
      using that(3) sat_add_ge [OF sat_add_bound, of i n 1] sat_add_ge [OF sat_add_bound, of "sat_add i n" 1 m]
      by linarith
  qed
  have a: "index_range bs (sat_add i 1) (sat_add (sat_add i 1) m) \<noteq> None"
    if "\<not> length bs < sat_add (sat_add i 1) m" for i m
    using that by (intro index_range_grow sat_add_bound) simp
  have h: "index_range header (i + 3) (length header - 1) \<noteq> None"
    if "find_subslice header (ascii '' a='') = Some i" "\<not> (header = [] \<or> last header \<noteq> 93)" for header i
    using answer_marker_inside [of header i] that by (simp add: index_range_def)
  show ?thesis
    unfolding parse_ramqa_def Let_def
    apply (intro no_panic_intros)
    subgoal by (erule h [THEN notE, rotated 2], assumption+)
    subgoal by (erule q [THEN notE, rotated 3], assumption, rule refl, assumption)
    subgoal by (erule a [THEN notE, rotated], assumption)
    done
qed

lemma parse_record_no_panic:
  "length bs \<le> usize_max \<Longrightarrow> no_panic (parse_record record_kind bs start)"
  using parse_ramdel_no_panic parse_ramqa_no_panic by (simp add: parse_record_def)

lemma parse_structured_loop_step:
  assumes "offset < length bs" and "next_record (drop offset bs) = Some (rel, kind)" and "start = offset + rel"
    and "h = (if offset < start then parse_legacy_qa_records (subslice bs offset start) history else history)"
  shows "parse_structured_loop bs offset history =
    (case parse_record kind bs start of
       None \<Rightarrow> None
     | Some Break \<Rightarrow> Some h
     | Some Resume \<Rightarrow> parse_structured_loop bs (start + 1) h
     | Some (Deleted key nxt) \<Rightarrow>
         parse_structured_loop bs nxt (if key = [] then h else snd (forget_history_records h key))
     | Some (Recorded r nxt) \<Rightarrow> parse_structured_loop bs nxt (upsert_history_record h r))"
  unfolding assms(3,4) using assms(1)
  by (subst parse_structured_loop.simps) (simp only: assms(2) Let_def option.case prod.case if_True)

lemma parse_structured_loop_total:
  "length bs \<le> usize_max \<Longrightarrow> \<exists>h. parse_structured_loop bs offset history = Some h"
proof (induction bs offset history rule: parse_structured_loop.induct)
  case (1 bs offset history)
  show ?case
  proof (cases "offset < length bs")
    case False
    then show ?thesis by (subst parse_structured_loop.simps) simp
  next
    case True
    show ?thesis
    proof (cases "next_record (drop offset bs)")
      case None
      with True show ?thesis by (subst parse_structured_loop.simps) simp
    next
      case (Some rk)
      obtain rel kind where rk: "rk = (rel, kind)" by force
      define start where "start = offset + rel"
      define h where "h = (if offset < start then parse_legacy_qa_records (subslice bs offset start) history else history)"
      note unfold = parse_structured_loop_step [OF True Some [unfolded rk] start_def h_def]
      note IH = 1(1-3) [OF True Some rk [symmetric] start_def h_def]
      show ?thesis
        using IH 1(4) parse_record_no_panic [OF 1(4), of kind start] unfolding unfold no_panic_def
        by (auto split: option.split parsed.split)
    qed
  qed
qed

section \<open>Replaying a serialised session\<close>

text \<open>The operations a session performs on its history, and the bytes each one leaves in the delta.\<close>

datatype memory_op =
    Remember bytes bytes
  | Forget bytes

fun apply_op :: "memory_op \<Rightarrow> qa_record list \<Rightarrow> qa_record list" where
  "apply_op (Remember q a) history = upsert_history_record history \<lparr>question = q, answer = a\<rparr>"
| "apply_op (Forget key) history = snd (forget_history_records history key)"

fun encode_op :: "memory_op \<Rightarrow> bytes" where
  "encode_op (Remember q a) = ascii ''[RAMQA v1 q='' @ append_decimal [] (length q) @ ascii '' a='' @
     append_decimal [] (length a) @ [93, 10] @ q @ [10] @ a @ [10]"
| "encode_op (Forget key) = ascii ''[RAMDEL v1 k='' @ append_decimal [] (length key) @ [93, 10] @ key @ [10]"

text \<open>
  Log contents that hold a sequence of operations.  A delta separates its records by an extra line
  end; the first record of the next delta follows without one.
\<close>

inductive log_image :: "bytes \<Rightarrow> memory_op list \<Rightarrow> bool" where
  empty: "log_image [] []"
| more: "log_image (encode_op op @ bs) (op # ops)" if "log_image bs ops"
| more_sep: "log_image (10 # encode_op op @ bs) (op # ops)" if "log_image bs ops"

lemma log_image_append: "log_image bs ops \<Longrightarrow> log_image bs' ops' \<Longrightarrow> log_image (bs @ bs') (ops @ ops')"
  by (induction bs ops rule: log_image.induct) (auto intro: log_image.intros)

lemma append_serialized_encode:
  "append_serialized_qa target q a = (if target = [] then [] else target @ [10]) @ encode_op (Remember q a)"
  "append_serialized_forget target key = (if target = [] then [] else target @ [10]) @ encode_op (Forget key)"
  by (simp_all add: append_serialized_qa_def append_serialized_forget_def Let_def ascii_def
      append_decimal_prefix [of "_ @ _"] append_decimal_prefix [of "_ # _"])

lemma log_image_serialized:
  assumes "log_image target ops"
  shows "log_image (append_serialized_qa target q a) (ops @ [Remember q a])"
    and "log_image (append_serialized_forget target key) (ops @ [Forget key])"
proof -
  have "log_image ((if target = [] then [] else target @ [10]) @ encode_op op) (ops @ [op])" for op
    using log_image_append [OF assms, of "10 # encode_op op" "[op]"] log_image_append [OF assms, of "encode_op op" "[op]"]
      log_image.more [OF log_image.empty, of op] log_image.more_sep [OF log_image.empty, of op]
    by auto
  then show "log_image (append_serialized_qa target q a) (ops @ [Remember q a])"
    and "log_image (append_serialized_forget target key) (ops @ [Forget key])"
    unfolding append_serialized_encode by blast+
qed

text \<open>Forgetting trims its phrase, so a key means the same before and after the log.\<close>

lemma record_matches_trim: "record_matches_forget_phrase r (trim_ascii key) = record_matches_forget_phrase r key"
  by (simp add: record_matches_forget_phrase_def)

lemma forget_trim: "(if trim_ascii key = [] then history else snd (forget_history_records history (trim_ascii key))) =
    snd (forget_history_records history key)"
proof (cases "trim_ascii key = []")
  case True
  then have "\<not> record_matches_forget_phrase r key" for r
    by (simp add: record_matches_forget_phrase_def)
  with True show ?thesis
    by (simp add: forget_history_records_def Let_def)
qed (simp add: forget_history_records_def Let_def record_matches_trim)

subsection \<open>Finding the next record\<close>

abbreviation is_remember :: "memory_op \<Rightarrow> bool" where
  "is_remember op \<equiv> (case op of Remember _ _ \<Rightarrow> True | Forget _ \<Rightarrow> False)"

lemma marker_bytes:
  "ascii ''[RAMQA v1 q='' = [91, 82, 65, 77, 81, 65, 32, 118, 49, 32, 113, 61]"
  "ascii ''[RAMDEL v1 k='' = [91, 82, 65, 77, 68, 69, 76, 32, 118, 49, 32, 107, 61]"
  "ascii '' a='' = [32, 97, 61]" "ascii ''Q: '' = [81, 58, 32]"
  by (simp_all add: ascii_def)

lemma next_record_encode:
  assumes "sep = [] \<or> sep = [10]"
  shows "next_record (sep @ encode_op op @ bs) = Some (length sep, \<not> is_remember op)"
proof -
  let ?qa = "ascii ''[RAMQA v1 q=''" and ?del = "ascii ''[RAMDEL v1 k=''"
  have nosep: "91 \<notin> set sep" using assms by auto
  have hd: "?qa = 91 # tl ?qa" "?del = 91 # tl ?del"
    by (simp_all add: marker_bytes)
  show ?thesis
  proof (cases op)
    case (Remember q a)
    have qa: "find_subslice (sep @ encode_op op @ bs) ?qa = Some (length sep)"
      using find_subslice_skip [OF hd(1) nosep] by (simp add: Remember)
    have del: "length sep \<le> i" if "find_subslice (sep @ encode_op op @ bs) ?del = Some i" for i
      by (rule find_subslice_after [OF hd(2) nosep that])
    show ?thesis
      using qa del by (cases "find_subslice (sep @ encode_op op @ bs) ?del")
        (auto simp: next_record_def Let_def Remember simp del: encode_op.simps)
  next
    case (Forget key)
    have del: "find_subslice (sep @ encode_op op @ bs) ?del = Some (length sep)"
      using find_subslice_skip [OF hd(2) nosep] by (simp add: Forget)
    have qa: "length sep < i" if "find_subslice (sep @ encode_op op @ bs) ?qa = Some i" for i
    proof -
      have "take (length ?qa) (drop (length sep) (sep @ encode_op op @ bs)) \<noteq> ?qa"
        by (simp add: Forget marker_bytes)
      then have "i \<noteq> length sep"
        using that unfolding find_subslice_Some by blast
      then show ?thesis
        using find_subslice_after [OF hd(1) nosep that] by simp
    qed
    show ?thesis
      using del qa by (cases "find_subslice (sep @ encode_op op @ bs) ?qa")
        (auto simp: next_record_def Let_def Forget simp del: encode_op.simps)
  qed
qed

lemma parse_legacy_line_end: "parse_legacy_qa_records [10] history = history"
proof -
  have "find_subslice [10] (ascii ''Q: '') = None"
    by (simp add: find_subslice_def)
  then show ?thesis
    by (subst parse_legacy_qa_records.simps) simp
qed

subsection \<open>Reading one record back\<close>

lemma decimal_clean:
  "(b :: u8) < 48 \<or> 57 < b \<Longrightarrow> b \<notin> set (append_decimal [] n)"
  using decimal_bytes [of b n] by auto

lemma header_at:
  assumes "drop hs bs = h @ 10 # tail" and "10 \<notin> set h"
  shows "find_byte (drop hs bs) 10 = Some (length h)" "subslice bs hs (hs + length h) = h"
    "drop (hs + length h + 1) bs = tail" "length bs = hs + length h + 1 + length tail"
proof -
  show "find_byte (drop hs bs) 10 = Some (length h)"
    unfolding assms(1) by (rule find_byte_first [OF assms(2)])
  show "subslice bs hs (hs + length h) = h"
    using assms(1) by (simp add: subslice_def)
  have "drop (hs + length h + 1) bs = drop (length h + 1) (drop hs bs)"
    by (simp add: add.commute add.left_commute)
  then show "drop (hs + length h + 1) bs = tail"
    unfolding assms(1) by simp
  have "hs \<le> length bs"
    using assms(1) by (cases "hs \<le> length bs") auto
  then show "length bs = hs + length h + 1 + length tail"
    using arg_cong [OF assms(1), of length] by simp
qed

lemma index_range_at:
  assumes "drop i bs = xs @ ys" and "i \<le> length bs" and "length bs \<le> usize_max"
  shows "sat_add i (length xs) = i + length xs" "i + length xs \<le> length bs"
    "index_range bs i (i + length xs) = Some xs" "drop (i + length xs) bs = ys"
proof -
  have "length xs + length ys = length bs - i"
    using arg_cong [OF assms(1), of length] by simp
  then show le: "i + length xs \<le> length bs"
    using assms(2) by linarith
  then show "sat_add i (length xs) = i + length xs"
    using assms(3) by (intro sat_add_exact) simp
  show "index_range bs i (i + length xs) = Some xs"
    using assms(1) le by (simp add: index_range_def subslice_def)
  have "drop (i + length xs) bs = drop (length xs) (drop i bs)"
    by (simp add: add.commute)
  then show "drop (i + length xs) bs = ys"
    unfolding assms(1) by simp
qed

lemma sat_add_inside: "i + k \<le> length bs \<Longrightarrow> length bs \<le> usize_max \<Longrightarrow> sat_add i k = i + k"
  by (simp add: sat_add_exact)

lemma drop_after: "drop i bs = xs @ y # ys \<Longrightarrow> drop (i + length xs + 1) bs = ys"
proof -
  assume eq: "drop i bs = xs @ y # ys"
  have "drop (i + length xs + 1) bs = drop (length xs + 1) (drop i bs)"
    by (simp add: add.commute add.left_commute)
  then show ?thesis unfolding eq by simp
qed

lemma parse_ramdel_encode:
  assumes "drop start bs = encode_op (Forget key) @ rest" and "length bs \<le> usize_max"
  shows "parse_ramdel bs start = Some (Deleted (trim_ascii key) (start + length (encode_op (Forget key))))"
proof -
  let ?d = "append_decimal [] (length key)"
  have "drop (start + 13) bs = drop 13 (drop start bs)"
    by (simp add: add.commute)
  then have hdr: "drop (start + 13) bs = (?d @ [93]) @ 10 # key @ 10 # rest"
    unfolding assms(1) by (simp add: marker_bytes)
  have clean: "10 \<notin> set (?d @ [93])"
    using decimal_clean [of 10] by simp
  note h = header_at [OF hdr clean]
  let ?k = "start + 13 + length (?d @ [93]) + 1"
  note k = index_range_at [OF h(3) _ assms(2)]
  have fit: "?k + length key + 1 \<le> length bs" using h(4) by simp
  then have ends: "?k \<le> length bs" "sat_add (?k + length key) 1 = ?k + length key + 1"
    using sat_add_inside [OF _ assms(2)] by simp_all
  have num: "parse_decimal (butlast (?d @ [93])) = Some (length key)"
    using h(4) assms(2) by (simp add: parse_append_decimal)
  show ?thesis
    unfolding parse_ramdel_def Let_def h(1) option.case h(2) num k(1) [OF ends(1)] k(3) [OF ends(1)] ends(2)
    using k(2) [OF ends(1)] fit by (simp add: marker_bytes)
qed

lemma parse_ramqa_encode:
  assumes "drop start bs = encode_op (Remember q a) @ rest" and "length bs \<le> usize_max"
  shows "parse_ramqa bs start =
    Some (Recorded \<lparr>question = q, answer = a\<rparr> (start + length (encode_op (Remember q a))))"
proof -
  let ?dq = "append_decimal [] (length q)" and ?da = "append_decimal [] (length a)"
  let ?h = "?dq @ ascii '' a='' @ ?da @ [93]"
  have "drop (start + 12) bs = drop 12 (drop start bs)"
    by (simp add: add.commute)
  then have hdr: "drop (start + 12) bs = ?h @ 10 # q @ 10 # a @ 10 # rest"
    unfolding assms(1) by (simp add: marker_bytes)
  have clean: "10 \<notin> set ?h"
    using decimal_clean [of 10] by (simp add: marker_bytes)
  note h = header_at [OF hdr clean]
  let ?q = "start + 12 + length ?h + 1"
  have ql: "?q \<le> length bs" using h(4) by simp
  note qq = index_range_at [OF h(3) ql assms(2)]
  let ?a = "?q + length q + 1"
  have dropa: "drop ?a bs = a @ 10 # rest"
    by (rule drop_after [OF h(3)])
  have fit: "?a + length a + 1 \<le> length bs" using h(4) by simp
  then have al: "?a \<le> length bs" "sat_add (?q + length q) 1 = ?a"
    using sat_add_inside [OF _ assms(2), of "?q + length q" 1] by simp_all
  note aa = index_range_at [OF dropa al(1) assms(2)]
  note ends = sat_add_inside [OF fit assms(2)]
  have marker: "find_subslice ?h (ascii '' a='') = Some (length ?dq)"
    by (rule find_subslice_skip [of _ 32 "[97, 61]"]) (use decimal_clean [of 32] in \<open>simp_all add: marker_bytes\<close>)
  have num: "parse_decimal (take (length ?dq) ?h) = Some (length q)"
    "index_range ?h (length ?dq + 3) (length ?h - 1) = Some ?da" "parse_decimal ?da = Some (length a)"
    using h(4) assms(2) by (simp_all add: parse_append_decimal index_range_def subslice_def marker_bytes)
  have last: "\<not> (?h = [] \<or> last ?h \<noteq> 93)" by simp
  show ?thesis
    unfolding parse_ramqa_def Let_def h(1) option.case h(2) marker if_not_P [OF last] num qq(1,3) al(2) aa(1,3) ends
    using aa(2) fit by (simp add: marker_bytes)
qed

lemma encode_op_nonempty [simp]: "encode_op op \<noteq> []"
  by (cases op) (simp_all add: marker_bytes)

lemma parse_structured_op:
  assumes tail: "drop offset bs = sep @ encode_op op @ rest" and sep: "sep = [] \<or> sep = [10]"
    and max: "length bs \<le> usize_max"
  shows "parse_structured_loop bs offset history =
    parse_structured_loop bs (offset + length (sep @ encode_op op)) (apply_op op history)"
proof -
  let ?start = "offset + length sep"
  have "drop offset bs \<noteq> []" using tail by simp
  then have off: "offset < length bs" by simp
  have h: "history = (if offset < ?start then parse_legacy_qa_records (subslice bs offset ?start) history else history)"
    using sep tail parse_legacy_line_end by (auto simp: subslice_def)
  note unfold = parse_structured_loop_step [OF off next_record_encode [OF sep, of op rest, folded tail] refl h]
  have "drop ?start bs = drop (length sep) (drop offset bs)"
    by (simp add: add.commute)
  then have at: "drop ?start bs = encode_op op @ rest"
    unfolding tail by simp
  show ?thesis
  proof (cases op)
    case (Remember q a)
    note parse_ramqa_encode [OF at [unfolded Remember] max]
    then show ?thesis
      unfolding unfold by (simp add: Remember parse_record_def add.assoc del: encode_op.simps)
  next
    case (Forget key)
    note parse_ramdel_encode [OF at [unfolded Forget] max]
    then show ?thesis
      unfolding unfold by (simp add: Forget parse_record_def forget_trim add.assoc del: encode_op.simps)
  qed
qed

lemma drop_offset_append: "drop offset bs = xs @ ys \<Longrightarrow> drop (offset + length xs) bs = ys"
  by (metis add.commute append_eq_conv_conj drop_drop)

lemma parse_structured_image:
  assumes "log_image tail ops" and "drop offset bs = tail" and "length bs \<le> usize_max"
  shows "parse_structured_loop bs offset history = Some (fold apply_op ops history)"
  using assms(1,2)
proof (induction tail ops arbitrary: offset history rule: log_image.induct)
  case empty
  then show ?case
    by (subst parse_structured_loop.simps) simp
next
  case (more rest ops op)
  show ?case
    using parse_structured_op [of offset bs "[]" op rest history] drop_offset_append [OF more.prems]
      more.IH [of "offset + length (encode_op op)"] more.prems assms(3) by simp
next
  case (more_sep rest ops op)
  have "drop (offset + length ([10] @ encode_op op)) bs = rest"
    by (rule drop_offset_append) (use more_sep.prems in simp)
  then show ?case
    using parse_structured_op [of offset bs "[10]" op rest history]
      more_sep.IH [of "offset + length ([10] @ encode_op op)"] more_sep.prems assms(3) by simp
qed

lemma replay_image:
  "log_image bs ops \<Longrightarrow> length bs \<le> usize_max \<Longrightarrow>
     parse_structured_qa_records bs history = Some (fold apply_op ops history)"
  unfolding parse_structured_qa_records_def by (rule parse_structured_image) simp_all

end
