(* ===== verification/QaSession.thy ===== *)
theory QaSession
  imports QaHistoryLaws
begin

text \<open>
  The history as an abstract object: a map from memory keys to records with unkeyed records kept in
  order, byte bounds that every operation keeps, and the correspondence between a session's history
  and the log its delta is appended to.
\<close>

section \<open>Byte bounds\<close>

lemma cap_small: "RAM_SHELL_HISTORY_CAP_BYTES + RAM_SHELL_HISTORY_CAP_BYTES < usize_max" "RAM_SHELL_HISTORY_CAP_BYTES = 65536"
  by (simp_all add: RAM_SHELL_HISTORY_CAP_BYTES_def usize_max_def)

lemma sat_add_le_cap: "sat_add a b \<le> RAM_SHELL_HISTORY_CAP_BYTES \<longleftrightarrow> a + b \<le> RAM_SHELL_HISTORY_CAP_BYTES"
  using cap_small by (auto simp: sat_add_def min_def)

lemma payload_le: "qa_record_payload_len \<lparr>question = q, answer = a\<rparr> \<le> length q + length a + 8"
  using sat_add_le [of "length q" "length a"] sat_add_le [of "sat_add (length q) (length a)" 8]
  by (simp add: qa_record_payload_len_def)

lemma payload_simps [simp]: "history_payload_len [] = 0"
  "history_payload_len (r # h) = qa_record_payload_len r + history_payload_len h"
  "history_payload_len (h @ h') = history_payload_len h + history_payload_len h'"
  by (simp_all add: history_payload_len_def)

lemma payload_filter: "history_payload_len (filter p h) \<le> history_payload_len h"
  by (induction h) auto

lemma shrink_records_bound:
  "history_payload_len (shrink_records h needed) + needed \<le> RAM_SHELL_HISTORY_CAP_BYTES \<or> shrink_records h needed = []"
  by (induction h needed rule: shrink_records.induct) (auto simp: not_less sat_add_le_cap)

lemma shrink_records_suffix: "suffix (shrink_records h needed) h"
  by (induction h needed rule: shrink_records.induct) (auto intro: suffix_ConsI)

lemma shrink_records_id:
  "history_payload_len h + needed \<le> RAM_SHELL_HISTORY_CAP_BYTES \<Longrightarrow> shrink_records h needed = h"
  using sat_add_le_cap [of "history_payload_len h" needed] by (cases h) (simp_all add: not_less)

lemma shrink_bytes_bound:
  assumes "needed \<le> RAM_SHELL_HISTORY_CAP_BYTES" and "length buf \<le> RAM_SHELL_HISTORY_CAP_BYTES"
  shows "length (shrink_bytes buf needed) + needed \<le> RAM_SHELL_HISTORY_CAP_BYTES"
proof -
  have "sat_add (length buf) needed = length buf + needed"
    using assms cap_small by (intro sat_add_exact) linarith
  then show ?thesis
    using assms by (auto simp: shrink_bytes_def Let_def)
qed

lemma shrink_bytes_id:
  "length buf + needed \<le> RAM_SHELL_HISTORY_CAP_BYTES \<Longrightarrow> shrink_bytes buf needed = buf"
  by (simp add: shrink_bytes_def sat_add_le_cap)

lemma length_encode:
  assumes "length q \<le> usize_max" and "length a \<le> usize_max" and "length key \<le> usize_max"
  shows "length q + length a + 8 \<le> length (encode_op (Remember q a))"
    "length (encode_op (Remember q a)) \<le> length q + length a + 63"
    "length (encode_op (Forget key)) \<le> length key + 63"
  using length_append_decimal(1) [OF assms(1)] length_append_decimal(1) [OF assms(2)] length_append_decimal(1) [OF assms(3)]
  by (simp_all add: marker_bytes)

lemma length_append_serialized:
  "length q \<le> usize_max \<Longrightarrow> length a \<le> usize_max \<Longrightarrow>
     length (append_serialized_qa target q a) \<le> length target + length q + length a + 64"
  "length key \<le> usize_max \<Longrightarrow> length (append_serialized_forget target key) \<le> length target + length key + 64"
  using length_encode(2) [of q a "[]"] length_encode(3) [of "[]" "[]" key]
  by (auto simp: append_serialized_encode simp del: encode_op.simps)

text \<open>What a session keeps: the records and the unsaved delta both stay within the cap.\<close>

definition session_bounded :: "qa_record list \<Rightarrow> bytes \<Rightarrow> bool" where
  "session_bounded history session_delta \<longleftrightarrow>
     history_payload_len history \<le> RAM_SHELL_HISTORY_CAP_BYTES \<and>
     length session_delta \<le> RAM_SHELL_HISTORY_CAP_BYTES"

lemma append_to_history_bounded:
  assumes old: "session_bounded history session_delta"
    and fit: "length q + length a + 64 \<le> RAM_SHELL_HISTORY_CAP_BYTES"
    and step: "append_to_history history session_delta q a = (history', session_delta')"
  shows "session_bounded history' session_delta'"
proof -
  let ?n = "length q + length a + 64"
  have max: "length q \<le> usize_max" "length a \<le> usize_max" "?n \<le> usize_max"
    using fit cap_small by simp_all
  have n: "sat_add (sat_add (length q) (length a)) 64 = ?n"
    using max by (simp add: sat_add_exact)
  let ?h = "shrink_records history ?n" and ?d = "shrink_bytes session_delta ?n"
  have h: "history_payload_len ?h + ?n \<le> RAM_SHELL_HISTORY_CAP_BYTES"
    using shrink_records_bound [of history ?n] fit by auto
  have "history' = upsert_history_record ?h \<lparr>question = q, answer = a\<rparr>" "session_delta' = append_serialized_qa ?d q a"
    using step n by (simp_all add: append_to_history_def Let_def)
  moreover have "history_payload_len (upsert_history_record ?h \<lparr>question = q, answer = a\<rparr>) \<le> history_payload_len ?h + ?n"
    using payload_le [of q a] payload_filter [of _ ?h]
    by (auto simp: upsert_history_record_def intro: add_mono order_trans split: option.split)
  ultimately show ?thesis
    using h shrink_bytes_bound [OF fit, of session_delta] old length_append_serialized(1) [OF max(1,2), of ?d]
    by (simp add: session_bounded_def)
qed

lemma length_memory_key: "memory_key_from_text t = Some key \<Longrightarrow> length key \<le> 18"
  by (auto simp: memory_key_from_text_def ascii_def split: if_splits)

lemma append_forget_bounded:
  assumes "session_bounded history session_delta" and fit: "length phrase + 82 \<le> RAM_SHELL_HISTORY_CAP_BYTES"
    and step: "append_forget_to_history history session_delta phrase = (removed, history', session_delta')"
  shows "session_bounded history' session_delta'"
proof (cases "trim_ascii phrase = []")
  case True
  then show ?thesis
    using assms(1) step by (simp add: append_forget_to_history_def)
next
  case False
  define key where "key = (case memory_key_from_text (trim_ascii phrase) of Some key \<Rightarrow> key | None \<Rightarrow> trim_ascii phrase)"
  have "length key \<le> length phrase + 18"
    using length_memory_key [of "trim_ascii phrase"] trim_ascii_length [of phrase]
    by (auto simp: key_def intro: trans_le_add2 split: option.split)
  then have key: "length key + 64 \<le> RAM_SHELL_HISTORY_CAP_BYTES" "length key \<le> usize_max" "sat_add (length key) 64 = length key + 64"
    using fit cap_small by (auto intro!: sat_add_exact)
  have "history' = snd (forget_history_records history key)"
    "session_delta' = append_serialized_forget (shrink_bytes session_delta (length key + 64)) key"
    using step False key(3) by (auto simp: append_forget_to_history_def Let_def key_def [symmetric] split: prod.splits)
  then show ?thesis
    using assms(1) payload_filter [of _ history] shrink_bytes_bound [OF key(1), of session_delta]
      length_append_serialized(2) [OF key(2), of "shrink_bytes session_delta (length key + 64)"]
    by (auto simp: session_bounded_def forget_history_records_def Let_def intro: order_trans)
qed

section \<open>The history as a keyed store\<close>

text \<open>
  A store addressed by the key of its records: at most one record per key, the newest one.  What a
  client may conclude is proved once from the law of a single \<open>put\<close>.
\<close>

locale keyed_store =
  fixes put :: "'r list \<Rightarrow> 'r \<Rightarrow> 'r list"
    and key :: "'r \<Rightarrow> 'k option"
    and look :: "'r list \<Rightarrow> 'k \<Rightarrow> 'r option"
    and ok :: "'r list \<Rightarrow> bool"
  assumes look_put: "look (put s r) k = (if key r = Some k then Some r else look s k)"
    and ok_put: "ok s \<Longrightarrow> ok (put s r)"
begin

lemma look_fold:
  "look (foldl put s rs) k = (case find (\<lambda>r. key r = Some k) (rev rs) of Some r \<Rightarrow> Some r | None \<Rightarrow> look s k)"
  by (induction rs rule: rev_induct) (simp_all add: look_put)

lemma ok_fold: "ok s \<Longrightarrow> ok (foldl put s rs)"
  by (induction rs rule: rev_induct) (simp_all add: ok_put)

end

definition history_lookup :: "qa_record list \<Rightarrow> bytes \<Rightarrow> qa_record option" where
  "history_lookup history key = find (\<lambda>r. qa_record_key r = Some key) history"

definition keys_unique :: "qa_record list \<Rightarrow> bool" where
  "keys_unique history \<longleftrightarrow> distinct (List.map_filter qa_record_key history)"

lemma find_append: "find p (xs @ ys) = (case find p xs of Some x \<Rightarrow> Some x | None \<Rightarrow> find p ys)"
  by (induction xs) simp_all

lemma find_False [simp]: "find (\<lambda>x. False) xs = None"
  by (induction xs) simp_all

lemma find_filter: "find p (filter q xs) = find (\<lambda>x. q x \<and> p x) xs"
  by (induction xs) simp_all

lemma map_filter_append: "List.map_filter f (xs @ ys) = List.map_filter f xs @ List.map_filter f ys"
  by (simp add: List.map_filter_def)

lemma set_map_filter: "k \<in> set (List.map_filter f xs) \<longleftrightarrow> (\<exists>x \<in> set xs. f x = Some k)"
  by (auto simp: List.map_filter_def image_iff)

lemma keys_unique_filter: "keys_unique h \<Longrightarrow> keys_unique (filter p h)"
proof (induction h)
  case (Cons r h)
  have "set (List.map_filter qa_record_key (filter p h)) \<subseteq> set (List.map_filter qa_record_key h)"
    by (auto simp: set_map_filter)
  with Cons show ?case
    by (auto simp: keys_unique_def List.map_filter_simps split: option.splits)
qed simp

lemma keys_unique_upsert: "keys_unique h \<Longrightarrow> keys_unique (upsert_history_record h r)"
  using keys_unique_filter [of h]
  by (auto simp: upsert_history_record_def keys_unique_def map_filter_append List.map_filter_simps set_map_filter
      split: option.splits)

lemma history_lookup_upsert:
  "history_lookup (upsert_history_record h r) k = (if qa_record_key r = Some k then Some r else history_lookup h k)"
proof -
  have "find (\<lambda>x. qa_record_key x \<noteq> Some k' \<and> qa_record_key x = Some k) h =
      (if k' = k then None else find (\<lambda>x. qa_record_key x = Some k) h)" for k'
    by (induction h) auto
  then show ?thesis
    by (auto simp: history_lookup_def upsert_history_record_def find_append find_filter split: option.splits)
qed

interpretation history: keyed_store upsert_history_record qa_record_key history_lookup keys_unique
  by unfold_locales (simp_all add: history_lookup_upsert keys_unique_upsert)

text \<open>Every other operation only removes records, and the parser only uses these operations.\<close>

lemma keys_unique_suffix: "suffix h' h \<Longrightarrow> keys_unique h \<Longrightarrow> keys_unique h'"
  by (auto simp: suffix_def keys_unique_def map_filter_append)

lemma keys_unique_forget: "keys_unique h \<Longrightarrow> keys_unique (snd (forget_history_records h phrase))"
  by (simp add: forget_history_records_def Let_def keys_unique_filter)

lemma keys_unique_legacy: "keys_unique h \<Longrightarrow> keys_unique (parse_legacy_qa_records bs h)"
proof (induction bs h rule: parse_legacy_qa_records.induct)
  case (1 bs h)
  then show ?case
    by (subst parse_legacy_qa_records.simps) (auto simp: Let_def keys_unique_upsert split: option.split)
qed

text \<open>What the record operations keep, the whole parse keeps.\<close>

lemma parse_structured_invariant:
  assumes upsert: "\<And>h r. P h \<Longrightarrow> P (upsert_history_record h r)"
    and forget: "\<And>h key. P h \<Longrightarrow> P (snd (forget_history_records h key))"
    and legacy: "\<And>h bs. P h \<Longrightarrow> P (parse_legacy_qa_records bs h)"
  shows "P history \<Longrightarrow> parse_structured_loop bs offset history = Some h' \<Longrightarrow> P h'"
proof (induction bs offset history rule: parse_structured_loop.induct)
  case (1 bs offset history)
  show ?case
  proof (cases "offset < length bs")
    case False
    then show ?thesis
      using 1(4,5) by (subst (asm) parse_structured_loop.simps) simp
  next
    case True
    show ?thesis
    proof (cases "next_record (drop offset bs)")
      case None
      with True show ?thesis
        using 1(4,5) legacy by (subst (asm) parse_structured_loop.simps) auto
    next
      case (Some rk)
      obtain rel kind where rk: "rk = (rel, kind)" by force
      define start where "start = offset + rel"
      define h where "h = (if offset < start then parse_legacy_qa_records (subslice bs offset start) history else history)"
      note unfold = parse_structured_loop_step [OF True Some [unfolded rk] start_def h_def]
      note IH = 1(1-3) [OF True Some rk [symmetric] start_def h_def]
      have "P h" using 1(4) legacy by (simp add: h_def)
      then show ?thesis
        using 1(5) IH upsert forget unfolding unfold by (auto split: option.splits parsed.splits if_splits)
    qed
  qed
qed

lemma keys_unique_structured:
  "keys_unique h \<Longrightarrow> parse_structured_qa_records bs h = Some h' \<Longrightarrow> keys_unique h'"
  unfolding parse_structured_qa_records_def
  by (rule parse_structured_invariant [of keys_unique])
    (simp_all add: keys_unique_upsert keys_unique_forget keys_unique_legacy)

section \<open>Forgetting\<close>

lemma memory_keys_are_keys: "memory_key_from_text t = Some key \<Longrightarrow> memory_key_from_text key = Some key"
proof -
  have "memory_key_from_text (ascii ''secure phrase'') = Some (ascii ''secure phrase'')"
    "memory_key_from_text (ascii ''secret phrase'') = Some (ascii ''secret phrase'')"
    "memory_key_from_text (ascii ''memory test phrase'') = Some (ascii ''memory test phrase'')"
    "memory_key_from_text (ascii ''codename'') = Some (ascii ''codename'')"
    by code_simp+
  moreover assume "memory_key_from_text t = Some key"
  then have "key \<in> {ascii ''secure phrase'', ascii ''secret phrase'', ascii ''memory test phrase'', ascii ''codename''}"
    by (auto simp: memory_key_from_text_def split: if_splits)
  ultimately show ?thesis by auto
qed

lemma memory_keys_trimmed: "memory_key_from_text t = Some key \<Longrightarrow> trim_ascii key = key \<and> key \<noteq> []"
proof -
  have "trim_ascii (ascii ''secure phrase'') = ascii ''secure phrase''" "trim_ascii (ascii ''secret phrase'') = ascii ''secret phrase''"
    "trim_ascii (ascii ''memory test phrase'') = ascii ''memory test phrase''" "trim_ascii (ascii ''codename'') = ascii ''codename''"
    by code_simp+
  moreover assume "memory_key_from_text t = Some key"
  ultimately show ?thesis
    by (auto simp: memory_key_from_text_def ascii_def split: if_splits)
qed

section \<open>A session and its log\<close>

text \<open>
  The two ways in which a session changes its history, and the state they act on: the history and
  the delta not yet appended to the log.
\<close>

datatype session_cmd =
    Ask bytes bytes
  | Drop_phrase bytes

fun session_cmd_apply :: "session_cmd \<Rightarrow> qa_record list \<times> bytes \<Rightarrow> qa_record list \<times> bytes" where
  "session_cmd_apply (Ask q a) (h, d) = append_to_history h d q a"
| "session_cmd_apply (Drop_phrase p) (h, d) = (case append_forget_to_history h d p of (removed, h, d) \<Rightarrow> (h, d))"

fun session_cmd_size :: "session_cmd \<Rightarrow> nat" where
  "session_cmd_size (Ask q a) = length q + length a + 64"
| "session_cmd_size (Drop_phrase p) = length p + 82"

text \<open>The history is what the log followed by the delta replays to.\<close>

definition session_synced :: "bytes \<Rightarrow> qa_record list \<Rightarrow> bytes \<Rightarrow> bool" where
  "session_synced log h d \<longleftrightarrow>
     (\<exists>ops ops'. log_image log ops \<and> log_image d ops' \<and> h = fold apply_op (ops @ ops') [])"

lemma apply_op_payload: "history_payload_len (apply_op op h) \<le> history_payload_len h + length (encode_op op)"
proof (cases op)
  case (Remember q a)
  have "history_payload_len (upsert_history_record h \<lparr>question = q, answer = a\<rparr>) \<le> history_payload_len h + (length q + length a + 8)"
    using payload_le [of q a] payload_filter [of _ h]
    by (auto simp: upsert_history_record_def intro: add_mono split: option.split)
  also have "length q + length a + 8 \<le> length (encode_op (Remember q a))"
    by (simp add: marker_bytes)
  finally show ?thesis
    by (simp add: Remember del: encode_op.simps)
next
  case (Forget key)
  then show ?thesis
    by (simp add: forget_history_records_def Let_def payload_filter trans_le_add1 del: encode_op.simps)
qed

lemma log_image_payload: "log_image bs ops \<Longrightarrow> history_payload_len (fold apply_op ops h) \<le> history_payload_len h + length bs"
proof (induction bs ops arbitrary: h rule: log_image.induct)
  case (more bs ops op)
  show ?case
    using more.IH [of "apply_op op h"] apply_op_payload [of op h] by simp
next
  case (more_sep bs ops op)
  show ?case
    using more_sep.IH [of "apply_op op h"] apply_op_payload [of op h] by simp
qed simp

lemma session_synced_payload: "session_synced log h d \<Longrightarrow> history_payload_len h \<le> length log + length d"
  using log_image_append log_image_payload [of "log @ d" _ "[]"] by (fastforce simp: session_synced_def)

lemma session_synced_replay:
  assumes "session_synced log h d" and "length log + length d \<le> usize_max"
  shows "parse_structured_qa_records (log @ d) [] = Some h"
proof -
  obtain ops ops' where "log_image log ops" "log_image d ops'" "h = fold apply_op (ops @ ops') []"
    using assms(1) by (auto simp: session_synced_def)
  then show ?thesis
    using replay_image [OF log_image_append, of log ops d ops' "[]"] assms(2) by simp
qed

lemma session_synced_flush: "session_synced log h d \<Longrightarrow> session_synced (log @ d) h []"
  unfolding session_synced_def using log_image_append log_image.empty by (metis append_Nil2)

lemma session_synced_op:
  "session_synced log h d \<Longrightarrow> session_synced log (apply_op (Remember q a) h) (append_serialized_qa d q a)"
  "session_synced log h d \<Longrightarrow> session_synced log (apply_op (Forget key) h) (append_serialized_forget d key)"
  unfolding session_synced_def using log_image_serialized by (metis append_assoc fold_append fold_simps comp_apply)+

lemma session_cmd_synced:
  assumes sync: "session_synced log h d" and fit: "length log + length d + session_cmd_size c \<le> RAM_SHELL_HISTORY_CAP_BYTES"
    and step: "session_cmd_apply c (h, d) = (h', d')"
  shows "session_synced log h' d' \<and> length d' \<le> length d + session_cmd_size c"
proof (cases c)
  case (Ask q a)
  let ?n = "length q + length a + 64"
  have max: "length q \<le> usize_max" "length a \<le> usize_max" "?n \<le> usize_max"
    using fit cap_small Ask by simp_all
  have n: "sat_add (sat_add (length q) (length a)) 64 = ?n"
    using max by (simp add: sat_add_exact)
  have "shrink_records h ?n = h" "shrink_bytes d ?n = d"
    using fit Ask session_synced_payload [OF sync] by (auto intro!: shrink_records_id shrink_bytes_id)
  then have "h' = apply_op (Remember q a) h" "d' = append_serialized_qa d q a"
    using step n by (simp_all add: Ask append_to_history_def Let_def)
  then show ?thesis
    using session_synced_op(1) [OF sync] length_append_serialized(1) [OF max(1,2), of d] by (simp add: Ask)
next
  case (Drop_phrase p)
  show ?thesis
  proof (cases "trim_ascii p = []")
    case True
    then show ?thesis
      using step sync by (simp add: Drop_phrase append_forget_to_history_def)
  next
    case False
    define key where "key = (case memory_key_from_text (trim_ascii p) of Some key \<Rightarrow> key | None \<Rightarrow> trim_ascii p)"
    have len: "length key \<le> length p + 18"
      using length_memory_key [of "trim_ascii p"] trim_ascii_length [of p]
      by (auto simp: key_def intro: trans_le_add2 split: option.split)
    have n: "sat_add (length key) 64 = length key + 64" "length key \<le> usize_max"
      using fit cap_small len by (auto simp: Drop_phrase intro!: sat_add_exact)
    have "shrink_bytes d (length key + 64) = d"
      using fit len by (intro shrink_bytes_id) (simp add: Drop_phrase)
    then have "h' = apply_op (Forget key) h" "d' = append_serialized_forget d key"
      using step False n(1)
      by (auto simp: Drop_phrase append_forget_to_history_def Let_def key_def [symmetric] split: prod.splits)
    then show ?thesis
      using session_synced_op(2) [OF sync] length_append_serialized(2) [OF n(2), of d] len by (simp add: Drop_phrase)
  qed
qed

lemma session_cmds_synced:
  assumes "session_synced log h d"
    and "length log + length d + sum_list (map session_cmd_size cs) \<le> RAM_SHELL_HISTORY_CAP_BYTES"
    and "fold session_cmd_apply cs (h, d) = (h', d')"
  shows "session_synced log h' d' \<and> length log + length d' \<le> RAM_SHELL_HISTORY_CAP_BYTES"
  using assms
proof (induction cs arbitrary: h d)
  case (Cons c cs)
  obtain h1 d1 where c: "session_cmd_apply c (h, d) = (h1, d1)" by force
  have "session_synced log h1 d1" "length d1 \<le> length d + session_cmd_size c"
    using session_cmd_synced [OF Cons.prems(1) _ c] Cons.prems(2) by simp_all
  then show ?case
    using Cons.IH [of h1 d1] Cons.prems(2,3) c by simp
qed simp

section \<open>Properties\<close>



text \<open>
  C17.  The parser is total: for any bytes on the disk, however damaged, it terminates without
  indexing out of range, and the keys of the records it returns are unique.
\<close>

theorem parse_structured_total:
  assumes "length bs \<le> usize_max"
  shows "\<exists>history. parse_structured_qa_records bs [] = Some history \<and> keys_unique history"
  using parse_structured_loop_total [OF assms, of 0 "[]"] keys_unique_structured [of "[]" bs]
  by (auto simp: parse_structured_qa_records_def keys_unique_def List.map_filter_simps)

theorem parse_structured_total_witness:
  "\<exists>history. parse_structured_qa_records (ascii ''[RAMQA v1 q=9'') [] = Some history \<and> keys_unique history"
  by (rule parse_structured_total) (simp add: usize_max_def)

text \<open>
  C10.  The history refines a map from keys to the newest record: after any sequence of upserts a key
  holds the last record with that key, and keys stay unique.
\<close>

theorem history_refines_map:
  assumes "keys_unique history"
  shows "history_lookup (foldl upsert_history_record history rs) key =
      (case find (\<lambda>r. qa_record_key r = Some key) (rev rs) of
         Some r \<Rightarrow> Some r | None \<Rightarrow> history_lookup history key) \<and>
    keys_unique (foldl upsert_history_record history rs)"
  using history.look_fold history.ok_fold [OF assms] by simp

theorem history_refines_map_witness:
  "keys_unique (foldl upsert_history_record [] [\<lparr>question = ascii ''codename'', answer = []\<rparr>,
     \<lparr>question = ascii ''codename'', answer = [65]\<rparr>])"
  using history_refines_map [of "[]" "[\<lparr>question = ascii ''codename'', answer = []\<rparr>,
     \<lparr>question = ascii ''codename'', answer = [65]\<rparr>]"]
  by (simp add: keys_unique_def List.map_filter_simps)



end
