(* ===== verification/RamShell.thy ===== *)
theory RamShell
  imports QaSession
begin

text \<open>
  The application of \<open>bitapp/src/hermit_app.rs\<close> around the history: its system calls, timing output,
  the console log viewer, running a prompt through the language model, the interactive shell as a
  state machine over input events, and the boot sequence \<open>run\<close>.
\<close>

section \<open>What the application calls\<close>

text \<open>
  The system calls and the native decoder, acting on the state \<open>'w\<close> of the machine, and the two
  build-time settings.  \<open>os_decode\<close> gets the abort flag and returns it as the polls during
  generation left it, with the return code and the output buffer.
\<close>

record 'w bitapp_sys =
  os_stdout :: "bytes \<Rightarrow> 'w \<Rightarrow> 'w"
  os_append_memory_db :: "bytes \<Rightarrow> 'w \<Rightarrow> int \<times> 'w"
  os_read_memory_db :: "nat \<Rightarrow> 'w \<Rightarrow> (int \<times> bytes) \<times> 'w"
  os_erase_memory_db :: "'w \<Rightarrow> int \<times> 'w"
  os_console_log_len :: "'w \<Rightarrow> nat"
  os_read_console_log :: "nat \<Rightarrow> bytes \<Rightarrow> 'w \<Rightarrow> int \<times> bytes"
  os_set_console_log_capture :: "int \<Rightarrow> 'w \<Rightarrow> int \<times> 'w"
  os_get_timer_ticks :: "'w \<Rightarrow> u64 \<times> 'w"
  os_decode :: "u64 \<Rightarrow> u64 \<Rightarrow> bytes \<Rightarrow> int \<Rightarrow> int \<Rightarrow> int \<Rightarrow> bytes \<Rightarrow> bool \<Rightarrow> 'w \<Rightarrow> (int \<times> bytes \<times> bool) \<times> 'w"
  env_enable_smp_pthread :: "bytes option"
  env_n_threads :: "bytes option"

definition BITNET_SHELL_N_PREDICT :: int where "BITNET_SHELL_N_PREDICT = 64"
definition BITNET_SHELL_N_CTX :: int where "BITNET_SHELL_N_CTX = 512"
definition BITNET_RUNTIME_WARMUP_PROMPT :: bytes where
  "BITNET_RUNTIME_WARMUP_PROMPT = ascii ''runtime warmup'' @ [0]"
definition BITNET_OUTPUT_BUF_LEN :: nat where "BITNET_OUTPUT_BUF_LEN = 16 * 1024"
definition RAM_SHELL_LINE_LEN :: nat where "RAM_SHELL_LINE_LEN = 256"
definition RAM_SHELL_LOG_PAGE_BYTES :: nat where "RAM_SHELL_LOG_PAGE_BYTES = 1024"
definition RAM_SHELL_COMMAND_PROMPT :: bytes where "RAM_SHELL_COMMAND_PROMPT = ascii ''ram> ''"
definition RAM_SHELL_MODEL_PROMPT :: bytes where "RAM_SHELL_MODEL_PROMPT = ascii ''model> ''"
definition RAM_SHELL_LOG_PROMPT :: bytes where "RAM_SHELL_LOG_PROMPT = ascii ''log> ''"

section \<open>Formatting\<close>

definition println :: "'w bitapp_sys \<Rightarrow> bytes \<Rightarrow> 'w \<Rightarrow> 'w" where
  "println os s w = os_stdout os (s @ [10]) w"

definition fmt_nat :: "nat \<Rightarrow> bytes" where
  "fmt_nat n = append_decimal [] n"

definition fmt_int :: "int \<Rightarrow> bytes" where
  "fmt_int i = (if i < 0 then 45 # fmt_nat (nat (- i)) else fmt_nat (nat i))"

text \<open>The format \<open>{:03}\<close>.\<close>

definition fmt_pad3 :: "nat \<Rightarrow> bytes" where
  "fmt_pad3 n = replicate (3 - length (fmt_nat n)) 48 @ fmt_nat n"

fun hex_digits :: "nat \<Rightarrow> bytes" where
  "hex_digits n =
     (let d = n mod 16; c = (if d < 10 then 48 + word_of_nat d else 87 + word_of_nat d)
      in (if n < 16 then [] else hex_digits (n div 16)) @ [c])"

declare hex_digits.simps [simp del]

text \<open>\<open>str::trim\<close>: lines hold printable ASCII, so only ASCII white space can occur.\<close>

definition is_whitespace :: "u8 \<Rightarrow> bool" where
  "is_whitespace b \<longleftrightarrow> b = 32 \<or> (9 \<le> b \<and> b \<le> 13)"

definition str_trim :: "bytes \<Rightarrow> bytes" where
  "str_trim bs = rev (dropWhile is_whitespace (rev (dropWhile is_whitespace bs)))"

definition str_strip_prefix :: "bytes \<Rightarrow> bytes \<Rightarrow> bytes option" where
  "str_strip_prefix s pre = (if take (length pre) s = pre then Some (drop (length pre) s) else None)"

text \<open>\<open>core::str::from_utf8(..).is_ok()\<close>.\<close>

definition utf8_cont :: "u8 \<Rightarrow> bool" where
  "utf8_cont b \<longleftrightarrow> 0x80 \<le> b \<and> b \<le> 0xbf"

fun utf8_valid :: "bytes \<Rightarrow> bool" where
  "utf8_valid [] = True"
| "utf8_valid (b # bs) =
     (if b < 0x80 then utf8_valid bs
      else case bs of
        [] \<Rightarrow> False
      | c # cs \<Rightarrow>
          if 0xc2 \<le> b \<and> b \<le> 0xdf then utf8_cont c \<and> utf8_valid cs
          else case cs of
            [] \<Rightarrow> False
          | d # ds \<Rightarrow>
              if b = 0xe0 then 0xa0 \<le> c \<and> c \<le> 0xbf \<and> utf8_cont d \<and> utf8_valid ds
              else if b = 0xed then 0x80 \<le> c \<and> c \<le> 0x9f \<and> utf8_cont d \<and> utf8_valid ds
              else if 0xe1 \<le> b \<and> b \<le> 0xef then utf8_cont c \<and> utf8_cont d \<and> utf8_valid ds
              else case ds of
                [] \<Rightarrow> False
              | e # es \<Rightarrow>
                  (if b = 0xf0 then 0x90 \<le> c \<and> c \<le> 0xbf
                   else if b = 0xf4 then 0x80 \<le> c \<and> c \<le> 0x8f
                   else 0xf1 \<le> b \<and> b \<le> 0xf3 \<and> utf8_cont c) \<and> utf8_cont d \<and> utf8_cont e \<and> utf8_valid es)"

definition from_utf8_or_empty :: "bytes \<Rightarrow> bytes" where
  "from_utf8_or_empty bs = (if utf8_valid bs then bs else [])"

section \<open>Allocation and threads\<close>

fun pow2_at_least :: "nat \<Rightarrow> nat" where
  "pow2_at_least n = (if n \<le> 1 then 1 else 2 * pow2_at_least ((n + 1) div 2))"

declare pow2_at_least.simps [simp del]

text \<open>\<open>usize::next_power_of_two\<close> wraps to 0 in a release build when there is none.\<close>

definition next_power_of_two :: "nat \<Rightarrow> nat" where
  "next_power_of_two n = (let p = pow2_at_least n in if usize_max < p then 0 else p)"

text \<open>\<open>Layout::from_size_align\<close>: a power of two, and a size that does not overflow when rounded up to it.\<close>

definition layout_from_size_align :: "nat \<Rightarrow> nat \<Rightarrow> (nat \<times> nat) option" where
  "layout_from_size_align sz al =
     (if (\<exists>k < 64. al = 2 ^ k) \<and> sz + (al - 1) < 2 ^ 63 then Some (sz, al) else None)"

definition bitapp_malloc :: "(nat \<times> nat \<Rightarrow> u64) \<Rightarrow> nat \<Rightarrow> nat \<Rightarrow> u64" where
  "bitapp_malloc alloc sz al =
     (let sz = max sz 1; al = next_power_of_two (max al 8)
      in case layout_from_size_align sz al of Some layout \<Rightarrow> alloc layout | None \<Rightarrow> 0)"

definition bitapp_free :: "(u64 \<Rightarrow> nat \<times> nat \<Rightarrow> 'm \<Rightarrow> 'm) \<Rightarrow> u64 \<Rightarrow> nat \<Rightarrow> nat \<Rightarrow> 'm \<Rightarrow> 'm" where
  "bitapp_free dealloc ptr sz al mem =
     (if ptr = 0 then mem
      else let sz = max sz 1; al = next_power_of_two (max al 8)
        in case layout_from_size_align sz al of Some layout \<Rightarrow> dealloc ptr layout mem | None \<Rightarrow> mem)"

text \<open>\<open>str::parse::<i32>\<close>.\<close>

definition parse_i32 :: "bytes \<Rightarrow> int option" where
  "parse_i32 bs =
     (let neg = (bs \<noteq> [] \<and> hd bs = 45); ds = (if bs \<noteq> [] \<and> (hd bs = 45 \<or> hd bs = 43) then tl bs else bs);
          all = (ds \<noteq> [] \<and> list_all (\<lambda>b. 48 \<le> b \<and> b \<le> 57) ds);
          v = foldl (\<lambda>v b. v * 10 + int (unat (b - 48))) 0 ds; v = (if neg then - v else v)
      in if all \<and> - (2 ^ 31) \<le> v \<and> v < 2 ^ 31 then Some v else None)"

definition bitapp_n_threads :: "'w bitapp_sys \<Rightarrow> int" where
  "bitapp_n_threads os =
     (if env_enable_smp_pthread os \<noteq> Some (ascii ''1'') then 1
      else case Option.bind (env_n_threads os) parse_i32 of
        Some v \<Rightarrow> if 0 < v then v else 1
      | None \<Rightarrow> 1)"

section \<open>Standard input during generation\<close>

datatype stdin_read = Ok_0 | Ok_byte u8 | Read_err

text \<open>The reads that standard input will answer; once they are used up there is no input.\<close>

fun bitapp_generation_should_abort :: "stdin_read list \<Rightarrow> bool \<Rightarrow> int \<times> bool \<times> stdin_read list" where
  "bitapp_generation_should_abort [] aborted = (0, aborted, [])"
| "bitapp_generation_should_abort (Ok_0 # rs) aborted = (0, aborted, rs)"
| "bitapp_generation_should_abort (Ok_byte b # rs) aborted =
     (if b = 3 then (1, True, rs) else bitapp_generation_should_abort rs aborted)"
| "bitapp_generation_should_abort (Read_err # rs) aborted = (0, aborted, rs)"

section \<open>The memory database\<close>

definition bitapp_flush_memory_db :: "'w bitapp_sys \<Rightarrow> bytes \<Rightarrow> 'w \<Rightarrow> bytes \<times> 'w" where
  "bitapp_flush_memory_db os session_delta w =
     (if session_delta = [] then (session_delta, w)
      else case os_append_memory_db os session_delta w of
        (ret, w) \<Rightarrow>
          if ret < 0 then
            (session_delta, println os (ascii ''bitapp: RAM_SHELL failed to persist session delta to SSD memory DB: ''
               @ fmt_int ret) w)
          else ([], w))"

definition bitapp_erase_memory_db :: "'w bitapp_sys \<Rightarrow> 'w \<Rightarrow> qa_record list \<times> bytes \<times> 'w" where
  "bitapp_erase_memory_db os w =
     (case os_erase_memory_db os w of
        (ret, w) \<Rightarrow>
          ([], [], if ret < 0 then println os (ascii ''bitapp: RAM_SHELL failed to erase SSD memory DB: ''
             @ fmt_int ret) w else w))"

definition bitapp_reboot :: "'w bitapp_sys \<Rightarrow> bytes \<Rightarrow> 'w \<Rightarrow> 'w" where
  "bitapp_reboot os session_delta w = snd (bitapp_flush_memory_db os session_delta w)"

definition bitapp_load_memory_db_history ::
  "'w bitapp_sys \<Rightarrow> qa_record list \<Rightarrow> 'w \<Rightarrow> qa_record list option \<times> 'w" where
  "bitapp_load_memory_db_history os history w =
     (case os_read_memory_db os RAM_SHELL_HISTORY_CAP_BYTES w of
        ((ret, scratch), w) \<Rightarrow>
          if ret < 0 then (Some history, w)
          else
            let loaded = nat ret
            in if loaded = 0 then (Some history, w)
               else (map_option (\<lambda>h. shrink_records h 0)
                 (parse_structured_qa_records (take (min loaded (length scratch)) scratch) history), w))"

section \<open>Timing\<close>

definition bitapp_elapsed_ms :: "u64 \<Rightarrow> u64 \<Rightarrow> nat" where
  "bitapp_elapsed_ms start e = unat (sat_sub64 e start) div 1000"

definition bitapp_boot_ms :: "u64 \<Rightarrow> nat" where
  "bitapp_boot_ms now = bitapp_elapsed_ms 0 now"

definition bitapp_boot_seconds :: "u64 \<Rightarrow> nat" where
  "bitapp_boot_seconds now = unat now div 1000000"

definition bitapp_boot_milliseconds :: "u64 \<Rightarrow> nat" where
  "bitapp_boot_milliseconds now = unat now mod 1000000 div 1000"

definition bitapp_log_boot_event :: "'w bitapp_sys \<Rightarrow> bytes \<Rightarrow> 'w \<Rightarrow> u64 \<times> 'w" where
  "bitapp_log_boot_event os event w =
     (case os_get_timer_ticks os w of
        (now, w) \<Rightarrow>
          (now, println os (ascii ''[ '' @ fmt_nat (bitapp_boot_seconds now) @ [46] @
             fmt_pad3 (bitapp_boot_milliseconds now) @ ascii '' ] bitapp: boot_timer event='' @ event @
             ascii '' boot_ms='' @ fmt_nat (bitapp_boot_ms now)) w))"

definition bitapp_log_boot_delta :: "'w bitapp_sys \<Rightarrow> bytes \<Rightarrow> u64 \<Rightarrow> 'w \<Rightarrow> u64 \<times> 'w" where
  "bitapp_log_boot_delta os event since w =
     (case os_get_timer_ticks os w of
        (now, w) \<Rightarrow>
          (now, println os (ascii ''[ '' @ fmt_nat (bitapp_boot_seconds now) @ [46] @
             fmt_pad3 (bitapp_boot_milliseconds now) @ ascii '' ] bitapp: boot_timer event='' @ event @
             ascii '' boot_ms='' @ fmt_nat (bitapp_boot_ms now) @ ascii '' delta_ms='' @
             fmt_nat (bitapp_elapsed_ms since now)) w))"

section \<open>The console log viewer\<close>

definition bitapp_console_log_set_capture :: "'w bitapp_sys \<Rightarrow> bool \<Rightarrow> 'w \<Rightarrow> 'w" where
  "bitapp_console_log_set_capture os enabled w =
     snd (os_set_console_log_capture os (if enabled then 1 else 0) w)"

definition bitapp_read_console_log :: "'w bitapp_sys \<Rightarrow> nat \<Rightarrow> bytes \<Rightarrow> 'w \<Rightarrow> nat \<times> bytes" where
  "bitapp_read_console_log os offset out w =
     (if out = [] then (0, out)
      else case os_read_console_log os offset out w of
        (ret, out) \<Rightarrow> if ret \<le> 0 then (0, out) else (nat ret, out))"

definition bitapp_console_log_max_offset :: "nat \<Rightarrow> nat" where
  "bitapp_console_log_max_offset log_len = log_len - RAM_SHELL_LOG_PAGE_BYTES"

definition bitapp_console_log_clamp_offset :: "nat \<Rightarrow> nat \<Rightarrow> nat" where
  "bitapp_console_log_clamp_offset offset log_len = min offset (bitapp_console_log_max_offset log_len)"

definition bitapp_console_log_bottom_offset :: "'w bitapp_sys \<Rightarrow> 'w \<Rightarrow> nat" where
  "bitapp_console_log_bottom_offset os w = bitapp_console_log_max_offset (os_console_log_len os w)"

definition bitapp_write_console_log_help :: "'w bitapp_sys \<Rightarrow> 'w \<Rightarrow> 'w" where
  "bitapp_write_console_log_help os w =
     os_stdout os (ascii ''commands: pgup, pgdn, top, bottom, refresh, help, exit'' @ [10] @
       ascii ''enter/pgdn: newer page; pgup: older page; exit: return to ram shell'' @ [10]) w"

definition console_log_byte :: "u8 \<Rightarrow> u8" where
  "console_log_byte b =
     (if b = 10 \<or> b = 9 \<or> (0x20 \<le> b \<and> b \<le> 0x7e) then b else if b = 13 then 10 else 63)"

fun bitapp_write_console_log_bytes :: "'w bitapp_sys \<Rightarrow> bytes \<Rightarrow> 'w \<Rightarrow> 'w" where
  "bitapp_write_console_log_bytes os [] w = w"
| "bitapp_write_console_log_bytes os (b # bs) w =
     bitapp_write_console_log_bytes os bs (os_stdout os [console_log_byte b] w)"

text \<open>\<open>&page[..read_len]\<close> panics (\<open>None\<close>) when the kernel reports more bytes than the page holds.\<close>

definition bitapp_render_console_log_page :: "'w bitapp_sys \<Rightarrow> nat \<Rightarrow> 'w \<Rightarrow> (nat \<times> 'w) option" where
  "bitapp_render_console_log_page os offset w =
     (let log_len = os_console_log_len os w;
          offset = bitapp_console_log_clamp_offset offset log_len;
          (read_len, page) = bitapp_read_console_log os offset (replicate RAM_SHELL_LOG_PAGE_BYTES 0) w;
          e = sat_add offset read_len;
          w = os_stdout os [12] w
      in if log_len = 0 \<or> read_len = 0 then
           Some (offset, os_stdout os (ascii ''console log is empty'' @ [10]) w)
         else if RAM_SHELL_LOG_PAGE_BYTES < read_len then None
         else
           let w = os_stdout os (ascii ''console log bytes '' @ fmt_nat offset @ ascii ''..'' @ fmt_nat e @
                 ascii '' of '' @ fmt_nat log_len @ [10]) w;
               w = bitapp_write_console_log_bytes os (take read_len page) w;
               w = (if page ! (read_len - 1) \<noteq> 10 then os_stdout os [10] w else w)
           in Some (offset, os_stdout os
                (ascii ''-- pgup older | pgdn newer | top | bottom | refresh | exit --'' @ [10]) w))"

definition bitapp_run_console_log_command ::
  "'w bitapp_sys \<Rightarrow> bytes \<Rightarrow> nat \<Rightarrow> 'w \<Rightarrow> (bool \<times> nat \<times> 'w) option" where
  "bitapp_run_console_log_command os command log_offset w =
     (let command = str_trim command;
          render = (\<lambda>offset. map_option (\<lambda>(offset, w). (True, offset, w)) (bitapp_render_console_log_page os offset w))
      in if command = [] \<or> command = ascii ''pgdn'' \<or> command = ascii ''next'' \<or> command = ascii ''down'' then
           let log_len = os_console_log_len os w; max_offset = bitapp_console_log_max_offset log_len
           in render (min (sat_add log_offset RAM_SHELL_LOG_PAGE_BYTES) max_offset)
         else if command = ascii ''pgup'' \<or> command = ascii ''prev'' \<or> command = ascii ''up'' then
           render (log_offset - RAM_SHELL_LOG_PAGE_BYTES)
         else if command = ascii ''top'' then render 0
         else if command = ascii ''bottom'' \<or> command = ascii ''end'' then
           render (bitapp_console_log_bottom_offset os w)
         else if command = ascii ''refresh'' \<or> command = ascii ''r'' then render log_offset
         else if command = ascii ''help'' \<or> command = ascii ''?'' then
           Some (True, log_offset, bitapp_write_console_log_help os w)
         else if command = ascii ''exit'' \<or> command = ascii ''quit'' \<or> command = ascii ''q'' then
           Some (False, log_offset, w)
         else Some (True, log_offset, bitapp_write_console_log_help os w))"

section \<open>Running a prompt\<close>

text \<open>The model as the kernel handed it over: its address and its length.\<close>

record model_blob =
  model_ptr :: u64
  model_len :: u64

definition bitapp_run_model_prompt ::
  "'w bitapp_sys \<Rightarrow> model_blob \<Rightarrow> qa_record list \<Rightarrow> bytes \<Rightarrow> bytes \<Rightarrow> 'w \<Rightarrow> bytes \<times> qa_record list \<times> bytes \<times> 'w" where
  "bitapp_run_model_prompt os model history session_delta prompt w =
     (let prompt = str_trim prompt
      in if prompt = [] then ([], history, session_delta, println os (ascii ''bitapp: prompt is empty'') w)
         else
           let (prompt_len, prompt_buf) = build_raw_prompt (replicate (RAM_SHELL_LINE_LEN + 1) 0) prompt
           in if prompt_len = 0 \<or> length prompt_buf \<le> prompt_len then
                ([], history, session_delta, println os (ascii ''bitapp: prompt buffer is full'') w)
              else
                case os_decode os (model_ptr model) (model_len model) prompt_buf BITNET_SHELL_N_PREDICT
                    (bitapp_n_threads os) BITNET_SHELL_N_CTX (replicate BITNET_OUTPUT_BUF_LEN 0) False w of
                  ((ret, generated_output, aborted), w) \<Rightarrow>
                    if aborted then
                      ([], history, session_delta, println os (ascii ''bitapp: RAM_SHELL prompt stopped by Ctrl-C'') w)
                    else if ret = 0 then
                      let generated_len = c_string_len generated_output;
                          ans = ram_shell_answer_bytes (take generated_len generated_output);
                          w = (if ans \<noteq> [] then os_stdout os ans w else w);
                          w = (if ans = [] \<or> last ans \<noteq> 10 then println os [] w else w);
                          (history, session_delta) = append_to_history history session_delta prompt ans
                      in (ans, history, session_delta, w)
                    else ([], history, session_delta, w))"

definition bitapp_warm_bitnet_runtime :: "'w bitapp_sys \<Rightarrow> model_blob \<Rightarrow> 'w \<Rightarrow> int \<times> 'w" where
  "bitapp_warm_bitnet_runtime os model w =
     (case os_decode os (model_ptr model) (model_len model) BITNET_RUNTIME_WARMUP_PROMPT (-1)
        (bitapp_n_threads os) BITNET_SHELL_N_CTX [0] False w of
        ((ret, out, aborted), w) \<Rightarrow> (ret, w))"

section \<open>The shell\<close>

datatype ram_shell_mode = Command | Prompt | Log

record 'w ram_shell =
  sh_line :: bytes
  sh_line_len :: nat
  sh_mode :: ram_shell_mode
  sh_log_offset :: nat
  sh_delta :: bytes
  sh_history :: "qa_record list"
  sh_world :: 'w

text \<open>A step leaves the shell running, ends in \<open>sys_reboot\<close>, or panics.\<close>

datatype 'w outcome =
    Running "'w ram_shell"
  | Rebooted 'w
  | Panicked

definition put_out :: "'w bitapp_sys \<Rightarrow> bytes \<Rightarrow> 'w ram_shell \<Rightarrow> 'w ram_shell" where
  "put_out os s st = st\<lparr>sh_world := os_stdout os s (sh_world st)\<rparr>"

definition clear_screen :: "'w bitapp_sys \<Rightarrow> 'w ram_shell \<Rightarrow> 'w ram_shell" where
  "clear_screen os st = st\<lparr>sh_world := (println os [] ^^ 40) (sh_world st)\<rparr>"

definition run_prompt :: "'w bitapp_sys \<Rightarrow> model_blob \<Rightarrow> bytes \<Rightarrow> 'w ram_shell \<Rightarrow> 'w ram_shell" where
  "run_prompt os model prompt st =
     (case bitapp_run_model_prompt os model (sh_history st) (sh_delta st) prompt (sh_world st) of
        (_, history, delta, w) \<Rightarrow> st\<lparr>sh_history := history, sh_delta := delta, sh_world := w\<rparr>)"

definition forget_command :: "bytes \<Rightarrow> 'w ram_shell \<Rightarrow> 'w ram_shell" where
  "forget_command phrase st =
     (case append_forget_to_history (sh_history st) (sh_delta st) phrase of
        (_, history, delta) \<Rightarrow> st\<lparr>sh_history := history, sh_delta := delta\<rparr>)"

definition erase_command :: "'w bitapp_sys \<Rightarrow> 'w ram_shell \<Rightarrow> 'w ram_shell" where
  "erase_command os st =
     (case bitapp_erase_memory_db os (sh_world st) of
        (history, delta, w) \<Rightarrow> st\<lparr>sh_history := history, sh_delta := delta, sh_world := w\<rparr>)"

definition exit_command :: "'w bitapp_sys \<Rightarrow> 'w ram_shell \<Rightarrow> 'w ram_shell" where
  "exit_command os st =
     (case bitapp_flush_memory_db os (sh_delta st) (sh_world st) of
        (delta, w) \<Rightarrow> st\<lparr>sh_delta := delta, sh_world := w, sh_mode := Command\<rparr>)"

definition forget_phrase :: "bytes \<Rightarrow> bytes option" where
  "forget_phrase trimmed =
     (case str_strip_prefix trimmed (ascii ''forget '') of
        Some p \<Rightarrow> Some p
      | None \<Rightarrow> str_strip_prefix trimmed (ascii ''erase ''))"

definition log_command :: "'w bitapp_sys \<Rightarrow> 'w ram_shell \<Rightarrow> 'w outcome" where
  "log_command os st =
     (let w = bitapp_console_log_set_capture os False (sh_world st);
          log_offset = bitapp_console_log_bottom_offset os w
      in case bitapp_render_console_log_page os log_offset w of
           None \<Rightarrow> Panicked
         | Some (log_offset, w) \<Rightarrow> Running (st\<lparr>sh_log_offset := log_offset, sh_world := w, sh_mode := Log\<rparr>))"

definition command_line :: "'w bitapp_sys \<Rightarrow> model_blob \<Rightarrow> bytes \<Rightarrow> 'w ram_shell \<Rightarrow> 'w outcome" where
  "command_line os model command st =
     (let trimmed = str_trim command
      in if trimmed = [] then Running st
         else if trimmed = ascii ''help'' then
           Running (put_out os (ascii ''log: open captured console log; use pgup/pgdn/top/bottom/exit'' @ [10])
             (put_out os (ascii ''prompt: enter prompt mode; prompt <text>: run immediately'' @ [10])
               (put_out os (ascii ''commands: clear, reset, prompt, log, forget, erase, exit, reboot'' @ [10]) st)))
         else if trimmed = ascii ''clear'' then Running (clear_screen os st)
         else if trimmed = ascii ''reset'' then Running (st\<lparr>sh_history := [], sh_delta := []\<rparr>)
         else if trimmed = ascii ''erase memory'' then Running (erase_command os st)
         else case forget_phrase trimmed of
           Some phrase \<Rightarrow> Running (forget_command phrase st)
         | None \<Rightarrow>
             if trimmed = ascii ''prompt'' then Running (st\<lparr>sh_mode := Prompt\<rparr>)
             else case str_strip_prefix trimmed (ascii ''prompt '') of
               Some prompt \<Rightarrow> Running ((run_prompt os model prompt st)\<lparr>sh_mode := Prompt\<rparr>)
             | None \<Rightarrow>
                 if trimmed = ascii ''log'' then log_command os st
                 else if trimmed = ascii ''exit'' then Running (exit_command os st)
                 else if trimmed = ascii ''reboot'' then Rebooted (bitapp_reboot os (sh_delta st) (sh_world st))
                 else Running (put_out os (ascii ''ram: '' @ trimmed @ [10]) st))"

definition prompt_line :: "'w bitapp_sys \<Rightarrow> model_blob \<Rightarrow> bytes \<Rightarrow> 'w ram_shell \<Rightarrow> 'w outcome" where
  "prompt_line os model command st =
     (let prompt = str_trim command
      in if prompt = ascii ''cancel'' then Running (put_out os (ascii ''bitapp: prompt cancelled'' @ [10]) st)
         else if prompt = ascii ''exit'' then Running (exit_command os st)
         else if prompt = ascii ''reboot'' then Rebooted (bitapp_reboot os (sh_delta st) (sh_world st))
         else if prompt = ascii ''erase memory'' then Running (erase_command os st)
         else case forget_phrase prompt of
           Some phrase \<Rightarrow> Running (forget_command phrase st)
         | None \<Rightarrow>
             if prompt = ascii ''clear'' then Running (clear_screen os st)
             else Running (run_prompt os model prompt st))"

definition log_line :: "'w bitapp_sys \<Rightarrow> bytes \<Rightarrow> 'w ram_shell \<Rightarrow> 'w outcome" where
  "log_line os command st =
     (case bitapp_run_console_log_command os command (sh_log_offset st) (sh_world st) of
        None \<Rightarrow> Panicked
      | Some (stay, log_offset, w) \<Rightarrow>
          let st = st\<lparr>sh_log_offset := log_offset, sh_world := w\<rparr>
          in if stay then Running st
             else Running (st\<lparr>sh_world := bitapp_console_log_set_capture os True w, sh_mode := Command\<rparr>))"

definition mode_prompt :: "ram_shell_mode \<Rightarrow> bytes" where
  "mode_prompt mode =
     (case mode of Command \<Rightarrow> RAM_SHELL_COMMAND_PROMPT | Prompt \<Rightarrow> RAM_SHELL_MODEL_PROMPT
      | Log \<Rightarrow> RAM_SHELL_LOG_PROMPT)"

definition enter_line :: "'w bitapp_sys \<Rightarrow> model_blob \<Rightarrow> 'w ram_shell \<Rightarrow> 'w outcome" where
  "enter_line os model st =
     (let st = put_out os [10] st;
          command = from_utf8_or_empty (take (sh_line_len st) (sh_line st));
          result = (case sh_mode st of
              Command \<Rightarrow> command_line os model command st
            | Prompt \<Rightarrow> prompt_line os model command st
            | Log \<Rightarrow> log_line os command st)
      in case result of
           Running st \<Rightarrow> Running (put_out os (mode_prompt (sh_mode st)) (st\<lparr>sh_line_len := 0\<rparr>))
         | Rebooted w \<Rightarrow> Rebooted w
         | Panicked \<Rightarrow> Panicked)"

definition interrupt_line :: "'w bitapp_sys \<Rightarrow> 'w ram_shell \<Rightarrow> 'w ram_shell" where
  "interrupt_line os st =
     (let st = (put_out os (ascii ''^C'' @ [10]) st)\<lparr>sh_line_len := 0\<rparr>;
          st = (if sh_mode st = Log
                then st\<lparr>sh_world := bitapp_console_log_set_capture os True (sh_world st)\<rparr> else st)
      in put_out os RAM_SHELL_COMMAND_PROMPT (st\<lparr>sh_mode := Command\<rparr>))"

text \<open>\<open>line[line_len] = ch\<close> is in range under the guard, since the array has 256 places.\<close>

definition ram_shell_byte :: "'w bitapp_sys \<Rightarrow> model_blob \<Rightarrow> u8 \<Rightarrow> 'w ram_shell \<Rightarrow> 'w outcome" where
  "ram_shell_byte os model ch st =
     (if ch = 3 then Running (interrupt_line os st)
      else if ch = 13 \<or> ch = 10 then enter_line os model st
      else if ch = 8 \<or> ch = 127 then
        Running (if 0 < sh_line_len st
                 then put_out os [8, 32, 8] (st\<lparr>sh_line_len := sh_line_len st - 1\<rparr>) else st)
      else if 0x20 \<le> ch \<and> ch \<le> 0x7e then
        Running (if sh_line_len st + 1 < length (sh_line st)
                 then put_out os [ch] (st\<lparr>sh_line := (sh_line st)[sh_line_len st := ch], sh_line_len := sh_line_len st + 1\<rparr>)
                 else st)
      else Running st)"

definition ram_shell_step :: "'w bitapp_sys \<Rightarrow> model_blob \<Rightarrow> stdin_read \<Rightarrow> 'w ram_shell \<Rightarrow> 'w outcome" where
  "ram_shell_step os model ev st =
     (case ev of Ok_0 \<Rightarrow> Running st | Ok_byte ch \<Rightarrow> ram_shell_byte os model ch st | Read_err \<Rightarrow> Running st)"

fun ram_shell_run :: "'w bitapp_sys \<Rightarrow> model_blob \<Rightarrow> stdin_read list \<Rightarrow> 'w ram_shell \<Rightarrow> 'w outcome" where
  "ram_shell_run os model [] st = Running st"
| "ram_shell_run os model (ev # evs) st =
     (case ram_shell_step os model ev st of
        Running st \<Rightarrow> ram_shell_run os model evs st
      | Rebooted w \<Rightarrow> Rebooted w
      | Panicked \<Rightarrow> Panicked)"

definition bitapp_ram_shell :: "'w bitapp_sys \<Rightarrow> qa_record list \<Rightarrow> 'w \<Rightarrow> 'w ram_shell" where
  "bitapp_ram_shell os history w =
     put_out os RAM_SHELL_COMMAND_PROMPT
       \<lparr>sh_line = replicate RAM_SHELL_LINE_LEN 0, sh_line_len = 0, sh_mode = Command, sh_log_offset = 0,
        sh_delta = [], sh_history = history, sh_world = w\<rparr>"

section \<open>Boot\<close>

text \<open>\<open>run\<close> up to the shell's first prompt; \<open>None\<close> is a panic while parsing the log.\<close>

definition run :: "'w bitapp_sys \<Rightarrow> model_blob \<Rightarrow> 'w \<Rightarrow> 'w ram_shell option" where
  "run os model w =
     (case bitapp_log_boot_event os (ascii ''bitapp_main_start'') w of
        (app_start, w) \<Rightarrow>
      (case bitapp_log_boot_delta os (ascii ''model_handoff'') app_start
          (println os (ascii ''bitapp: BitNet b1.58 Hermit linked app'') w) of
        (model_handoff, w) \<Rightarrow>
          let w = println os (ascii ''bitapp: kernel model pointer=0x'' @ hex_digits (unat (model_ptr model)) @
                ascii '', len='' @ fmt_nat (unat (model_len model))) w
          in case bitapp_load_memory_db_history os [] w of
               (None, w) \<Rightarrow> None
             | (Some history, w) \<Rightarrow>
                 (case bitapp_log_boot_delta os (ascii ''runtime_warmup_start'') model_handoff w of
                    (warmup_start, w) \<Rightarrow>
                  (case bitapp_warm_bitnet_runtime os model w of
                    (warmup_ret, w) \<Rightarrow>
                  (case bitapp_log_boot_delta os (ascii ''runtime_warmup_done'') warmup_start w of
                    (_, w) \<Rightarrow>
                      Some (bitapp_ram_shell os history
                        (println os (ascii ''bitapp: runtime warmup returned '' @ fmt_int warmup_ret) w)))))))"

end
