(* ===== verification/RamShellLaws.thy ===== *)
theory RamShellLaws
  imports RamShell
begin

text \<open>
  The contract between the application and the machine it runs on, as a locale, and what the shell
  guarantees for every input under that contract: it never panics, its buffers and its history stay
  bounded, console capture is off exactly while the log viewer is open, and its history stays what
  the stored log followed by the unsaved delta replays to.
\<close>

section \<open>The session as an abstract machine\<close>

text \<open>
  What one input event may do to the stored log, the history and the unsaved delta: nothing, one
  session command, a flush, an erase, or a reset of the RAM state alone.
\<close>

definition SESSION_CMD_MAX :: nat where
  "SESSION_CMD_MAX = RAM_SHELL_LINE_LEN + BITNET_OUTPUT_BUF_LEN + 64"

inductive session_step :: "bytes \<times> qa_record list \<times> bytes \<Rightarrow> bytes \<times> qa_record list \<times> bytes \<Rightarrow> bool" where
  stay: "session_step (log, h, d) (log, h, d)"
| cmd: "session_step (log, h, d) (log, h', d')"
    if "session_cmd_apply c (h, d) = (h', d')" and "session_cmd_size c \<le> SESSION_CMD_MAX"
| flush: "session_step (log, h, d) (log @ d, h, [])"
| erase: "session_step (log, h, d) ([], [], [])"
| reset: "session_step (log, h, d) (log, [], [])"

inductive_simps session_step_simps: "session_step (log, h, d) (log', h', d')"

lemma session_cmd_max_cap: "SESSION_CMD_MAX \<le> RAM_SHELL_HISTORY_CAP_BYTES"
  by (simp add: SESSION_CMD_MAX_def RAM_SHELL_LINE_LEN_def BITNET_OUTPUT_BUF_LEN_def cap_small)

lemma session_cmd_bounded:
  assumes "session_bounded h d" and "session_cmd_apply c (h, d) = (h', d')" and "session_cmd_size c \<le> SESSION_CMD_MAX"
  shows "session_bounded h' d'"
proof (cases c)
  case (Ask q a)
  show ?thesis
    by (rule append_to_history_bounded [OF assms(1)]) (use assms session_cmd_max_cap Ask in simp_all)
next
  case (Drop_phrase p)
  obtain n h1 d1 where f: "append_forget_to_history h d p = (n, h1, d1)"
    by (metis prod_cases3)
  have "session_bounded h1 d1"
    by (rule append_forget_bounded [OF assms(1) _ f]) (use assms(3) session_cmd_max_cap Drop_phrase in simp)
  then show ?thesis
    using assms(2) f Drop_phrase by simp
qed

lemma session_step_bounded:
  assumes "session_step (log, h, d) (log', h', d')" and "session_bounded h d"
  shows "session_bounded h' d'"
proof -
  have "session_bounded [] []" "session_bounded h []"
    using assms(2) by (simp_all add: session_bounded_def)
  then show ?thesis
    using assms session_cmd_bounded [OF assms(2)] unfolding session_step_simps by blast
qed

lemma keys_unique_cmd:
  assumes "keys_unique h" and "session_cmd_apply c (h, d) = (h', d')"
  shows "keys_unique h'"
proof (cases c)
  case (Ask q a)
  then show ?thesis
    using assms keys_unique_upsert keys_unique_suffix [OF shrink_records_suffix assms(1)]
    by (auto simp: append_to_history_def Let_def)
next
  case (Drop_phrase p)
  then show ?thesis
    using assms keys_unique_forget
    by (auto simp: append_forget_to_history_def Let_def split: if_splits prod.splits) (metis snd_conv)+
qed

lemma session_step_keys:
  assumes "session_step (log, h, d) (log', h', d')" and "keys_unique h"
  shows "keys_unique h'"
proof -
  have "keys_unique []" by (simp add: keys_unique_def List.map_filter_simps)
  then show ?thesis
    using assms keys_unique_cmd [OF assms(2)] unfolding session_step_simps by blast
qed

text \<open>Every step but a reset keeps the history what the log and the delta replay to.\<close>

lemma session_synced_empty: "session_synced [] [] []"
  using log_image.empty by (force simp: session_synced_def)

lemma session_step_synced:
  assumes "session_step (log, h, d) (log', h', d')" and "session_synced log h d"
    and "length log + length d + SESSION_CMD_MAX \<le> RAM_SHELL_HISTORY_CAP_BYTES"
  shows "session_synced log' h' d' \<or> log' = log \<and> h' = [] \<and> d' = []"
  using assms(1)
proof (cases rule: session_step.cases)
  case (cmd c)
  then show ?thesis
    using session_cmd_synced [OF assms(2), of c] assms(3) by simp
next
  case flush
  then show ?thesis
    using session_synced_flush [OF assms(2)] by simp
qed (simp_all add: assms(2) session_synced_empty)

section \<open>What a step of the shell may do\<close>

text \<open>
  \<open>append_failed\<close>, \<open>call_failed\<close>: the append, or the append or the erase, that the step may make returns an error.  \<open>shell_trans\<close>: the step
  is one of the abstract session, on the log the machine stores unless such a call failed.
  \<open>shell_result\<close>: a line never panics, leaves the edit buffer alone, keeps the capture flag in step
  with the mode, and makes such a transition.
\<close>

definition append_failed :: "'w bitapp_sys \<Rightarrow> 'w ram_shell \<Rightarrow> bool" where
  "append_failed os st \<longleftrightarrow> fst (os_append_memory_db os (sh_delta st) (sh_world st)) < 0"

definition call_failed :: "'w bitapp_sys \<Rightarrow> 'w ram_shell \<Rightarrow> bool" where
  "call_failed os st \<longleftrightarrow> append_failed os st \<or> fst (os_erase_memory_db os (sh_world st)) < 0"

definition shell_trans :: "'w bitapp_sys \<Rightarrow> ('w \<Rightarrow> bytes \<Rightarrow> bool) \<Rightarrow> 'w ram_shell \<Rightarrow> 'w ram_shell \<Rightarrow> bool" where
  "shell_trans os stored st st' \<longleftrightarrow>
     (\<exists>log log'. session_step (log, sh_history st, sh_delta st) (log', sh_history st', sh_delta st')) \<and>
     (\<forall>log. stored (sh_world st) log \<longrightarrow> call_failed os st \<or>
        (\<exists>log'. stored (sh_world st') log' \<and>
           session_step (log, sh_history st, sh_delta st) (log', sh_history st', sh_delta st')))"

definition shell_result ::
  "'w bitapp_sys \<Rightarrow> ('w \<Rightarrow> bytes \<Rightarrow> bool) \<Rightarrow> ('w \<Rightarrow> bool) \<Rightarrow> 'w ram_shell \<Rightarrow> 'w outcome \<Rightarrow> bool" where
  "shell_result os stored capture st out =
     (case out of
        Running st' \<Rightarrow> sh_line st' = sh_line st \<and> sh_line_len st' = sh_line_len st \<and>
          (capture (sh_world st') \<longleftrightarrow> sh_mode st' \<noteq> Log) \<and> shell_trans os stored st st'
      | Rebooted w \<Rightarrow> \<forall>log. stored (sh_world st) log \<longrightarrow> append_failed os st \<or> stored w (log @ sh_delta st)
      | Panicked \<Rightarrow> False)"

text \<open>The shell's invariant: bounded line, history and delta, printable line, unique keys, capture in step with the mode.\<close>

definition printable :: "u8 \<Rightarrow> bool" where
  "printable b \<longleftrightarrow> 0x20 \<le> b \<and> b \<le> 0x7e"

definition shell_inv :: "('w \<Rightarrow> bool) \<Rightarrow> 'w ram_shell \<Rightarrow> bool" where
  "shell_inv capture st \<longleftrightarrow> length (sh_line st) = RAM_SHELL_LINE_LEN \<and> sh_line_len st < RAM_SHELL_LINE_LEN \<and>
     list_all printable (take (sh_line_len st) (sh_line st)) \<and> session_bounded (sh_history st) (sh_delta st) \<and>
     keys_unique (sh_history st) \<and> (capture (sh_world st) \<longleftrightarrow> sh_mode st \<noteq> Log)"

lemma shell_result_if:
  "shell_result os stored capture st x \<Longrightarrow> shell_result os stored capture st y \<Longrightarrow>
     shell_result os stored capture st (if c then x else y)"
  by simp

lemma shell_result_option:
  "shell_result os stored capture st x \<Longrightarrow> (\<And>v. o1 = Some v \<Longrightarrow> shell_result os stored capture st (f v)) \<Longrightarrow>
     shell_result os stored capture st (case o1 of None \<Rightarrow> x | Some v \<Rightarrow> f v)"
  by (cases o1) simp_all

lemma length_str_trim: "length (str_trim bs) \<le> length bs"
  unfolding str_trim_def length_rev
  by (metis length_dropWhile_le length_rev order_trans)

lemma length_strip_prefix: "str_strip_prefix s pre = Some p \<Longrightarrow> length p \<le> length s"
  by (auto simp: str_strip_prefix_def split: if_splits)

lemma length_forget_phrase: "forget_phrase s = Some p \<Longrightarrow> length p \<le> length s"
  by (auto simp: forget_phrase_def length_strip_prefix split: option.splits)

lemma length_answer: "length (ram_shell_answer_bytes bs) \<le> length bs"
proof -
  have "sublist (ram_shell_answer_bytes bs) bs"
    unfolding ram_shell_answer_bytes_def
    using trim_orphan_trimmed strip_first_prefix_trimmed [OF trim_ascii_idem, of bs] trim_ascii_sublist
      sublist_order.order_trans by blast
  then show ?thesis by (rule sublist_length_le)
qed

section \<open>The machine's contract\<close>

text \<open>
  \<open>stored w log\<close> says that the memory database is open and holds the bytes \<open>log\<close>; \<open>capture w\<close> is the
  console log's capture flag.  A failed append or erase promises nothing about the database.
\<close>

locale app_kernel =
  fixes os :: "'w bitapp_sys" and stored :: "'w \<Rightarrow> bytes \<Rightarrow> bool" and capture :: "'w \<Rightarrow> bool"
  assumes out_stored: "stored w log \<Longrightarrow> stored (os_stdout os s w) log"
    and out_capture [simp]: "capture (os_stdout os s w) = capture w"
    and append_stored: "stored w log \<Longrightarrow> d \<noteq> [] \<Longrightarrow> os_append_memory_db os d w = (r, w') \<Longrightarrow> 0 \<le> r \<Longrightarrow>
      stored w' (log @ d)"
    and append_capture: "os_append_memory_db os d w = (r, w') \<Longrightarrow> capture w' = capture w"
    and erase_stored: "stored w log \<Longrightarrow> os_erase_memory_db os w = (r, w') \<Longrightarrow> 0 \<le> r \<Longrightarrow> stored w' []"
    and erase_capture: "os_erase_memory_db os w = (r, w') \<Longrightarrow> capture w' = capture w"
    and read_stored: "stored w log \<Longrightarrow> n \<le> RAM_SHELL_HISTORY_CAP_BYTES \<Longrightarrow> os_read_memory_db os n w = ((r, b), w') \<Longrightarrow>
      stored w' log \<and> (0 \<le> r \<longrightarrow> b = take n log \<and> r = int (length b))"
    and read_len: "os_read_memory_db os n w = ((r, b), w') \<Longrightarrow> length b \<le> n"
    and read_capture: "os_read_memory_db os n w = (rb, w') \<Longrightarrow> capture w' = capture w"
    and set_capture: "os_set_console_log_capture os e w = (r, w') \<Longrightarrow> capture w' = (e \<noteq> 0)"
    and set_stored: "stored w log \<Longrightarrow> os_set_console_log_capture os e w = (r, w') \<Longrightarrow> stored w' log"
    and log_read: "os_read_console_log os offset out w = (r, out') \<Longrightarrow> r \<le> int (length out) \<and> length out' = length out"
    and decode_stored: "stored w log \<Longrightarrow> os_decode os mp ml p np nt nc out ab w = (x, w') \<Longrightarrow> stored w' log"
    and decode_capture: "os_decode os mp ml p np nt nc out ab w = (x, w') \<Longrightarrow> capture w' = capture w"
    and decode_len: "os_decode os mp ml p np nt nc out ab w = ((ret, out', ab'), w') \<Longrightarrow> length out' = length out"
    and ticks_stored: "stored w log \<Longrightarrow> os_get_timer_ticks os w = (t, w') \<Longrightarrow> stored w' log"
    and ticks_capture: "os_get_timer_ticks os w = (t, w') \<Longrightarrow> capture w' = capture w"
begin

section \<open>Helpers keep the machine's abstract state\<close>

lemma println_keeps [simp]: "capture (println os s w) = capture w"
  by (simp add: println_def)

lemma println_stored: "stored w log \<Longrightarrow> stored (println os s w) log"
  by (simp add: println_def out_stored)

lemma capture_toggle: "capture (bitapp_console_log_set_capture os e w) = e"
  "stored w log \<Longrightarrow> stored (bitapp_console_log_set_capture os e w) log"
  using set_capture [of "if e then 1 else 0" w] set_stored [of w log "if e then 1 else 0"]
  by (cases "os_set_console_log_capture os (if e then 1 else 0) w";
      auto simp: bitapp_console_log_set_capture_def split: if_splits)+

lemma write_bytes_keeps: "capture (bitapp_write_console_log_bytes os bs w) = capture w"
  "stored w log \<Longrightarrow> stored (bitapp_write_console_log_bytes os bs w) log"
  by (induction bs arbitrary: w) (simp_all add: out_stored)

text \<open>The viewer renders a page without panicking, whatever the log holds.\<close>

lemma render_ok:
  obtains offset' w' where "bitapp_render_console_log_page os offset w = Some (offset', w')"
    "capture w' = capture w" "\<forall>log. stored w log \<longrightarrow> stored w' log"
    "offset' = bitapp_console_log_clamp_offset offset (os_console_log_len os w)"
proof -
  let ?off = "bitapp_console_log_clamp_offset offset (os_console_log_len os w)"
  obtain n page where rd: "bitapp_read_console_log os ?off (replicate RAM_SHELL_LOG_PAGE_BYTES 0) w = (n, page)"
    by force
  have n: "n \<le> RAM_SHELL_LOG_PAGE_BYTES"
    using rd log_read [of ?off "replicate RAM_SHELL_LOG_PAGE_BYTES 0" w]
    by (auto simp: bitapp_read_console_log_def split: if_splits prod.splits)
  show thesis
  proof (cases "bitapp_render_console_log_page os offset w")
    case None
    then show ?thesis
      using rd n by (simp add: bitapp_render_console_log_page_def Let_def split: if_splits)
  next
    case (Some ow)
    show ?thesis
    proof (rule that)
      show "bitapp_render_console_log_page os offset w = Some (fst ow, snd ow)"
        using Some by simp
      show "capture (snd ow) = capture w" "fst ow = ?off"
        using Some rd by (auto simp: bitapp_render_console_log_page_def Let_def write_bytes_keeps split: if_splits)
      show "\<forall>log. stored w log \<longrightarrow> stored (snd ow) log"
        using Some rd
        by (auto simp: bitapp_render_console_log_page_def Let_def split: if_splits intro!: out_stored write_bytes_keeps(2))
    qed
  qed
qed

lemma log_command_ok:
  obtains stay offset' w' where "bitapp_run_console_log_command os command offset w = Some (stay, offset', w')"
    "capture w' = capture w" "\<forall>log. stored w log \<longrightarrow> stored w' log"
proof -
  define good where "good x \<longleftrightarrow> (\<exists>stay offset' w'. x = Some (stay, offset', w') \<and> capture w' = capture w \<and>
    (\<forall>log. stored w log \<longrightarrow> stored w' log))" for x :: "(bool \<times> nat \<times> 'w) option"
  have page: "good (map_option (\<lambda>(offset, w). (True, offset, w)) (bitapp_render_console_log_page os i w))" for i
  proof -
    obtain j w' where "bitapp_render_console_log_page os i w = Some (j, w')"
      "capture w' = capture w" "\<forall>log. stored w log \<longrightarrow> stored w' log"
      "j = bitapp_console_log_clamp_offset i (os_console_log_len os w)"
      by (rule render_ok [of i w])
    then show ?thesis by (auto simp: good_def)
  qed
  have shown: "good (Some (True, i, bitapp_write_console_log_help os w))" "good (Some (False, i, w))" for i
    by (auto simp: good_def bitapp_write_console_log_help_def out_stored)
  have choice: "good x \<Longrightarrow> good y \<Longrightarrow> good (if c then x else y)" for c x y
    by simp
  have "good (bitapp_run_console_log_command os command offset w)"
    unfolding bitapp_run_console_log_command_def Let_def
    by (intro choice page shown)
  then show thesis
    using that unfolding good_def by blast
qed

section \<open>The commands\<close>

lemma quiet_result:
  assumes "capture (sh_world st) \<longleftrightarrow> sh_mode st' \<noteq> Log" and "sh_history st' = sh_history st" and "sh_delta st' = sh_delta st"
    and "sh_line st' = sh_line st" and "sh_line_len st' = sh_line_len st" and "capture (sh_world st') = capture (sh_world st)"
    and "\<forall>log. stored (sh_world st) log \<longrightarrow> stored (sh_world st') log"
  shows "shell_result os stored capture st (Running st')"
  using assms by (auto simp: shell_result_def shell_trans_def intro: session_step.stay)

lemma put_out_simps [simp]:
  "sh_history (put_out os s st) = sh_history st" "sh_delta (put_out os s st) = sh_delta st"
  "sh_line (put_out os s st) = sh_line st" "sh_line_len (put_out os s st) = sh_line_len st"
  "sh_mode (put_out os s st) = sh_mode st" "capture (sh_world (put_out os s st)) = capture (sh_world st)"
  "stored (sh_world st) log \<Longrightarrow> stored (sh_world (put_out os s st)) log"
  by (simp_all add: put_out_def out_stored)

lemma clear_screen_keeps: "capture (sh_world (clear_screen os st)) = capture (sh_world st)"
  "stored (sh_world st) log \<Longrightarrow> stored (sh_world (clear_screen os st)) log"
proof -
  have "capture ((println os [] ^^ n) w) = capture w \<and> (stored w log \<longrightarrow> stored ((println os [] ^^ n) w) log)" for n w
    by (induction n) (simp_all add: println_stored)
  then show "capture (sh_world (clear_screen os st)) = capture (sh_world st)"
    "stored (sh_world st) log \<Longrightarrow> stored (sh_world (clear_screen os st)) log"
    by (simp_all add: clear_screen_def)
qed

lemma build_prompt:
  assumes "length p < RAM_SHELL_LINE_LEN"
  obtains buf where "build_raw_prompt (replicate (RAM_SHELL_LINE_LEN + 1) 0) p = (length p, buf)"
    "length buf = RAM_SHELL_LINE_LEN + 1"
  using that assms by (auto simp: build_raw_prompt_def length_overwrite)

lemma prompt_effect:
  assumes len: "length prompt < RAM_SHELL_LINE_LEN"
    and run: "bitapp_run_model_prompt os model h d prompt w = (x, h', d', w')"
  shows "capture w' = capture w \<and> (\<forall>log. stored w log \<longrightarrow> stored w' log) \<and>
    (\<forall>log. session_step (log, h, d) (log, h', d'))"
proof (cases "str_trim prompt = []")
  case True
  then show ?thesis
    using run by (auto simp: bitapp_run_model_prompt_def println_stored intro: session_step.stay)
next
  case False
  let ?p = "str_trim prompt"
  have plen: "length ?p < RAM_SHELL_LINE_LEN"
    using len length_str_trim [of prompt] by simp
  then obtain buf where buf: "build_raw_prompt (replicate (RAM_SHELL_LINE_LEN + 1) 0) ?p = (length ?p, buf)"
    "length buf = RAM_SHELL_LINE_LEN + 1"
    by (rule build_prompt)
  obtain ret out ab w1 where dec: "os_decode os (model_ptr model) (model_len model) buf BITNET_SHELL_N_PREDICT
      (bitapp_n_threads os) BITNET_SHELL_N_CTX (replicate BITNET_OUTPUT_BUF_LEN 0) False w = ((ret, out, ab), w1)"
    by (metis prod_cases3 surj_pair)
  note keep = decode_capture [OF dec] decode_stored [OF _ dec] decode_len [OF dec]
  define ans where "ans = ram_shell_answer_bytes (take (c_string_len out) out)"
  have ans: "length ans \<le> BITNET_OUTPUT_BUF_LEN"
    using length_answer [of "take (c_string_len out) out"] keep(3) by (simp add: ans_def)
  obtain h1 d1 where app: "append_to_history h d ?p ans = (h1, d1)" by force
  have guard: "\<not> (length ?p = 0 \<or> length buf \<le> length ?p)"
    using False plen buf(2) by simp
  have eq: "(x, h', d', w') =
    (if ab then ([], h, d, println os (ascii ''bitapp: RAM_SHELL prompt stopped by Ctrl-C'') w1)
     else if ret = 0 then
       let w = (if ans \<noteq> [] then os_stdout os ans w1 else w1);
           w = (if ans = [] \<or> last ans \<noteq> 10 then println os [] w else w)
       in (ans, h1, d1, w)
     else ([], h, d, w1))"
    using run [symmetric] False
    unfolding bitapp_run_model_prompt_def Let_def buf(1) prod.case if_not_P [OF guard] dec ans_def [symmetric] app
    by simp
  have "session_step (log, h, d) (log, h1, d1)" for log
    by (rule session_step.cmd [of "Ask ?p ans"])
      (use app plen ans in \<open>simp_all add: SESSION_CMD_MAX_def\<close>)
  then show ?thesis
    using eq keep(1,2) by (auto simp: Let_def println_stored out_stored session_step.stay split: if_splits)
qed

lemma run_prompt_result:
  assumes "length prompt < RAM_SHELL_LINE_LEN" and "capture (sh_world st)" and "m \<noteq> Log"
  shows "shell_result os stored capture st (Running ((run_prompt os model prompt st)\<lparr>sh_mode := m\<rparr>))"
proof -
  obtain x h' d' w' where run: "bitapp_run_model_prompt os model (sh_history st) (sh_delta st) prompt (sh_world st) = (x, h', d', w')"
    by (metis prod_cases4)
  show ?thesis
    using prompt_effect [OF assms(1) run] assms(2,3) run
    by (auto simp: shell_result_def shell_trans_def run_prompt_def)
qed

lemma forget_result:
  assumes "length phrase < RAM_SHELL_LINE_LEN" and "capture (sh_world st)" and "sh_mode st \<noteq> Log"
  shows "shell_result os stored capture st (Running (forget_command phrase st))"
proof -
  obtain n h' d' where f: "append_forget_to_history (sh_history st) (sh_delta st) phrase = (n, h', d')"
    by (metis prod_cases3)
  have "session_step (log, sh_history st, sh_delta st) (log, h', d')" for log
    by (rule session_step.cmd [of "Drop_phrase phrase"])
      (use f assms(1) in \<open>simp_all add: SESSION_CMD_MAX_def BITNET_OUTPUT_BUF_LEN_def\<close>)
  then show ?thesis
    using assms(2,3) f by (auto simp: shell_result_def shell_trans_def forget_command_def)
qed

lemma flush_effect:
  assumes "bitapp_flush_memory_db os (sh_delta st) (sh_world st) = (d', w')"
  shows "capture w' = capture (sh_world st)"
    and "d' = sh_delta st \<and> (append_failed os st \<or> d' = [] \<and> w' = sh_world st) \<or> d' = []"
    and "stored (sh_world st) log \<Longrightarrow> append_failed os st \<or> stored w' (log @ sh_delta st) \<and> d' = []"
proof -
  obtain r w1 where ap: "os_append_memory_db os (sh_delta st) (sh_world st) = (r, w1)" by force
  have f: "r < 0 \<Longrightarrow> append_failed os st"
    using ap by (auto simp: append_failed_def)
  show "capture w' = capture (sh_world st)"
    using assms ap append_capture [OF ap] by (auto simp: bitapp_flush_memory_db_def split: if_splits)
  show "d' = sh_delta st \<and> (append_failed os st \<or> d' = [] \<and> w' = sh_world st) \<or> d' = []"
    using assms ap f by (auto simp: bitapp_flush_memory_db_def split: if_splits)
  show "stored (sh_world st) log \<Longrightarrow> append_failed os st \<or> stored w' (log @ sh_delta st) \<and> d' = []"
    using assms ap f append_stored [OF _ _ ap, of log] by (auto simp: bitapp_flush_memory_db_def split: if_splits)
qed

lemma exit_result:
  assumes "capture (sh_world st)"
  shows "shell_result os stored capture st (Running (exit_command os st))"
proof -
  obtain d' w' where fl: "bitapp_flush_memory_db os (sh_delta st) (sh_world st) = (d', w')" by force
  have "session_step (log, sh_history st, sh_delta st) (log @ sh_delta st, sh_history st, [])"
    "session_step (log, sh_history st, sh_delta st) (log, sh_history st, sh_delta st)" for log
    by (rule session_step.flush session_step.stay)+
  then show ?thesis
    using flush_effect [OF fl] assms fl
    by (auto simp: shell_result_def shell_trans_def exit_command_def call_failed_def)
qed

lemma reboot_result: "shell_result os stored capture st (Rebooted (bitapp_reboot os (sh_delta st) (sh_world st)))"
  using flush_effect(3) [of st] by (auto simp: shell_result_def bitapp_reboot_def)
    (metis prod.collapse)

lemma erase_result:
  assumes "capture (sh_world st)" and "sh_mode st \<noteq> Log"
  shows "shell_result os stored capture st (Running (erase_command os st))"
proof -
  obtain r w1 where er: "os_erase_memory_db os (sh_world st) = (r, w1)" by force
  have f: "r < 0 \<Longrightarrow> call_failed os st"
    using er by (auto simp: call_failed_def)
  have "session_step (log, sh_history st, sh_delta st) ([], [], [])" for log
    by (rule session_step.erase)
  then show ?thesis
    using assms er f erase_capture [OF er] erase_stored [OF _ er]
    by (auto simp: shell_result_def shell_trans_def erase_command_def bitapp_erase_memory_db_def not_less)
qed

lemma reset_result:
  assumes "capture (sh_world st)" and "sh_mode st \<noteq> Log"
  shows "shell_result os stored capture st (Running (st\<lparr>sh_history := [], sh_delta := []\<rparr>))"
  using assms by (auto simp: shell_result_def shell_trans_def intro: session_step.reset)

lemma log_result: "shell_result os stored capture st (log_command os st)"
proof -
  let ?w = "bitapp_console_log_set_capture os False (sh_world st)"
  obtain i w' where r: "bitapp_render_console_log_page os (bitapp_console_log_bottom_offset os ?w) ?w = Some (i, w')"
    "capture w' = capture ?w" "\<forall>log. stored ?w log \<longrightarrow> stored w' log"
    "i = bitapp_console_log_clamp_offset (bitapp_console_log_bottom_offset os ?w) (os_console_log_len os ?w)"
    by (rule render_ok)
  then show ?thesis
    using capture_toggle [where e = False and w = "sh_world st"]
    by (auto simp: log_command_def Let_def shell_result_def shell_trans_def intro: session_step.stay)
qed

section \<open>Lines and keys\<close>

lemma command_line_result:
  assumes "length command < RAM_SHELL_LINE_LEN" and cap: "capture (sh_world st)" and mode: "sh_mode st \<noteq> Log"
  shows "shell_result os stored capture st (command_line os model command st)"
proof -
  have len: "length (str_trim command) < RAM_SHELL_LINE_LEN"
    using assms(1) length_str_trim [of command] by simp
  have quiet: "shell_result os stored capture st (Running (put_out os s st))"
    "shell_result os stored capture st (Running (put_out os s1 (put_out os s2 (put_out os s3 st))))"
    "shell_result os stored capture st (Running (st\<lparr>sh_mode := Prompt\<rparr>))"
    "shell_result os stored capture st (Running st)"
    "shell_result os stored capture st (Running (clear_screen os st))" for s s1 s2 s3
    using cap mode clear_screen_keeps by (auto intro!: quiet_result simp: clear_screen_def)
  have f: "shell_result os stored capture st (Running (forget_command p st))"
    if "forget_phrase (str_trim command) = Some p" for p
    using forget_result [OF _ cap mode] length_forget_phrase [OF that] len by simp
  have p: "shell_result os stored capture st (Running ((run_prompt os model p st)\<lparr>sh_mode := Prompt\<rparr>))"
    if "str_strip_prefix (str_trim command) (ascii ''prompt '') = Some p" for p
    using run_prompt_result [OF _ cap] length_strip_prefix [OF that] len by simp
  show ?thesis
    unfolding command_line_def Let_def
    by (intro shell_result_if shell_result_option quiet f p reset_result [OF cap mode] erase_result [OF cap mode]
        exit_result [OF cap] log_result reboot_result)
qed

lemma prompt_line_result:
  assumes "length command < RAM_SHELL_LINE_LEN" and cap: "capture (sh_world st)" and mode: "sh_mode st \<noteq> Log"
  shows "shell_result os stored capture st (prompt_line os model command st)"
proof -
  have len: "length (str_trim command) < RAM_SHELL_LINE_LEN"
    using assms(1) length_str_trim [of command] by simp
  have quiet: "shell_result os stored capture st (Running (put_out os s st))"
    "shell_result os stored capture st (Running (clear_screen os st))" for s
    using cap mode clear_screen_keeps by (auto intro!: quiet_result simp: clear_screen_def)
  have f: "shell_result os stored capture st (Running (forget_command p st))"
    if "forget_phrase (str_trim command) = Some p" for p
    using forget_result [OF _ cap mode] length_forget_phrase [OF that] len by simp
  have "(run_prompt os model p st)\<lparr>sh_mode := sh_mode st\<rparr> = run_prompt os model p st" for p
    by (simp add: run_prompt_def split: prod.split)
  then have p: "shell_result os stored capture st (Running (run_prompt os model (str_trim command) st))"
    using run_prompt_result [OF len cap mode, of model] by simp
  show ?thesis
    unfolding prompt_line_def Let_def
    by (intro shell_result_if shell_result_option quiet f p erase_result [OF cap mode] exit_result [OF cap] reboot_result)
qed

lemma log_line_result:
  assumes "\<not> capture (sh_world st)" and "sh_mode st = Log"
  shows "shell_result os stored capture st (log_line os command st)"
proof -
  obtain stay i w' where c: "bitapp_run_console_log_command os command (sh_log_offset st) (sh_world st) = Some (stay, i, w')"
    "capture w' = capture (sh_world st)" "\<forall>log. stored (sh_world st) log \<longrightarrow> stored w' log"
    by (rule log_command_ok)
  then show ?thesis
    using assms capture_toggle [where e = True and w = w']
    by (auto simp: log_line_def Let_def shell_result_def shell_trans_def intro: session_step.stay)
qed

lemma enter_line_result:
  assumes inv: "shell_inv capture st"
  shows "case enter_line os model st of
      Running st' \<Rightarrow> shell_inv capture st' \<and> shell_trans os stored (put_out os [10] st) st'
    | Rebooted w \<Rightarrow> \<forall>log. stored (sh_world st) log \<longrightarrow> append_failed os (put_out os [10] st) \<or> stored w (log @ sh_delta st)
    | Panicked \<Rightarrow> False"
proof -
  let ?st = "put_out os [10] st"
  let ?c = "from_utf8_or_empty (take (sh_line_len st) (sh_line st))"
  define res where "res = (case sh_mode ?st of Command \<Rightarrow> command_line os model ?c ?st
    | Prompt \<Rightarrow> prompt_line os model ?c ?st | Log \<Rightarrow> log_line os ?c ?st)"
  have len: "length ?c < RAM_SHELL_LINE_LEN"
    using inv by (simp add: shell_inv_def from_utf8_or_empty_def RAM_SHELL_LINE_LEN_def)
  have "capture (sh_world ?st) \<longleftrightarrow> sh_mode ?st \<noteq> Log"
    using inv by (simp add: shell_inv_def)
  then have r: "shell_result os stored capture ?st res"
    using command_line_result [OF len, of ?st] prompt_line_result [OF len, of ?st] log_line_result [of ?st]
    by (cases "sh_mode ?st") (simp_all add: res_def)
  have eq: "enter_line os model st = (case res of
      Running st \<Rightarrow> Running (put_out os (mode_prompt (sh_mode st)) (st\<lparr>sh_line_len := 0\<rparr>))
    | Rebooted w \<Rightarrow> Rebooted w | Panicked \<Rightarrow> Panicked)"
    by (simp only: enter_line_def Let_def res_def put_out_simps)
  show ?thesis
  proof (cases res)
    case (Running st1)
    let ?st2 = "put_out os (mode_prompt (sh_mode st1)) (st1\<lparr>sh_line_len := 0\<rparr>)"
    have t: "shell_trans os stored ?st st1" "sh_line st1 = sh_line st" "capture (sh_world st1) \<longleftrightarrow> sh_mode st1 \<noteq> Log"
      using r Running by (simp_all add: shell_result_def)
    have st2: "stored (sh_world st1) log \<Longrightarrow> stored (sh_world ?st2) log" for log
      by (simp add: put_out_def out_stored)
    have t2: "shell_trans os stored ?st ?st2"
      using t(1) st2 unfolding shell_trans_def by (simp del: put_out_simps(7)) blast
    obtain log log' where "session_step (log, sh_history st, sh_delta st) (log', sh_history st1, sh_delta st1)"
      using t(1) by (auto simp: shell_trans_def)
    then have "session_bounded (sh_history st1) (sh_delta st1)" "keys_unique (sh_history st1)"
      using session_step_bounded session_step_keys inv by (auto simp: shell_inv_def)
    then have "shell_inv capture ?st2"
      using inv t(2,3) by (simp add: shell_inv_def RAM_SHELL_LINE_LEN_def)
    then show ?thesis
      using t2 by (simp add: eq Running)
  next
    case (Rebooted w)
    then show ?thesis
      using r out_stored [of "sh_world st" _ "[10]"] by (auto simp: eq shell_result_def put_out_def)
  next
    case Panicked
    then show ?thesis using r by (simp add: shell_result_def)
  qed
qed

lemma interrupt_line_inv:
  assumes "shell_inv capture st"
  shows "shell_inv capture (interrupt_line os st)"
    and "sh_history (interrupt_line os st) = sh_history st" "sh_delta (interrupt_line os st) = sh_delta st"
    and "stored (sh_world st) log \<Longrightarrow> stored (sh_world (interrupt_line os st)) log"
  using assms capture_toggle
  by (auto simp: shell_inv_def interrupt_line_def Let_def put_out_def out_stored RAM_SHELL_LINE_LEN_def)

lemma edit_line_inv:
  assumes "shell_inv capture st"
  shows "0 < sh_line_len st \<Longrightarrow> shell_inv capture (put_out os s (st\<lparr>sh_line_len := sh_line_len st - 1\<rparr>))"
    and "sh_line_len st + 1 < length (sh_line st) \<Longrightarrow> printable ch \<Longrightarrow> shell_inv capture
      (put_out os s (st\<lparr>sh_line := (sh_line st)[sh_line_len st := ch], sh_line_len := sh_line_len st + 1\<rparr>))"
proof -
  let ?n = "sh_line_len st" and ?l = "sh_line st"
  have "take (?n - 1) ?l = take (?n - 1) (take ?n ?l)"
    by (simp add: min_def)
  then have "list_all printable (take (?n - 1) ?l)"
    using assms by (metis in_set_takeD list_all_iff shell_inv_def)
  then show "0 < ?n \<Longrightarrow> shell_inv capture (put_out os s (st\<lparr>sh_line_len := ?n - 1\<rparr>))"
    using assms by (auto simp: shell_inv_def put_out_def)
  show "?n + 1 < length ?l \<Longrightarrow> printable ch \<Longrightarrow> shell_inv capture
      (put_out os s (st\<lparr>sh_line := ?l[?n := ch], sh_line_len := ?n + 1\<rparr>))"
    using assms by (simp add: shell_inv_def put_out_def take_Suc_conv_app_nth)
qed

lemma ram_shell_step_result:
  assumes inv: "shell_inv capture st"
  shows "case ram_shell_step os model ev st of
      Running st' \<Rightarrow> shell_inv capture st' \<and> (\<forall>log. stored (sh_world st) log \<longrightarrow> call_failed os (put_out os [10] st) \<or>
        (\<exists>log'. stored (sh_world st') log' \<and>
          session_step (log, sh_history st, sh_delta st) (log', sh_history st', sh_delta st')))
    | Rebooted w \<Rightarrow> \<forall>log. stored (sh_world st) log \<longrightarrow> append_failed os (put_out os [10] st) \<or> stored w (log @ sh_delta st)
    | Panicked \<Rightarrow> False" (is "?P (ram_shell_step os model ev st)")
proof -
  have same: "?P (Running st')" if "shell_inv capture st'" "sh_history st' = sh_history st" "sh_delta st' = sh_delta st"
    "\<And>log. stored (sh_world st) log \<Longrightarrow> stored (sh_world st') log" for st'
    using that by (auto intro: session_step.stay)
  have byte: "?P (ram_shell_byte os model ch st)" for ch
  proof (cases "ch = 13 \<or> ch = 10")
    case True
    then have "ram_shell_byte os model ch st = enter_line os model st"
      by (auto simp: ram_shell_byte_def)
    then show ?thesis
      using enter_line_result [OF inv, of model] out_stored [of "sh_world st" _ "[10]"]
      by (auto simp: shell_trans_def put_out_def split: outcome.splits)
  next
    case False
    have deleted: "?P (Running (put_out os s (st\<lparr>sh_line_len := sh_line_len st - 1\<rparr>)))" if "0 < sh_line_len st" for s
      by (rule same [OF edit_line_inv(1) [OF inv that]]) (simp_all add: put_out_def out_stored)
    have typed: "?P (Running (put_out os s (st\<lparr>sh_line := (sh_line st)[sh_line_len st := ch], sh_line_len := sh_line_len st + 1\<rparr>)))"
      if "sh_line_len st + 1 < length (sh_line st)" "0x20 \<le> ch \<and> ch \<le> 0x7e" for s
      by (rule same [OF edit_line_inv(2) [OF inv that(1)]]) (use that in \<open>simp_all add: printable_def put_out_def out_stored\<close>)
    have "ram_shell_byte os model ch st \<in> {Running (interrupt_line os st), Running st} \<or>
      (\<exists>s. 0 < sh_line_len st \<and> ram_shell_byte os model ch st = Running (put_out os s (st\<lparr>sh_line_len := sh_line_len st - 1\<rparr>))) \<or>
      (\<exists>s. sh_line_len st + 1 < length (sh_line st) \<and> (0x20 \<le> ch \<and> ch \<le> 0x7e) \<and> ram_shell_byte os model ch st =
        Running (put_out os s (st\<lparr>sh_line := (sh_line st)[sh_line_len st := ch], sh_line_len := sh_line_len st + 1\<rparr>)))"
      using False unfolding ram_shell_byte_def by (simp only: if_False) auto
    then show ?thesis
      using deleted typed same [OF inv] same [OF interrupt_line_inv [OF inv]] by (elim disjE exE conjE insertE emptyE) simp_all
  qed
  show ?thesis
    using byte same [OF inv] by (cases ev) (simp_all add: ram_shell_step_def)
qed

lemma ram_shell_run_result:
  "shell_inv capture st \<Longrightarrow> case ram_shell_run os model evs st of
     Running st' \<Rightarrow> shell_inv capture st' | Rebooted w \<Rightarrow> True | Panicked \<Rightarrow> False"
proof (induction evs arbitrary: st)
  case (Cons ev evs)
  show ?case
    using ram_shell_step_result [OF Cons.prems, of model ev] Cons.IH by (cases "ram_shell_step os model ev st") simp_all
qed simp

section \<open>Boot\<close>

lemma load_ok:
  assumes "bitapp_load_memory_db_history os [] w = (res, w')"
  shows "capture w' = capture w \<and> (\<forall>log. stored w log \<longrightarrow> stored w' log) \<and>
    (\<exists>h. res = Some h \<and> session_bounded h [] \<and> keys_unique h)"
proof -
  obtain r b w1 where rd: "os_read_memory_db os RAM_SHELL_HISTORY_CAP_BYTES w = ((r, b), w1)"
    by (metis prod.collapse)
  let ?bs = "take (min (nat r) (length b)) b"
  have "length ?bs \<le> usize_max"
    using read_len [OF rd] cap_small by simp
  then obtain h where h: "parse_structured_qa_records ?bs [] = Some h"
    using parse_structured_loop_total [of ?bs 0 "[]"] by (auto simp: parse_structured_qa_records_def)
  have nil: "session_bounded [] []" "keys_unique []"
    by (simp_all add: session_bounded_def keys_unique_def List.map_filter_simps)
  have "keys_unique (shrink_records h 0)"
    using keys_unique_structured [OF nil(2) h] keys_unique_suffix [OF shrink_records_suffix] by blast
  moreover have "session_bounded (shrink_records h 0) []"
    using shrink_records_bound [of h 0] by (auto simp: session_bounded_def)
  ultimately show ?thesis
    using assms rd h read_capture [OF rd] read_stored [OF _ order_refl rd] nil
    by (auto simp: bitapp_load_memory_db_history_def Let_def split: if_splits)
qed

lemma load_history:
  assumes "bitapp_load_memory_db_history os [] w = (res, w')" and "stored w log" and "log_image log ops"
    and "length log \<le> RAM_SHELL_HISTORY_CAP_BYTES"
  shows "res = Some (fold apply_op ops []) \<or> res = Some [] \<and> (\<exists>r b. r < 0 \<and> fst (os_read_memory_db os RAM_SHELL_HISTORY_CAP_BYTES w) = (r, b))"
proof -
  obtain r b w1 where rd: "os_read_memory_db os RAM_SHELL_HISTORY_CAP_BYTES w = ((r, b), w1)"
    by (metis prod.collapse)
  show ?thesis
  proof (cases "r < 0")
    case True
    then show ?thesis using assms(1) rd by (auto simp: bitapp_load_memory_db_history_def)
  next
    case False
    then have b: "b = log" "nat r = length log"
      using read_stored [OF assms(2) order_refl rd] assms(4) by auto
    have p: "parse_structured_qa_records log [] = Some (fold apply_op ops [])"
      using replay_image [OF assms(3)] assms(4) cap_small by simp
    have "shrink_records (fold apply_op ops []) 0 = fold apply_op ops []"
      using log_image_payload [OF assms(3), of "[]"] assms(4) by (intro shrink_records_id) simp
    moreover have "log = [] \<Longrightarrow> ops = []"
      using assms(3) by (cases rule: log_image.cases) auto
    ultimately show ?thesis
      using assms(1) rd False b p by (auto simp: bitapp_load_memory_db_history_def Let_def split: if_splits)
  qed
qed

lemma log_boot_keeps:
  "bitapp_log_boot_event os e w = (t, w') \<Longrightarrow> capture w' = capture w \<and> (\<forall>log. stored w log \<longrightarrow> stored w' log)"
  "bitapp_log_boot_delta os e s w = (t, w') \<Longrightarrow> capture w' = capture w \<and> (\<forall>log. stored w log \<longrightarrow> stored w' log)"
  by (auto simp: bitapp_log_boot_event_def bitapp_log_boot_delta_def println_stored ticks_capture ticks_stored
      split: prod.splits)

text \<open>
  Boot reaches the prompt.  \<open>good\<close> is any fact about the machine that output and the clock keep: it
  still holds when the history is loaded.
\<close>

lemma run_boot:
  assumes "capture w" and good: "\<And>s w. good w \<Longrightarrow> good (os_stdout os s w)"
    "\<And>w t w'. good w \<Longrightarrow> os_get_timer_ticks os w = (t, w') \<Longrightarrow> good w'"
  shows "\<exists>st w0 w1. run os model w = Some st \<and> shell_inv capture st \<and> sh_delta st = [] \<and>
    bitapp_load_memory_db_history os [] w0 = (Some (sh_history st), w1) \<and> (good w \<longrightarrow> good w0) \<and>
    (\<forall>log. stored w log \<longrightarrow> stored w0 log \<and> stored (sh_world st) log)"
proof -
  obtain t1 w1 where e1: "bitapp_log_boot_event os (ascii ''bitapp_main_start'') w = (t1, w1)" by force
  obtain t2 w2 where e2: "bitapp_log_boot_delta os (ascii ''model_handoff'') t1
      (println os (ascii ''bitapp: BitNet b1.58 Hermit linked app'') w1) = (t2, w2)" by force
  let ?w3 = "println os (ascii ''bitapp: kernel model pointer=0x'' @ hex_digits (unat (model_ptr model)) @
      ascii '', len='' @ fmt_nat (unat (model_len model))) w2"
  obtain res w3 where e3: "bitapp_load_memory_db_history os [] ?w3 = (res, w3)" by force
  obtain h where h: "res = Some h" "session_bounded h []" "keys_unique h"
    using load_ok [OF e3] by blast
  obtain t4 w4 where e4: "bitapp_log_boot_delta os (ascii ''runtime_warmup_start'') t2 w3 = (t4, w4)" by force
  obtain r5 w5 where e5: "bitapp_warm_bitnet_runtime os model w4 = (r5, w5)" by force
  obtain t6 w6 where e6: "bitapp_log_boot_delta os (ascii ''runtime_warmup_done'') t4 w5 = (t6, w6)" by force
  let ?w7 = "println os (ascii ''bitapp: runtime warmup returned '' @ fmt_int r5) w6"
  have ev: "good w \<Longrightarrow> bitapp_log_boot_event os e w = (t, w') \<Longrightarrow> good w'"
    "good w \<Longrightarrow> bitapp_log_boot_delta os e s w = (t, w') \<Longrightarrow> good w'" for e s t w w'
    by (auto simp: bitapp_log_boot_event_def bitapp_log_boot_delta_def println_def split: prod.splits
        intro: good(1) good(2))
  have g: "good w \<longrightarrow> good ?w3"
    using ev(1) [OF _ e1] ev(2) [OF _ e2] good(1) by (simp add: println_def)
  have w3: "\<forall>log. stored w log \<longrightarrow> stored ?w3 log"
    using log_boot_keeps(1) [OF e1] log_boot_keeps(2) [OF e2] by (auto simp: println_stored)
  have "capture w5 = capture w4 \<and> (\<forall>log. stored w4 log \<longrightarrow> stored w5 log)"
    using e5 by (auto simp: bitapp_warm_bitnet_runtime_def decode_capture decode_stored split: prod.splits)
  then have w7: "capture ?w7 = capture w" "\<forall>log. stored w log \<longrightarrow> stored ?w7 log"
    using log_boot_keeps(1) [OF e1] log_boot_keeps(2) [OF e2] load_ok [OF e3] log_boot_keeps(2) [OF e4]
      log_boot_keeps(2) [OF e6] by (auto simp: println_stored)
  let ?st = "bitapp_ram_shell os h ?w7"
  have "run os model w = Some ?st"
    by (simp add: run_def e1 e2 e3 h(1) e4 e5 e6 Let_def)
  moreover have "shell_inv capture ?st"
    using h(2,3) w7(1) assms(1) by (simp add: bitapp_ram_shell_def shell_inv_def RAM_SHELL_LINE_LEN_def put_out_def)
  moreover have "sh_delta ?st = []" "sh_history ?st = h" "\<forall>log. stored w log \<longrightarrow> stored (sh_world ?st) log"
    using w7(2) by (auto simp: bitapp_ram_shell_def put_out_def out_stored)
  ultimately show ?thesis
    using g w3 e3 h(1) by (intro exI [of _ ?st] exI [of _ ?w3] exI [of _ w3]) simp
qed

lemma run_ok:
  assumes "capture w"
  shows "\<exists>st. run os model w = Some st \<and> shell_inv capture st \<and> (\<forall>log. stored w log \<longrightarrow> stored (sh_world st) log)"
  using run_boot [of w "\<lambda>_. True" model] assms by blast

lemma run_history:
  assumes "capture w" and "stored w log" and "log_image log ops" and "length log \<le> RAM_SHELL_HISTORY_CAP_BYTES"
    and "good w" and "\<And>s w. good w \<Longrightarrow> good (os_stdout os s w)"
    "\<And>w t w'. good w \<Longrightarrow> os_get_timer_ticks os w = (t, w') \<Longrightarrow> good w'"
    and live: "\<And>w. good w \<Longrightarrow> 0 \<le> fst (fst (os_read_memory_db os RAM_SHELL_HISTORY_CAP_BYTES w))"
  shows "\<exists>st. run os model w = Some st \<and> shell_inv capture st \<and> sh_history st = fold apply_op ops [] \<and>
    sh_delta st = [] \<and> stored (sh_world st) log"
proof -
  obtain st w0 w1 where st: "run os model w = Some st" "shell_inv capture st" "sh_delta st = []"
    "bitapp_load_memory_db_history os [] w0 = (Some (sh_history st), w1)" "good w0" "stored w0 log" "stored (sh_world st) log"
    using run_boot [of w good model] assms(1,2,5-7) by blast
  have "sh_history st = fold apply_op ops []"
    using load_history [OF st(4,6) assms(3,4)] live [OF st(5)] by auto
  then show ?thesis using st by blast
qed

end

end
