(* ===== verification/ConsoleLog.thy ===== *)
theory ConsoleLog
  imports Prelude
begin

text \<open>
  The captured console log of \<open>kernel/src/console_log.rs\<close>: a ring buffer of fixed capacity that
  keeps the newest bytes, its reader, and the system calls of \<open>kernel/src/syscalls/mod.rs\<close> that
  the application's log viewer uses.  The specification is a plain byte list; every operation is
  shown to refine it.
\<close>

section \<open>The ring buffer\<close>

definition CONSOLE_LOG_CAPACITY :: nat where
  "CONSOLE_LOG_CAPACITY = 256 * 1024"

record console_log =
  cl_buffer :: bytes
  cl_start :: nat
  cl_len :: nat
  cl_capture_enabled :: bool

definition console_log_new :: console_log where
  "console_log_new =
     \<lparr>cl_buffer = replicate CONSOLE_LOG_CAPACITY 0, cl_start = 0, cl_len = 0,
      cl_capture_enabled = True\<rparr>"

definition console_log_append :: "console_log \<Rightarrow> bytes \<Rightarrow> console_log" where
  "console_log_append self bs =
     (if \<not> cl_capture_enabled self \<or> bs = [] then self
      else if CONSOLE_LOG_CAPACITY \<le> length bs then
        self\<lparr>cl_buffer := drop (length bs - CONSOLE_LOG_CAPACITY) bs, cl_start := 0,
             cl_len := CONSOLE_LOG_CAPACITY\<rparr>
      else
        let free = CONSOLE_LOG_CAPACITY - cl_len self;
            self = (if free < length bs then
                      let drop_len = length bs - free
                      in self\<lparr>cl_start := (cl_start self + drop_len) mod CONSOLE_LOG_CAPACITY,
                              cl_len := cl_len self - drop_len\<rparr>
                    else self);
            write_start = (cl_start self + cl_len self) mod CONSOLE_LOG_CAPACITY;
            first_len = min (CONSOLE_LOG_CAPACITY - write_start) (length bs);
            second_len = length bs - first_len;
            buffer = overwrite (cl_buffer self) write_start (take first_len bs);
            buffer = (if 0 < second_len then overwrite buffer 0 (drop first_len bs) else buffer)
        in self\<lparr>cl_buffer := buffer, cl_len := cl_len self + length bs\<rparr>)"

definition console_log_read :: "console_log \<Rightarrow> nat \<Rightarrow> bytes \<Rightarrow> nat \<times> bytes" where
  "console_log_read self offset out =
     (if cl_len self \<le> offset \<or> out = [] then (0, out)
      else
        let read_len = min (cl_len self - offset) (length out);
            read_start = (cl_start self + offset) mod CONSOLE_LOG_CAPACITY;
            first_len = min (CONSOLE_LOG_CAPACITY - read_start) read_len;
            second_len = read_len - first_len;
            out = overwrite out 0 (subslice (cl_buffer self) read_start (read_start + first_len));
            out = (if 0 < second_len
                      then overwrite out first_len (subslice (cl_buffer self) 0 second_len)
                      else out)
        in (read_len, out))"

definition console_log_set_capture_enabled :: "console_log \<Rightarrow> bool \<Rightarrow> console_log" where
  "console_log_set_capture_enabled self enabled = self\<lparr>cl_capture_enabled := enabled\<rparr>"

section \<open>Abstraction and invariant\<close>

definition console_log_wf :: "console_log \<Rightarrow> bool" where
  "console_log_wf self \<longleftrightarrow>
     length (cl_buffer self) = CONSOLE_LOG_CAPACITY \<and> cl_start self < CONSOLE_LOG_CAPACITY \<and>
     cl_len self \<le> CONSOLE_LOG_CAPACITY"

definition ring_view :: "nat \<Rightarrow> 'a list \<Rightarrow> nat \<Rightarrow> nat \<Rightarrow> 'a list" where
  "ring_view cap buf start n = map (\<lambda>i. buf ! ((start + i) mod cap)) [0..<n]"

definition console_log_view :: "console_log \<Rightarrow> bytes" where
  "console_log_view self =
     ring_view CONSOLE_LOG_CAPACITY (cl_buffer self) (cl_start self) (cl_len self)"

text \<open>The newest \<open>n\<close> elements of a list.\<close>

definition newest :: "nat \<Rightarrow> 'a list \<Rightarrow> 'a list" where
  "newest n xs = drop (length xs - n) xs"

lemma capacity_pos [simp]: "0 < CONSOLE_LOG_CAPACITY"
  by (simp add: CONSOLE_LOG_CAPACITY_def)

lemma length_ring_view [simp]: "length (ring_view cap buf start n) = n"
  by (simp add: ring_view_def)

lemma nth_ring_view [simp]: "i < n \<Longrightarrow> ring_view cap buf start n ! i = buf ! ((start + i) mod cap)"
  by (simp add: ring_view_def)

lemma ring_view_from_0: "length buf = cap \<Longrightarrow> ring_view cap buf 0 cap = buf"
  by (auto intro: nth_equalityI)

lemma ring_view_drop:
  "k \<le> n \<Longrightarrow> ring_view cap buf ((start + k) mod cap) (n - k) = drop k (ring_view cap buf start n)"
  by (auto intro!: nth_equalityI simp: mod_add_left_eq add.assoc)

text \<open>Writing a block at a ring position, in at most two pieces.\<close>

definition ring_write :: "nat \<Rightarrow> 'a list \<Rightarrow> nat \<Rightarrow> 'a list \<Rightarrow> 'a list" where
  "ring_write cap buf ws bs =
     (let first_len = min (cap - ws) (length bs)
      in overwrite (overwrite buf ws (take first_len bs)) 0 (drop first_len bs))"

lemma length_ring_write [simp]:
  assumes "length buf = cap" and "ws < cap" and "length bs \<le> cap"
  shows "length (ring_write cap buf ws bs) = cap"
  using assms by (simp add: ring_write_def Let_def length_overwrite)

lemma nth_ring_write:
  assumes "length buf = cap" and "ws < cap" and "length bs \<le> cap" and "k < cap"
  shows "ring_write cap buf ws bs ! ((ws + k) mod cap) =
           (if k < length bs then bs ! k else buf ! ((ws + k) mod cap))"
proof (cases "ws + k < cap")
  case True
  with assms show ?thesis
    by (auto simp: ring_write_def Let_def nth_overwrite length_overwrite)
next
  case False
  with assms(2,4) have "(ws + k) mod cap = ws + k - cap"
    by (simp add: mod_if)
  with False assms show ?thesis
    by (auto simp: ring_write_def Let_def nth_overwrite length_overwrite)
qed

lemma ring_view_write:
  assumes buf: "length buf = cap" and s: "start < cap" and fit: "n + length bs \<le> cap"
  shows "ring_view cap (ring_write cap buf ((start + n) mod cap) bs) start (n + length bs) =
           ring_view cap buf start n @ bs"
proof (rule nth_equalityI)
  let ?ws = "(start + n) mod cap"
  have ws: "?ws < cap" and len: "length bs \<le> cap" using s fit by auto
  fix i
  assume "i < length (ring_view cap (ring_write cap buf ?ws bs) start (n + length bs))"
  then have i: "i < n + length bs" by simp
  define k where "k = (if i < n then cap - n + i else i - n)"
  have k: "k < cap" using i fit s by (auto simp: k_def)
  have pos: "(?ws + k) mod cap = (start + i) mod cap"
  proof (cases "i < n")
    case True
    then have "start + n + k = start + i + cap" using fit by (simp add: k_def)
    then show ?thesis by (metis mod_add_left_eq mod_add_self2)
  next
    case False
    then have "start + n + k = start + i" by (simp add: k_def)
    then show ?thesis by (metis mod_add_left_eq)
  qed
  have "ring_write cap buf ?ws bs ! ((start + i) mod cap) =
          (if k < length bs then bs ! k else buf ! ((start + i) mod cap))"
    using nth_ring_write [OF buf ws len k] by (simp only: pos)
  moreover have "k < length bs \<longleftrightarrow> \<not> i < n" using i fit by (auto simp: k_def)
  ultimately show "ring_view cap (ring_write cap buf ?ws bs) start (n + length bs) ! i =
      (ring_view cap buf start n @ bs) ! i"
    using i by (simp add: nth_append k_def)
qed simp

lemma overwrite_rest:
  "(if 0 < length bs - n then overwrite buf 0 (drop n bs) else buf) = overwrite buf 0 (drop n bs)"
  by simp

lemma console_log_append_ring:
  assumes "cl_capture_enabled self" and "bs \<noteq> []" and "length bs < CONSOLE_LOG_CAPACITY"
    and "d = length bs - (CONSOLE_LOG_CAPACITY - cl_len self)"
    and "console_log_wf self"
  shows "console_log_append self bs =
    self\<lparr>cl_start := (cl_start self + d) mod CONSOLE_LOG_CAPACITY,
         cl_len := cl_len self - d + length bs,
         cl_buffer := ring_write CONSOLE_LOG_CAPACITY (cl_buffer self)
           ((cl_start self + d + (cl_len self - d)) mod CONSOLE_LOG_CAPACITY) bs\<rparr>"
proof -
  have enabled: "\<not> (\<not> cl_capture_enabled self \<or> bs = [])" "\<not> CONSOLE_LOG_CAPACITY \<le> length bs"
    using assms(1-3) by simp_all
  show ?thesis
  proof (cases "CONSOLE_LOG_CAPACITY - cl_len self < length bs")
    case True
    show ?thesis
      unfolding console_log_append_def ring_write_def Let_def overwrite_rest assms(4) [symmetric]
        if_not_P [OF enabled(1)] if_not_P [OF enabled(2)] if_P [OF True]
      by (cases self) (simp only: console_log.simps mod_add_left_eq)
  next
    case False
    then have "d = 0" using assms(4) by simp
    with assms(5) have "(cl_start self + d) mod CONSOLE_LOG_CAPACITY = cl_start self"
      by (simp add: console_log_wf_def)
    with \<open>d = 0\<close> show ?thesis
      unfolding console_log_append_def ring_write_def Let_def overwrite_rest
        if_not_P [OF enabled(1)] if_not_P [OF enabled(2)] if_not_P [OF False]
      by (cases self) (simp only: console_log.simps add_0_right diff_zero)
  qed
qed

section \<open>Refinement of the byte list\<close>

lemma console_log_new_wf: "console_log_wf console_log_new"
  by (simp add: console_log_new_def console_log_wf_def)

lemma console_log_new_view: "console_log_view console_log_new = []"
  by (simp add: console_log_view_def console_log_new_def ring_view_def)

lemma console_log_new_capture: "cl_capture_enabled console_log_new"
  by (simp add: console_log_new_def)

lemma newest_small: "length xs \<le> 4 \<Longrightarrow> newest CONSOLE_LOG_CAPACITY xs = xs"
  by (simp add: newest_def CONSOLE_LOG_CAPACITY_def)

lemma console_log_append_skip:
  "\<not> cl_capture_enabled self \<or> bs = [] \<Longrightarrow> console_log_append self bs = self"
  by (simp add: console_log_append_def)

lemma console_log_append_large:
  "cl_capture_enabled self \<Longrightarrow> bs \<noteq> [] \<Longrightarrow> CONSOLE_LOG_CAPACITY \<le> length bs \<Longrightarrow>
   console_log_append self bs =
     self\<lparr>cl_buffer := newest CONSOLE_LOG_CAPACITY bs, cl_start := 0,
          cl_len := CONSOLE_LOG_CAPACITY\<rparr>"
  by (simp add: console_log_append_def newest_def)

lemma console_log_append_wf: "console_log_wf self \<Longrightarrow> console_log_wf (console_log_append self bs)"
proof (cases "cl_capture_enabled self \<and> bs \<noteq> [] \<and> length bs < CONSOLE_LOG_CAPACITY")
  case True
  assume wf: "console_log_wf self"
  define d where "d = length bs - (CONSOLE_LOG_CAPACITY - cl_len self)"
  have "cl_len self - d + length bs \<le> CONSOLE_LOG_CAPACITY"
    using wf True by (auto simp: console_log_wf_def d_def)
  with True wf show ?thesis
    by (simp add: console_log_append_ring [OF _ _ _ d_def wf] console_log_wf_def)
next
  case False
  assume "console_log_wf self"
  with False show ?thesis
    by (cases "\<not> cl_capture_enabled self \<or> bs = []")
      (simp_all add: console_log_append_skip console_log_append_large console_log_wf_def newest_def)
qed

lemma console_log_append_view:
  assumes "console_log_wf self"
  shows "console_log_view (console_log_append self bs) =
      (if cl_capture_enabled self
       then newest CONSOLE_LOG_CAPACITY (console_log_view self @ bs)
       else console_log_view self)"
proof -
  let ?C = CONSOLE_LOG_CAPACITY
  have view: "console_log_view (console_log_append self bs) = newest ?C (console_log_view self @ bs)"
    if en: "cl_capture_enabled self" and ne: "bs \<noteq> []" and short: "length bs < ?C"
  proof -
    define d where "d = length bs - (?C - cl_len self)"
    have d: "d \<le> cl_len self" and fit: "cl_len self - d + length bs \<le> ?C"
      using assms short by (auto simp: d_def console_log_wf_def)
    have "console_log_view (console_log_append self bs) =
        ring_view ?C (cl_buffer self) ((cl_start self + d) mod ?C) (cl_len self - d) @ bs"
      using assms ring_view_write [OF _ _ fit, of "cl_buffer self" "(cl_start self + d) mod ?C"]
      by (simp add: console_log_append_ring [OF en ne short d_def assms] console_log_view_def
          console_log_wf_def mod_add_left_eq)
    also have "\<dots> = drop d (console_log_view self) @ bs"
      using d by (simp add: ring_view_drop console_log_view_def)
    finally show ?thesis
      using assms d short by (simp add: newest_def d_def console_log_view_def console_log_wf_def add.commute)
  qed
  have "console_log_view (console_log_append self bs) = newest ?C (console_log_view self @ bs)"
    if "cl_capture_enabled self"
  proof (cases "bs = [] \<or> length bs < ?C")
    case True
    with that view assms show ?thesis
      by (cases "bs = []")
        (simp_all add: console_log_append_skip newest_def console_log_view_def console_log_wf_def)
  next
    case False
    then have "cl_len self \<le> cl_len self + length bs - ?C" by linarith
    with False that assms show ?thesis
      by (simp add: console_log_append_large newest_def console_log_view_def ring_view_from_0
          not_less)
  qed
  then show ?thesis
    by (simp add: console_log_append_skip)
qed

text \<open>
  C13. Appending to the console log refines appending to a byte list and keeping the newest
  \<open>CONSOLE_LOG_CAPACITY\<close> bytes; with capture switched off nothing is recorded.  The ring stays
  well formed, so none of the subslice operations of the source can panic.
\<close>

theorem console_log_append_refines:
  assumes "console_log_wf self"
  shows "console_log_wf (console_log_append self bs) \<and>
    console_log_view (console_log_append self bs) =
      (if cl_capture_enabled self
       then newest CONSOLE_LOG_CAPACITY (console_log_view self @ bs)
       else console_log_view self)"
  using console_log_append_wf [OF assms] console_log_append_view [OF assms] by blast

theorem console_log_append_refines_witness:
  "console_log_view (console_log_append console_log_new (ascii ''boot'')) = ascii ''boot''"
  using console_log_append_refines [OF console_log_new_wf, of "ascii ''boot''"]
  by (simp add: console_log_new_view console_log_new_capture newest_small)

section \<open>Reading\<close>

lemma ring_view_pieces:
  assumes "length buf = cap" and "rs < cap" and "n \<le> cap"
  shows "subslice buf rs (rs + min (cap - rs) n) @ subslice buf 0 (n - min (cap - rs) n) =
           ring_view cap buf rs n"
proof (rule nth_equalityI)
  show "length (subslice buf rs (rs + min (cap - rs) n) @ subslice buf 0 (n - min (cap - rs) n)) =
      length (ring_view cap buf rs n)"
    using assms by simp
  fix i
  assume "i < length (subslice buf rs (rs + min (cap - rs) n) @ subslice buf 0 (n - min (cap - rs) n))"
  then have i: "i < n" using assms by simp
  show "(subslice buf rs (rs + min (cap - rs) n) @ subslice buf 0 (n - min (cap - rs) n)) ! i =
      ring_view cap buf rs n ! i"
  proof (cases "rs + i < cap")
    case True
    then have "i < cap - rs" by linarith
    with True i assms show ?thesis by (simp add: nth_append nth_subslice)
  next
    case False
    then have "(rs + i) mod cap = rs + i - cap" using i assms by (simp add: mod_if)
    moreover have "\<not> i < cap - rs" using False by linarith
    ultimately show ?thesis using False i assms by (simp add: nth_append nth_subslice add.commute)
  qed
qed

lemma overwrite_overwrite:
  assumes "length a + length b \<le> length out"
  shows "overwrite (overwrite out 0 a) (length a) b = overwrite out 0 (a @ b)"
  using assms by (simp add: overwrite_def add.commute)

lemma console_log_read_pieces:
  assumes "offset < cl_len self" and "out \<noteq> []" and "console_log_wf self"
    and n: "n = min (cl_len self - offset) (length out)"
  shows "console_log_read self offset out =
    (n, overwrite out 0 (ring_view CONSOLE_LOG_CAPACITY (cl_buffer self)
       ((cl_start self + offset) mod CONSOLE_LOG_CAPACITY) n))"
proof -
  let ?C = CONSOLE_LOG_CAPACITY and ?rs = "(cl_start self + offset) mod CONSOLE_LOG_CAPACITY"
  let ?f = "min (?C - ?rs) n"
  let ?a = "subslice (cl_buffer self) ?rs (?rs + ?f)" and ?b = "subslice (cl_buffer self) 0 (n - ?f)"
  have rs: "?rs < ?C" by simp
  have buf: "length (cl_buffer self) = ?C" and nC: "n \<le> ?C"
    using assms by (auto simp: console_log_wf_def)
  have len_a: "length ?a = ?f" and len_b: "length ?b = n - ?f"
    using buf rs nC by auto
  have fit: "length ?a + length ?b \<le> length out"
    unfolding len_a len_b using n by linarith
  have "\<not> (cl_len self \<le> offset \<or> out = [])" using assms(1,2) by simp
  then have "console_log_read self offset out =
      (n, if 0 < n - ?f then overwrite (overwrite out 0 ?a) ?f ?b else overwrite out 0 ?a)"
    unfolding console_log_read_def Let_def n [symmetric] by (simp only: if_False)
  also have "(if 0 < n - ?f then overwrite (overwrite out 0 ?a) ?f ?b
              else overwrite out 0 ?a) = overwrite (overwrite out 0 ?a) ?f ?b"
  proof (cases "0 < n - ?f")
    case False
    then have "?b = []" using len_b by (simp only: length_0_conv [symmetric])
    with False show ?thesis by (simp only: overwrite_Nil if_False)
  qed (simp only: if_True)
  also have "\<dots> = overwrite out 0 (?a @ ?b)"
    using overwrite_overwrite [OF fit] by (simp only: len_a)
  finally show ?thesis
    using ring_view_pieces [OF buf rs nC] by simp
qed

lemma take_drop_view:
  "ring_view CONSOLE_LOG_CAPACITY (cl_buffer self)
     ((cl_start self + offset) mod CONSOLE_LOG_CAPACITY) (min (cl_len self - offset) k) =
   take k (drop offset (console_log_view self))"
  by (rule nth_equalityI) (auto simp: console_log_view_def mod_add_left_eq add.assoc)

text \<open>
  C22. Reading the console log at an offset copies exactly the corresponding bytes of the
  specification list into the front of the caller's buffer, as many as are there or fit, and
  returns their number; the rest of the buffer is untouched.
\<close>

theorem console_log_read_refines:
  assumes "console_log_wf self"
  shows "console_log_read self offset out =
    (let got = take (length out) (drop offset (console_log_view self))
     in (length got, overwrite out 0 got))"
proof (cases "offset < cl_len self \<and> out \<noteq> []")
  case True
  then show ?thesis
    using console_log_read_pieces [OF _ _ assms refl, of offset "out"]
      take_drop_view [of self offset "length out"]
    by (simp add: Let_def console_log_view_def min.commute)
next
  case False
  then have "cl_len self \<le> offset \<or> out = []" by auto
  moreover from this have "take (length out) (drop offset (console_log_view self)) = []"
    by (auto simp: console_log_view_def)
  ultimately show ?thesis
    by (simp only: console_log_read_def Let_def list.size overwrite_Nil if_True)
qed

theorem console_log_read_refines_witness:
  "console_log_read (console_log_append console_log_new (ascii ''boot'')) 1 [0, 0] =
     (2, ascii ''oo'')"
proof -
  let ?log = "console_log_append console_log_new (ascii ''boot'')"
  have "console_log_wf ?log"
    by (rule console_log_append_wf [OF console_log_new_wf])
  from console_log_read_refines [OF this, of 1 "[0, 0]"]
  have "console_log_read ?log 1 [0, 0] =
      (let got = take 2 (drop 1 (console_log_view ?log)) in (length got, overwrite [0, 0] 0 got))"
    by (simp add: numeral_2_eq_2)
  also have "console_log_view ?log = ascii ''boot''"
    using console_log_append_view [OF console_log_new_wf, of "ascii ''boot''"]
    by (simp add: console_log_new_view console_log_new_capture newest_small)
  finally show ?thesis by (simp add: ascii_def overwrite_def Let_def)
qed

section \<open>System calls\<close>

text \<open>
  A null pointer is \<open>None\<close>; a result is the \<open>i32\<close> the call returns, with the caller's buffer
  after the call.
\<close>

definition sys_console_log_len :: "console_log \<Rightarrow> nat" where
  "sys_console_log_len self = cl_len self"

definition sys_read_console_log ::
  "console_log \<Rightarrow> nat \<Rightarrow> bytes option \<Rightarrow> nat \<Rightarrow> int \<times> bytes option" where
  "sys_read_console_log self offset buf buf_len =
     (if buf_len = 0 then (0, buf)
      else case buf of
        None \<Rightarrow> (- EINVAL, None)
      | Some out \<Rightarrow>
          let (read, out) = console_log_read self offset out
          in (i32_try_from_or_max read, Some out))"

definition sys_set_console_log_capture :: "console_log \<Rightarrow> int \<Rightarrow> int \<times> console_log" where
  "sys_set_console_log_capture self enabled =
     (0, console_log_set_capture_enabled self (enabled \<noteq> 0))"

end
