(* ===== verification/Ps2Keyboard.thy ===== *)
theory Ps2Keyboard
  imports ConsoleLog
begin

text \<open>
  The PS/2 keyboard driver of \<open>kernel/src/arch/x86_64/kernel/ps2_keyboard.rs\<close>: the key buffer, the
  scan code decoders for sets 1 and 2, the i8042 port protocol with its bounded waits, probing and
  polling.  The i8042 controller is a parameter: its status and data ports as functions on its state.
\<close>

section \<open>State\<close>

definition STATUS_OUTPUT_FULL :: u8 where "STATUS_OUTPUT_FULL = 1"
definition STATUS_INPUT_FULL :: u8 where "STATUS_INPUT_FULL = 2"
definition BUFFER_LEN :: nat where "BUFFER_LEN = 128"
definition WAIT_LIMIT :: nat where "WAIT_LIMIT = 100000"
definition POLL_LIMIT :: nat where "POLL_LIMIT = 32"

record ps2_keyboard =
  present :: bool
  left_shift :: bool
  right_shift :: bool
  ctrl :: bool
  caps_lock :: bool
  extended :: bool
  break_pending :: bool
  scan_set2 :: bool
  kb_buffer :: bytes
  kb_head :: nat
  kb_tail :: nat

definition ps2_keyboard_new :: ps2_keyboard where
  "ps2_keyboard_new =
     \<lparr>present = False, left_shift = False, right_shift = False, ctrl = False, caps_lock = False,
      extended = False, break_pending = False, scan_set2 = False,
      kb_buffer = replicate BUFFER_LEN 0, kb_head = 0, kb_tail = 0\<rparr>"

section \<open>The key buffer\<close>

definition kb_available :: "ps2_keyboard \<Rightarrow> bool" where
  "kb_available self \<longleftrightarrow> kb_head self \<noteq> kb_tail self"

definition kb_push :: "ps2_keyboard \<Rightarrow> u8 \<Rightarrow> ps2_keyboard" where
  "kb_push self b =
     (let nxt = (kb_head self + 1) mod BUFFER_LEN
      in if nxt \<noteq> kb_tail self
         then self\<lparr>kb_buffer := (kb_buffer self)[kb_head self := b], kb_head := nxt\<rparr> else self)"

definition kb_pop :: "ps2_keyboard \<Rightarrow> u8 option \<times> ps2_keyboard" where
  "kb_pop self =
     (if kb_head self = kb_tail self then (None, self)
      else (Some (kb_buffer self ! kb_tail self), self\<lparr>kb_tail := (kb_tail self + 1) mod BUFFER_LEN\<rparr>))"

section \<open>Key tables\<close>

text \<open>
  The right-hand sides of the two \<open>match code\<close> tables: a fixed byte, \<open>shifted(normal, shifted, shift)\<close> or
  \<open>letter(lower, shift, caps_lock)\<close>.
\<close>

datatype key = Plain u8 | Shifted u8 u8 | Letter u8

definition shifted :: "u8 \<Rightarrow> u8 \<Rightarrow> bool \<Rightarrow> u8" where
  "shifted normal sh active = (if active then sh else normal)"

definition letter :: "u8 \<Rightarrow> bool \<Rightarrow> bool \<Rightarrow> u8" where
  "letter lo shift caps = (if shift \<noteq> caps then lo - 32 else lo)"

fun key_byte :: "key \<Rightarrow> bool \<Rightarrow> bool \<Rightarrow> u8" where
  "key_byte (Plain b) shift caps = b"
| "key_byte (Shifted n s) shift caps = shifted n s shift"
| "key_byte (Letter l) shift caps = letter l shift caps"

definition set1_keys :: "(u8 \<times> key) list" where
  "set1_keys =
     [(0x01, Plain 27), (0x02, Shifted 49 33), (0x03, Shifted 50 64),
      (0x04, Shifted 51 35), (0x05, Shifted 52 36), (0x06, Shifted 53 37),
      (0x07, Shifted 54 94), (0x08, Shifted 55 38), (0x09, Shifted 56 42),
      (0x0a, Shifted 57 40), (0x0b, Shifted 48 41), (0x0c, Shifted 45 95),
      (0x0d, Shifted 61 43), (0x0e, Plain 8), (0x0f, Plain 9), (0x10, Letter 113),
      (0x11, Letter 119), (0x12, Letter 101), (0x13, Letter 114), (0x14, Letter 116),
      (0x15, Letter 121), (0x16, Letter 117), (0x17, Letter 105), (0x18, Letter 111),
      (0x19, Letter 112), (0x1a, Shifted 91 123), (0x1b, Shifted 93 125), (0x1c, Plain 10),
      (0x1e, Letter 97), (0x1f, Letter 115), (0x20, Letter 100), (0x21, Letter 102),
      (0x22, Letter 103), (0x23, Letter 104), (0x24, Letter 106), (0x25, Letter 107),
      (0x26, Letter 108), (0x27, Shifted 59 58), (0x28, Shifted 39 34),
      (0x29, Shifted 96 126), (0x2b, Shifted 92 124), (0x2c, Letter 122),
      (0x2d, Letter 120), (0x2e, Letter 99), (0x2f, Letter 118), (0x30, Letter 98),
      (0x31, Letter 110), (0x32, Letter 109), (0x33, Shifted 44 60), (0x34, Shifted 46 62),
      (0x35, Shifted 47 63), (0x39, Plain 32)]"

definition set2_keys :: "(u8 \<times> key) list" where
  "set2_keys =
     [(0x76, Plain 27), (0x16, Shifted 49 33), (0x1e, Shifted 50 64),
      (0x26, Shifted 51 35), (0x25, Shifted 52 36), (0x2e, Shifted 53 37),
      (0x36, Shifted 54 94), (0x3d, Shifted 55 38), (0x3e, Shifted 56 42),
      (0x46, Shifted 57 40), (0x45, Shifted 48 41), (0x4e, Shifted 45 95),
      (0x55, Shifted 61 43), (0x66, Plain 8), (0x0d, Plain 9), (0x15, Letter 113),
      (0x1d, Letter 119), (0x24, Letter 101), (0x2d, Letter 114), (0x2c, Letter 116),
      (0x35, Letter 121), (0x3c, Letter 117), (0x43, Letter 105), (0x44, Letter 111),
      (0x4d, Letter 112), (0x54, Shifted 91 123), (0x5b, Shifted 93 125), (0x5a, Plain 10),
      (0x1c, Letter 97), (0x1b, Letter 115), (0x23, Letter 100), (0x2b, Letter 102),
      (0x34, Letter 103), (0x33, Letter 104), (0x3b, Letter 106), (0x42, Letter 107),
      (0x4b, Letter 108), (0x4c, Shifted 59 58), (0x52, Shifted 39 34),
      (0x0e, Shifted 96 126), (0x5d, Shifted 92 124), (0x1a, Letter 122),
      (0x22, Letter 120), (0x21, Letter 99), (0x2a, Letter 118), (0x32, Letter 98),
      (0x31, Letter 110), (0x3a, Letter 109), (0x41, Shifted 44 60), (0x49, Shifted 46 62),
      (0x4a, Shifted 47 63), (0x29, Plain 32)]"

definition decode_set1 :: "u8 \<Rightarrow> bool \<Rightarrow> bool \<Rightarrow> bool \<Rightarrow> u8 option" where
  "decode_set1 code shift ctl caps =
     (if ctl \<and> code = 0x2e then Some 3
      else map_option (\<lambda>k. key_byte k shift caps) (map_of set1_keys code))"

definition decode_set2 :: "u8 \<Rightarrow> bool \<Rightarrow> bool \<Rightarrow> bool \<Rightarrow> u8 option" where
  "decode_set2 code shift ctl caps =
     (if ctl \<and> code = 0x21 then Some 3
      else map_option (\<lambda>k. key_byte k shift caps) (map_of set2_keys code))"

section \<open>Decoding scan codes\<close>

definition shift_active :: "ps2_keyboard \<Rightarrow> bool" where
  "shift_active self \<longleftrightarrow> left_shift self \<or> right_shift self"

definition clear_momentary_modifiers :: "ps2_keyboard \<Rightarrow> ps2_keyboard" where
  "clear_momentary_modifiers self = self\<lparr>left_shift := False, right_shift := False\<rparr>"

definition kb_decode_set2 :: "ps2_keyboard \<Rightarrow> u8 \<Rightarrow> u8 option \<times> ps2_keyboard" where
  "kb_decode_set2 self scancode =
     (let released = break_pending self; self = self\<lparr>break_pending := False\<rparr>
      in if extended self then
           let self = self\<lparr>extended := False\<rparr>
           in if scancode = 0x5a \<and> \<not> released then (Some 10, self)
              else if scancode = 0x12 then (None, self\<lparr>left_shift := \<not> released\<rparr>)
              else if scancode = 0x59 then (None, self\<lparr>right_shift := \<not> released\<rparr>)
              else if scancode = 0x14 then (None, self\<lparr>ctrl := \<not> released\<rparr>)
              else (None, self)
         else if scancode = 0x12 then (None, self\<lparr>left_shift := \<not> released\<rparr>)
         else if scancode = 0x59 then (None, self\<lparr>right_shift := \<not> released\<rparr>)
         else if scancode = 0x14 then (None, self\<lparr>ctrl := \<not> released\<rparr>)
         else if scancode = 0x58 \<and> \<not> released then
           (None, (clear_momentary_modifiers self)\<lparr>caps_lock := False\<rparr>)
         else if released then (None, self)
         else
           let byte = decode_set2 scancode (shift_active self) (ctrl self) (caps_lock self)
           in (byte, if byte \<noteq> None then clear_momentary_modifiers self else self))"

definition kb_decode :: "ps2_keyboard \<Rightarrow> u8 \<Rightarrow> u8 option \<times> ps2_keyboard" where
  "kb_decode self scancode =
     (if scancode = 0xfa \<or> scancode = 0xfe \<or> scancode = 0xaa \<or> scancode = 0xee then (None, self)
      else if scancode = 0xe0 then (None, self\<lparr>extended := True\<rparr>)
      else if scancode = 0xf0 then (None, self\<lparr>break_pending := True, scan_set2 := True\<rparr>)
      else if scan_set2 self then kb_decode_set2 self scancode
      else if extended self then
        let self = self\<lparr>extended := False\<rparr>
        in if scancode = 0x1c then (Some 10, self)
           else if scancode = 0xaa then (None, self\<lparr>left_shift := False\<rparr>)
           else if scancode = 0xb6 then (None, self\<lparr>right_shift := False\<rparr>)
           else (None, self)
      else
        let released = (scancode AND 0x80 \<noteq> 0); code = scancode AND 0x7f
        in if code = 0x2a then (None, self\<lparr>left_shift := \<not> released\<rparr>)
           else if code = 0x36 then (None, self\<lparr>right_shift := \<not> released\<rparr>)
           else if code = 0x1d then (None, self\<lparr>ctrl := \<not> released\<rparr>)
           else if code = 0x3a \<and> \<not> released then
             (None, (clear_momentary_modifiers self)\<lparr>caps_lock := False\<rparr>)
           else if released then (None, self)
           else
             let byte = decode_set1 code (shift_active self) (ctrl self) (caps_lock self)
             in (byte, if byte \<noteq> None then clear_momentary_modifiers self else self))"

section \<open>The i8042 ports\<close>

record 'k i8042 =
  port_status :: "'k \<Rightarrow> u8 \<times> 'k"
  port_data :: "'k \<Rightarrow> u8 \<times> 'k"
  port_write_command :: "u8 \<Rightarrow> 'k \<Rightarrow> 'k"
  port_write_data :: "u8 \<Rightarrow> 'k \<Rightarrow> 'k"

fun wait_status :: "'k i8042 \<Rightarrow> (u8 \<Rightarrow> bool) \<Rightarrow> nat \<Rightarrow> 'k \<Rightarrow> bool \<times> 'k" where
  "wait_status hw fin 0 k = (False, k)"
| "wait_status hw fin (Suc n) k =
     (case port_status hw k of (st, k) \<Rightarrow> if fin st then (True, k) else wait_status hw fin n k)"

definition wait_input_clear :: "'k i8042 \<Rightarrow> 'k \<Rightarrow> bool \<times> 'k" where
  "wait_input_clear hw k = wait_status hw (\<lambda>s. s AND STATUS_INPUT_FULL = 0) WAIT_LIMIT k"

definition wait_output_full :: "'k i8042 \<Rightarrow> 'k \<Rightarrow> bool \<times> 'k" where
  "wait_output_full hw k = wait_status hw (\<lambda>s. s AND STATUS_OUTPUT_FULL \<noteq> 0) WAIT_LIMIT k"

definition write_command :: "'k i8042 \<Rightarrow> u8 \<Rightarrow> 'k \<Rightarrow> bool \<times> 'k" where
  "write_command hw cmd k =
     (case wait_input_clear hw k of (ok, k) \<Rightarrow> if \<not> ok then (False, k) else (True, port_write_command hw cmd k))"

definition write_data :: "'k i8042 \<Rightarrow> u8 \<Rightarrow> 'k \<Rightarrow> bool \<times> 'k" where
  "write_data hw b k =
     (case wait_input_clear hw k of (ok, k) \<Rightarrow> if \<not> ok then (False, k) else (True, port_write_data hw b k))"

definition read_response :: "'k i8042 \<Rightarrow> 'k \<Rightarrow> u8 option \<times> 'k" where
  "read_response hw k =
     (case wait_output_full hw k of
        (ok, k) \<Rightarrow> if ok then (case port_data hw k of (b, k) \<Rightarrow> (Some b, k)) else (None, k))"

definition read_controller_config :: "'k i8042 \<Rightarrow> 'k \<Rightarrow> u8 option \<times> 'k" where
  "read_controller_config hw k =
     (case write_command hw 0x20 k of (ok, k) \<Rightarrow> if \<not> ok then (None, k) else read_response hw k)"

fun flush_output_loop :: "'k i8042 \<Rightarrow> nat \<Rightarrow> 'k \<Rightarrow> 'k" where
  "flush_output_loop hw 0 k = k"
| "flush_output_loop hw (Suc n) k =
     (case port_status hw k of
        (st, k) \<Rightarrow> if st AND STATUS_OUTPUT_FULL = 0 then k else flush_output_loop hw n (snd (port_data hw k)))"

definition flush_output :: "'k i8042 \<Rightarrow> 'k \<Rightarrow> 'k" where
  "flush_output hw k = flush_output_loop hw POLL_LIMIT k"

definition set_keyboard_scan_code_set1 :: "'k i8042 \<Rightarrow> 'k \<Rightarrow> bool \<times> 'k" where
  "set_keyboard_scan_code_set1 hw k =
     (case write_data hw 0xf0 k of (ok, k) \<Rightarrow>
        if \<not> ok then (False, k)
        else (case read_response hw k of (r, k) \<Rightarrow>
          if r \<noteq> Some 0xfa then (False, k)
          else (case write_data hw 0x01 k of (ok, k) \<Rightarrow>
            if \<not> ok then (False, k)
            else (case read_response hw k of (r, k) \<Rightarrow> (r = Some 0xfa, k)))))"

section \<open>Probing, polling and reading\<close>

definition probe_and_enable :: "'k i8042 \<Rightarrow> bool \<Rightarrow> ps2_keyboard \<Rightarrow> 'k \<Rightarrow> ps2_keyboard \<times> 'k" where
  "probe_and_enable hw is_uhyve kb k =
     (if is_uhyve then (kb, k)
      else
        let k = snd (port_status hw k);
            k = flush_output hw k;
            k = snd (read_controller_config hw k)
        in case write_command hw 0xae k of (ok, k) \<Rightarrow>
             if \<not> ok then (kb, k)
             else
               let k = snd (set_keyboard_scan_code_set1 hw k);
                   kb = kb\<lparr>scan_set2 := False, left_shift := False, right_shift := False, ctrl := False,
                           break_pending := False, extended := False\<rparr>
               in case write_data hw 0xf4 k of (enabled, k) \<Rightarrow>
                    case (if enabled then read_response hw k else (None, k)) of (response, k) \<Rightarrow>
                      (if response = Some 0xfa then kb\<lparr>present := True\<rparr> else kb, k))"

definition poll_byte :: "ps2_keyboard \<Rightarrow> u8 \<Rightarrow> ps2_keyboard" where
  "poll_byte kb scancode =
     (case kb_decode kb scancode of (Some b, kb) \<Rightarrow> kb_push kb b | (None, kb) \<Rightarrow> kb)"

fun poll_loop :: "'k i8042 \<Rightarrow> nat \<Rightarrow> ps2_keyboard \<Rightarrow> 'k \<Rightarrow> ps2_keyboard \<times> 'k" where
  "poll_loop hw 0 kb k = (kb, k)"
| "poll_loop hw (Suc n) kb k =
     (case port_status hw k of (st, k) \<Rightarrow>
        if st AND STATUS_OUTPUT_FULL = 0 then (kb, k)
        else (case port_data hw k of (scancode, k) \<Rightarrow> poll_loop hw n (poll_byte kb scancode) k))"

definition poll :: "'k i8042 \<Rightarrow> ps2_keyboard \<Rightarrow> 'k \<Rightarrow> ps2_keyboard \<times> 'k" where
  "poll hw kb k = (if \<not> present kb then (kb, k) else poll_loop hw POLL_LIMIT kb k)"

definition kb_read_ready :: "'k i8042 \<Rightarrow> ps2_keyboard \<Rightarrow> 'k \<Rightarrow> bool \<times> ps2_keyboard \<times> 'k" where
  "kb_read_ready hw kb k = (case poll hw kb k of (kb, k) \<Rightarrow> (kb_available kb, kb, k))"

definition polling_enabled :: "ps2_keyboard \<Rightarrow> bool" where
  "polling_enabled kb = present kb"

text \<open>The loop over the caller's buffer: one popped byte per slot until the queue is empty.\<close>

fun pop_many :: "nat \<Rightarrow> ps2_keyboard \<Rightarrow> bytes \<times> ps2_keyboard" where
  "pop_many 0 kb = ([], kb)"
| "pop_many (Suc n) kb =
     (case kb_pop kb of
        (None, kb) \<Rightarrow> ([], kb)
      | (Some b, kb) \<Rightarrow> (case pop_many n kb of (bs, kb) \<Rightarrow> (b # bs, kb)))"

definition kb_read :: "'k i8042 \<Rightarrow> nat \<Rightarrow> ps2_keyboard \<Rightarrow> 'k \<Rightarrow> bytes \<times> ps2_keyboard \<times> 'k" where
  "kb_read hw buf_len kb k =
     (case poll hw kb k of (kb, k) \<Rightarrow> (case pop_many buf_len kb of (bs, kb) \<Rightarrow> (bs, kb, k)))"

section \<open>The key buffer is a bounded queue\<close>

text \<open>
  A bounded first-in first-out queue: a push appends unless the queue is full, a pop takes the oldest.
\<close>

locale bounded_queue =
  fixes push :: "'q \<Rightarrow> 'a \<Rightarrow> 'q" and pop :: "'q \<Rightarrow> 'a option \<times> 'q"
    and contents :: "'q \<Rightarrow> 'a list" and wf :: "'q \<Rightarrow> bool" and bound :: nat
  assumes push_contents: "wf q \<Longrightarrow> contents (push q x) = (if length (contents q) < bound then contents q @ [x] else contents q)"
    and push_wf: "wf q \<Longrightarrow> wf (push q x)"
    and pop_contents: "wf q \<Longrightarrow> pop q = (y, q') \<Longrightarrow>
      wf q' \<and> (case contents q of [] \<Rightarrow> y = None \<and> q' = q | c # cs \<Rightarrow> y = Some c \<and> contents q' = cs)"
    and contents_bound: "wf q \<Longrightarrow> length (contents q) \<le> bound"
begin

lemma push_all: "wf q \<Longrightarrow> wf (foldl push q xs) \<and> contents (foldl push q xs) = take bound (contents q @ xs)"
proof (induction xs arbitrary: q)
  case Nil
  then show ?case using contents_bound by simp
next
  case (Cons x xs)
  then show ?case
    using push_contents [OF Cons.prems, of x] push_wf [OF Cons.prems, of x] contents_bound [OF Cons.prems]
    by (auto simp: take_Cons')
qed

end

definition kb_wf :: "ps2_keyboard \<Rightarrow> bool" where
  "kb_wf kb \<longleftrightarrow> length (kb_buffer kb) = BUFFER_LEN \<and> kb_head kb < BUFFER_LEN \<and> kb_tail kb < BUFFER_LEN"

definition kb_count :: "ps2_keyboard \<Rightarrow> nat" where
  "kb_count kb = (kb_head kb + BUFFER_LEN - kb_tail kb) mod BUFFER_LEN"

definition kb_contents :: "ps2_keyboard \<Rightarrow> bytes" where
  "kb_contents kb = ring_view BUFFER_LEN (kb_buffer kb) (kb_tail kb) (kb_count kb)"

lemma buffer_len: "BUFFER_LEN = 128"
  by (simp add: BUFFER_LEN_def)

lemma kb_count_less: "kb_count kb < BUFFER_LEN"
  by (simp add: kb_count_def buffer_len)

lemma kb_count_cases:
  "kb_head kb < 128 \<Longrightarrow> kb_tail kb < 128 \<Longrightarrow>
     kb_count kb = (if kb_tail kb \<le> kb_head kb then kb_head kb - kb_tail kb else kb_head kb + 128 - kb_tail kb)"
  unfolding kb_count_def buffer_len by (auto simp: mod_if)

lemma kb_count_head: "kb_wf kb \<Longrightarrow> (kb_tail kb + kb_count kb) mod BUFFER_LEN = kb_head kb"
  by (simp add: kb_count_def kb_wf_def buffer_len mod_add_right_eq)

lemma kb_push_contents:
  assumes wf: "kb_wf kb"
  shows "kb_contents (kb_push kb b) = (if length (kb_contents kb) < BUFFER_LEN - 1 then kb_contents kb @ [b] else kb_contents kb)"
    and "kb_wf (kb_push kb b)"
proof -
  let ?h = "kb_head kb" and ?t = "kb_tail kb" and ?n = "kb_count kb"
  have lt: "?h < 128" "?t < 128" "length (kb_buffer kb) = 128"
    using wf by (simp_all add: kb_wf_def buffer_len)
  have full: "(?h + 1) mod BUFFER_LEN = ?t \<longleftrightarrow> ?n = BUFFER_LEN - 1"
    using lt by (auto simp: kb_count_cases buffer_len mod_if)
  have count: "kb_count (kb\<lparr>kb_buffer := buf, kb_head := (?h + 1) mod BUFFER_LEN\<rparr>) = ?n + 1" if "?n < BUFFER_LEN - 1" for buf
    using lt that by (subst kb_count_cases) (auto simp: kb_count_cases buffer_len mod_if split: if_splits)
  have view: "ring_view BUFFER_LEN ((kb_buffer kb)[?h := b]) ?t (?n + 1) = kb_contents kb @ [b]" if "?n < BUFFER_LEN - 1"
  proof -
    have "(kb_buffer kb)[?h := b] = ring_write BUFFER_LEN (kb_buffer kb) ((?t + ?n) mod BUFFER_LEN) [b]"
      unfolding kb_count_head [OF wf]
      using lt by (simp add: ring_write_def Let_def overwrite_def buffer_len upd_conv_take_nth_drop)
    then show ?thesis
      using ring_view_write [of "kb_buffer kb" BUFFER_LEN ?t ?n "[b]"] lt that
      by (simp add: kb_contents_def buffer_len)
  qed
  show "kb_contents (kb_push kb b) = (if length (kb_contents kb) < BUFFER_LEN - 1 then kb_contents kb @ [b] else kb_contents kb)"
  proof (cases "?n < BUFFER_LEN - 1")
    case True
    then have "(?h + 1) mod BUFFER_LEN \<noteq> ?t" using full by simp
    then have "kb_contents (kb_push kb b) = ring_view BUFFER_LEN ((kb_buffer kb)[?h := b]) ?t (?n + 1)"
      using count [OF True] by (simp add: kb_push_def Let_def kb_contents_def)
    with True view show ?thesis by (simp add: kb_contents_def)
  next
    case False
    then have "(?h + 1) mod BUFFER_LEN = ?t" using full kb_count_less [of kb] by linarith
    with False show ?thesis by (simp add: kb_push_def Let_def kb_contents_def)
  qed
  show "kb_wf (kb_push kb b)"
    using wf by (simp add: kb_wf_def kb_push_def Let_def buffer_len)
qed

lemma kb_pop_contents:
  assumes wf: "kb_wf kb" and "kb_pop kb = (y, kb')"
  shows "kb_wf kb' \<and> (case kb_contents kb of [] \<Rightarrow> y = None \<and> kb' = kb | c # cs \<Rightarrow> y = Some c \<and> kb_contents kb' = cs)"
proof (cases "kb_head kb = kb_tail kb")
  case True
  then have "kb_contents kb = []"
    by (simp add: kb_contents_def kb_count_def ring_view_def)
  with True assms show ?thesis by (simp add: kb_pop_def)
next
  case False
  have lt: "kb_head kb < 128" "kb_tail kb < 128" using wf by (simp_all add: kb_wf_def buffer_len)
  have n: "0 < kb_count kb" using False lt by (simp add: kb_count_cases)
  have kb': "kb' = kb\<lparr>kb_tail := (kb_tail kb + 1) mod BUFFER_LEN\<rparr>" "y = Some (kb_buffer kb ! kb_tail kb)"
    using False assms(2) by (simp_all add: kb_pop_def)
  have "kb_count kb' = kb_count kb - 1"
    unfolding kb'(1) using lt n by (subst kb_count_cases) (auto simp: kb_count_cases buffer_len mod_if split: if_splits)
  then have "kb_contents kb' = drop 1 (kb_contents kb)"
    using ring_view_drop [of 1 "kb_count kb" BUFFER_LEN "kb_buffer kb" "kb_tail kb"] n by (simp add: kb_contents_def kb'(1))
  moreover have "kb_contents kb ! 0 = kb_buffer kb ! kb_tail kb" "kb_contents kb \<noteq> []"
    using n lt by (simp_all add: kb_contents_def buffer_len ring_view_def)
  moreover have "kb_wf kb'" using wf by (simp add: kb'(1) kb_wf_def buffer_len)
  ultimately show ?thesis
    using kb'(2) by (cases "kb_contents kb") simp_all
qed

interpretation kbq: bounded_queue kb_push kb_pop kb_contents kb_wf "BUFFER_LEN - 1"
proof
  show "kb_wf q \<Longrightarrow> length (kb_contents q) \<le> BUFFER_LEN - 1" for q
    using kb_count_less [of q] by (simp add: kb_contents_def)
qed (rule kb_push_contents kb_pop_contents; assumption)+

section \<open>Decoding does not depend on the buffer\<close>

lemma kb_decode_set2_buffer:
  "kb_decode_set2 (kb\<lparr>kb_buffer := buf, kb_head := h\<rparr>) c =
     (case kb_decode_set2 kb c of (b, kb) \<Rightarrow> (b, kb\<lparr>kb_buffer := buf, kb_head := h\<rparr>))"
  by (cases kb) (simp add: kb_decode_set2_def Let_def shift_active_def clear_momentary_modifiers_def)

lemma kb_decode_buffer:
  "kb_decode (kb\<lparr>kb_buffer := buf, kb_head := h\<rparr>) c =
     (case kb_decode kb c of (b, kb) \<Rightarrow> (b, kb\<lparr>kb_buffer := buf, kb_head := h\<rparr>))"
  unfolding kb_decode_def kb_decode_set2_buffer
  by (cases kb) (simp add: Let_def shift_active_def clear_momentary_modifiers_def)

lemma kb_decode_keeps:
  assumes "kb_decode kb c = (b, kb')"
  shows "kb_contents kb' = kb_contents kb \<and> kb_wf kb' = kb_wf kb \<and> present kb' = present kb"
proof -
  have "kb_buffer kb' = kb_buffer kb \<and> kb_head kb' = kb_head kb \<and> kb_tail kb' = kb_tail kb \<and> present kb' = present kb"
    using assms
    by (auto simp: kb_decode_def kb_decode_set2_def Let_def clear_momentary_modifiers_def split: if_splits)
  then show ?thesis by (simp add: kb_contents_def kb_wf_def kb_count_def)
qed

lemma kb_decode_caps: "kb_decode kb c = (b, kb') \<Longrightarrow> \<not> caps_lock kb \<Longrightarrow> \<not> caps_lock kb'"
  by (auto simp: kb_decode_def kb_decode_set2_def Let_def clear_momentary_modifiers_def split: if_splits)

section \<open>Polling refines decoding a list of scan codes\<close>

fun decode_all :: "ps2_keyboard \<Rightarrow> bytes \<Rightarrow> bytes" where
  "decode_all kb [] = []"
| "decode_all kb (c # cs) =
     (case kb_decode kb c of (Some b, kb) \<Rightarrow> b # decode_all kb cs | (None, kb) \<Rightarrow> decode_all kb cs)"

lemma decode_all_buffer: "decode_all (kb\<lparr>kb_buffer := buf, kb_head := h\<rparr>) cs = decode_all kb cs"
  by (induction cs arbitrary: kb) (simp_all add: kb_decode_buffer split: prod.split option.split)

lemma kb_push_same_modifiers: "\<exists>buf h. kb_push kb b = kb\<lparr>kb_buffer := buf, kb_head := h\<rparr>"
proof (cases "(kb_head kb + 1) mod BUFFER_LEN = kb_tail kb")
  case True
  then have "kb_push kb b = kb\<lparr>kb_buffer := kb_buffer kb, kb_head := kb_head kb\<rparr>"
    by (simp add: kb_push_def Let_def)
  then show ?thesis by blast
qed (auto simp: kb_push_def Let_def)

lemma decode_all_push: "decode_all (kb_push kb b) cs = decode_all kb cs" "present (kb_push kb b) = present kb"
  using kb_push_same_modifiers [of kb b] decode_all_buffer by auto

text \<open>
  The controller's output buffer as a list of pending scan codes: the status bit says whether one is
  there, reading the status keeps them, and reading the data port takes the first.
\<close>

definition scan_source :: "'k i8042 \<Rightarrow> ('k \<Rightarrow> bytes) \<Rightarrow> bool" where
  "scan_source hw pending \<longleftrightarrow>
     (\<forall>k st k'. port_status hw k = (st, k') \<longrightarrow>
        (st AND STATUS_OUTPUT_FULL \<noteq> 0 \<longleftrightarrow> pending k \<noteq> []) \<and> pending k' = pending k) \<and>
     (\<forall>k c k'. pending k \<noteq> [] \<longrightarrow> port_data hw k = (c, k') \<longrightarrow> pending k = c # pending k')"

lemma poll_byte_contents:
  assumes "kb_wf kb"
  shows "kb_wf (poll_byte kb c) \<and> present (poll_byte kb c) = present kb \<and>
    take (BUFFER_LEN - 1) (kb_contents (poll_byte kb c) @ decode_all (poll_byte kb c) cs) =
    take (BUFFER_LEN - 1) (kb_contents kb @ decode_all kb (c # cs))"
proof -
  obtain b kb' where d: "kb_decode kb c = (b, kb')" by force
  have kb': "kb_contents kb' = kb_contents kb" "kb_wf kb'" "present kb' = present kb"
    using kb_decode_keeps [OF d] assms by simp_all
  show ?thesis
  proof (cases b)
    case None
    then show ?thesis using d kb' by (simp add: poll_byte_def)
  next
    case (Some x)
    have "length (kb_contents kb') \<le> BUFFER_LEN - 1"
      using kbq.contents_bound [OF kb'(2)] .
    then show ?thesis
      using d kb' Some kbq.push_contents [OF kb'(2), of x] kbq.push_wf [OF kb'(2), of x]
      by (auto simp: poll_byte_def decode_all_push take_Cons')
  qed
qed

lemma poll_loop_refines:
  assumes src: "scan_source hw pending"
  shows "kb_wf kb \<Longrightarrow> poll_loop hw n kb k = (kb', k') \<Longrightarrow>
    kb_wf kb' \<and> pending k' = drop n (pending k) \<and>
    kb_contents kb' = take (BUFFER_LEN - 1) (kb_contents kb @ decode_all kb (take n (pending k)))"
proof (induction n arbitrary: kb k)
  case 0
  then show ?case
    using kbq.contents_bound [OF 0(1)] by simp
next
  case (Suc n)
  obtain st k1 where st: "port_status hw k = (st, k1)" by force
  have k1: "st AND STATUS_OUTPUT_FULL \<noteq> 0 \<longleftrightarrow> pending k \<noteq> []" "pending k1 = pending k"
    using src st by (auto simp: scan_source_def)
  show ?case
  proof (cases "pending k = []")
    case True
    then show ?thesis
      using Suc.prems st k1 kbq.contents_bound [OF Suc.prems(1)] by auto
  next
    case False
    obtain c k2 where c: "port_data hw k1 = (c, k2)" by force
    have p: "pending k = c # pending k2"
      using src c k1 False unfolding scan_source_def by metis
    have loop: "poll_loop hw n (poll_byte kb c) k2 = (kb', k')"
      using Suc.prems(2) st c k1(1) False by simp
    note pb = poll_byte_contents [OF Suc.prems(1), of c]
    show ?thesis
      using Suc.IH [OF _ loop] pb p by simp
  qed
qed

section \<open>Properties\<close>

text \<open>
  C14.  Polling refines a bounded queue of decoded keys: with the keyboard present, one poll decodes at
  most 32 pending scan codes in order, appends the resulting bytes to what was queued, keeps the
  oldest 127 bytes, and leaves the other scan codes in the controller.
\<close>

theorem ps2_poll_refines:
  assumes "scan_source hw pending" and "kb_wf kb" and "present kb" and "poll hw kb k = (kb', k')"
  shows "kb_wf kb' \<and> pending k' = drop 32 (pending k) \<and>
    kb_contents kb' = take 127 (kb_contents kb @ decode_all kb (take 32 (pending k)))"
  using poll_loop_refines [OF assms(1,2), of POLL_LIMIT k kb' k'] assms(3,4)
  by (simp add: poll_def POLL_LIMIT_def buffer_len)

definition list_i8042 :: "bytes i8042" where
  "list_i8042 = \<lparr>port_status = (\<lambda>k. (if k = [] then 0 else 1, k)), port_data = (\<lambda>k. (hd k, tl k)),
     port_write_command = (\<lambda>c k. k), port_write_data = (\<lambda>c k. k)\<rparr>"

lemma list_i8042_source: "scan_source list_i8042 (\<lambda>k. k)"
  by (auto simp: scan_source_def list_i8042_def STATUS_OUTPUT_FULL_def)

theorem ps2_poll_refines_witness:
  "kb_contents (fst (poll list_i8042 (ps2_keyboard_new\<lparr>present := True\<rparr>) [0x2a, 0x23, 0x17, 0x1c])) = [72, 105, 10]"
proof -
  let ?kb = "ps2_keyboard_new\<lparr>present := True\<rparr>" and ?k = "[0x2a, 0x23, 0x17, 0x1c] :: bytes"
  have "decode_all ?kb (take 32 ?k) = [72, 105, 10]"
    by code_simp
  moreover have "kb_contents ?kb = []" "kb_wf ?kb"
    by (simp_all add: kb_contents_def kb_count_def ring_view_def kb_wf_def ps2_keyboard_new_def buffer_len)
  ultimately show ?thesis
    using ps2_poll_refines [OF list_i8042_source, of ?kb ?k] by (cases "poll list_i8042 ?kb ?k") simp
qed

lemma scan_tables:
  "map snd set1_keys = map snd set2_keys" "distinct (map fst set1_keys)" "distinct (map fst set2_keys)"
  "map (\<lambda>e. fst e = 0x2e) set1_keys = map (\<lambda>e. fst e = 0x21) set2_keys" "length set1_keys = 52" "length set2_keys = 52"
  by code_simp+

lemma typed_ascii:
  "list_all (\<lambda>n. list_ex (\<lambda>e. key_byte (snd e) False False = word_of_nat n \<or> key_byte (snd e) True False = word_of_nat n) set1_keys)
     [32..<127]"
  by code_simp

lemma map_of_nth_key:
  "distinct (map fst ks) \<Longrightarrow> i < length ks \<Longrightarrow> map_of ks (fst (ks ! i)) = Some (snd (ks ! i))"
  by (metis map_of_is_SomeI nth_mem prod.collapse)



text \<open>
  C38.  Caps lock and the release of the left shift key do nothing.  From a keyboard whose caps lock
  flag is clear no scan code ever sets it.  The set 1 release code of the left shift key, 0xaa, is taken for the
  self-test result and leaves the state unchanged, so the shift stays down for the next character.
\<close>

theorem ps2_lost_modifiers:
  "kb_decode kb 0xaa = (None, kb) \<and>
   (\<not> caps_lock kb \<longrightarrow> \<not> caps_lock (snd (kb_decode kb c)))"
proof
  show "kb_decode kb 0xaa = (None, kb)"
    by (simp add: kb_decode_def)
  show "\<not> caps_lock kb \<longrightarrow> \<not> caps_lock (snd (kb_decode kb c))"
    using kb_decode_caps [of kb c] by (cases "kb_decode kb c") simp
qed

theorem ps2_lost_modifiers_witness:
  "kb_decode ps2_keyboard_new 0xaa = (None, ps2_keyboard_new) \<and> \<not> caps_lock (snd (kb_decode ps2_keyboard_new 0x3a)) \<and>
   decode_all ps2_keyboard_new [0x2a, 0xaa, 0x1e] = [65]"
proof -
  have "\<not> caps_lock ps2_keyboard_new" by (simp add: ps2_keyboard_new_def)
  moreover have "decode_all ps2_keyboard_new [0x2a, 0xaa, 0x1e] = [65]" by code_simp
  ultimately show ?thesis
    using ps2_lost_modifiers [of ps2_keyboard_new "0x3a"] by simp
qed


definition ack_i8042 :: "unit i8042" where
  "ack_i8042 = \<lparr>port_status = (\<lambda>k. (1, k)), port_data = (\<lambda>k. (0xfa, k)),
     port_write_command = (\<lambda>c k. k), port_write_data = (\<lambda>c k. k)\<rparr>"

lemma ack_wait: "0 < n \<Longrightarrow> fin 1 \<Longrightarrow> wait_status ack_i8042 fin n k = (True, k)"
  by (cases n) (simp_all add: ack_i8042_def)

lemma ack_replies: "write_data ack_i8042 b k = (True, k)" "write_command ack_i8042 b k = (True, k)"
  "read_response ack_i8042 k = (Some 0xfa, k)"
  by (simp_all add: write_data_def write_command_def read_response_def wait_input_clear_def wait_output_full_def
      ack_wait STATUS_INPUT_FULL_def STATUS_OUTPUT_FULL_def WAIT_LIMIT_def) (simp_all add: ack_i8042_def)


end
