(* ===== verification/Console.thy ===== *)
theory Console
  imports Ps2Keyboard
begin

text \<open>
  The kernel console of \<open>kernel/src/console.rs\<close>: the line buffer in front of the output device, the
  copy of everything written into the console log, and the standard streams of
  \<open>kernel/src/fd/stdio.rs\<close> on top of it.  The serial device and the framebuffer are parameters.
\<close>

section \<open>State\<close>

definition SERIAL_BUFFER_SIZE :: nat where "SERIAL_BUFFER_SIZE = 256"

text \<open>The serial device: \<open>write_all\<close> and \<open>read\<close> with their errors, and the framebuffer's \<open>write_bytes\<close>.\<close>

record 'u io_ops =
  uart_write_all :: "bytes \<Rightarrow> 'u \<Rightarrow> (int + unit) \<times> 'u"
  uart_read :: "nat \<Rightarrow> 'u \<Rightarrow> (int + bytes) \<times> 'u"
  uart_read_ready :: "'u \<Rightarrow> (int + bool) \<times> 'u"
  fb_write_bytes :: "bytes \<Rightarrow> 'u \<Rightarrow> 'u"

record 'u console =
  con_device :: 'u
  con_log :: console_log
  con_buffer :: bytes

definition console_new :: "'u \<Rightarrow> console_log \<Rightarrow> 'u console" where
  "console_new device log = \<lparr>con_device = device, con_log = log, con_buffer = []\<rparr>"

section \<open>Writing\<close>

definition io_device_write :: "'u io_ops \<Rightarrow> 'u console \<Rightarrow> bytes \<Rightarrow> (int + nat) \<times> 'u console" where
  "io_device_write io con buf =
     (case uart_write_all io buf (con_device con) of
        (Inl e, u) \<Rightarrow> (Inl e, con\<lparr>con_device := u\<rparr>)
      | (Inr _, u) \<Rightarrow>
          (Inr (length buf), con\<lparr>con_log := console_log_append (con_log con) buf, con_device := fb_write_bytes io buf u\<rparr>))"

text \<open>\<open>embedded_io::Write::write_all\<close>: one call per rest of the buffer, none for an empty one.\<close>

definition io_device_write_all :: "'u io_ops \<Rightarrow> 'u console \<Rightarrow> bytes \<Rightarrow> (int + unit) \<times> 'u console" where
  "io_device_write_all io con buf =
     (if buf = [] then (Inr (), con)
      else case io_device_write io con buf of (Inl e, con) \<Rightarrow> (Inl e, con) | (Inr _, con) \<Rightarrow> (Inr (), con))"

definition console_flush :: "'u io_ops \<Rightarrow> 'u console \<Rightarrow> (int + unit) \<times> 'u console" where
  "console_flush io con =
     (if con_buffer con \<noteq> [] then
        (case io_device_write_all io con (con_buffer con) of
           (Inl e, con) \<Rightarrow> (Inl e, con)
         | (Inr _, con) \<Rightarrow> (Inr (), con\<lparr>con_buffer := []\<rparr>))
      else (Inr (), con))"

definition buffer_bytes :: "'u io_ops \<Rightarrow> 'u console \<Rightarrow> bytes \<Rightarrow> (int + nat) \<times> 'u console" where
  "buffer_bytes io con buf =
     (let con = con\<lparr>con_buffer := con_buffer con @ buf\<rparr>
      in if 10 \<in> set buf
         then (case console_flush io con of (Inl e, con) \<Rightarrow> (Inl e, con) | (Inr _, con) \<Rightarrow> (Inr (length buf), con))
         else (Inr (length buf), con))"

definition console_write :: "'u io_ops \<Rightarrow> 'u console \<Rightarrow> bytes \<Rightarrow> (int + nat) \<times> 'u console" where
  "console_write io con buf =
     (if length buf \<le> SERIAL_BUFFER_SIZE - length (con_buffer con) then buffer_bytes io con buf
      else case io_device_write_all io con (con_buffer con) of
          (Inl e, con) \<Rightarrow> (Inl e, con)
        | (Inr _, con) \<Rightarrow>
            let con = con\<lparr>con_buffer := []\<rparr>
            in if SERIAL_BUFFER_SIZE \<le> length buf
               then (case io_device_write_all io con buf of
                       (Inl e, con) \<Rightarrow> (Inl e, con) | (Inr _, con) \<Rightarrow> (Inr (length buf), con))
               else buffer_bytes io con buf)"

definition generic_stdout_write :: "'u io_ops \<Rightarrow> 'u console \<Rightarrow> bytes \<Rightarrow> (int + nat) \<times> 'u console" where
  "generic_stdout_write io con buf =
     (case console_write io con buf of
        (Inl e, con) \<Rightarrow> (Inl e, con)
      | (Inr written, con) \<Rightarrow>
          (case console_flush io con of (Inl e, con) \<Rightarrow> (Inl e, con) | (Inr _, con) \<Rightarrow> (Inr written, con)))"

text \<open>\<open>GenericStderr::write\<close> has the same body.\<close>

definition generic_stderr_write :: "'u io_ops \<Rightarrow> 'u console \<Rightarrow> bytes \<Rightarrow> (int + nat) \<times> 'u console" where
  "generic_stderr_write io con buf =
     (case console_write io con buf of
        (Inl e, con) \<Rightarrow> (Inl e, con)
      | (Inr written, con) \<Rightarrow>
          (case console_flush io con of (Inl e, con) \<Rightarrow> (Inl e, con) | (Inr _, con) \<Rightarrow> (Inr written, con)))"

section \<open>Polling\<close>

definition POLLIN :: u16 where "POLLIN = 0x1"
definition POLLOUT :: u16 where "POLLOUT = 0x4"
definition POLLRDNORM :: u16 where "POLLRDNORM = 0x40"
definition POLLRDBAND :: u16 where "POLLRDBAND = 0x80"
definition POLLWRNORM :: u16 where "POLLWRNORM = 0x100"
definition POLLWRBAND :: u16 where "POLLWRBAND = 0x200"

text \<open>Readiness of the keyboard, or else of the serial device, whose error ends the call.\<close>

definition generic_stdin_poll ::
  "'k i8042 \<Rightarrow> 'u io_ops \<Rightarrow> u16 \<Rightarrow> ps2_keyboard \<times> 'k \<times> 'u console \<Rightarrow> (int + u16) \<times> ps2_keyboard \<times> 'k \<times> 'u console" where
  "generic_stdin_poll hw io event = (\<lambda>(kb, k, con).
     case kb_read_ready hw kb k of (ready, kb, k) \<Rightarrow>
       case (if ready then (Inr True, con_device con) else uart_read_ready io (con_device con)) of
         (Inl e, u) \<Rightarrow> (Inl e, kb, k, con\<lparr>con_device := u\<rparr>)
       | (Inr available, u) \<Rightarrow>
           (Inr (event AND (if available then POLLIN OR POLLRDNORM OR POLLRDBAND else 0)), kb, k, con\<lparr>con_device := u\<rparr>))"

definition generic_stdout_poll :: "u16 \<Rightarrow> u16" where
  "generic_stdout_poll event = (event AND (POLLOUT OR POLLWRNORM OR POLLWRBAND))"

section \<open>Reading\<close>

text \<open>One poll of \<open>GenericStdin::read\<close>: \<open>None\<close> is \<open>Poll::Pending\<close>.\<close>

definition generic_stdin_read ::
  "'k i8042 \<Rightarrow> 'u io_ops \<Rightarrow> nat \<Rightarrow> ps2_keyboard \<times> 'k \<times> 'u console \<Rightarrow>
     (int + bytes) option \<times> ps2_keyboard \<times> 'k \<times> 'u console" where
  "generic_stdin_read hw io buf_len = (\<lambda>(kb, k, con).
     case kb_read hw buf_len kb k of (bs, kb, k) \<Rightarrow>
       if bs \<noteq> [] then (Some (Inr bs), kb, k, con)
       else case uart_read io buf_len (con_device con) of
           (Inl e, u) \<Rightarrow> (Some (Inl e), kb, k, con\<lparr>con_device := u\<rparr>)
         | (Inr bs, u) \<Rightarrow>
             (if bs \<noteq> [] then Some (Inr bs) else if polling_enabled kb then Some (Inr []) else None,
              kb, k, con\<lparr>con_device := u\<rparr>))"

section \<open>What has been written\<close>

text \<open>
  \<open>out_of u\<close> lists the bytes the serial device has accepted.  The contract: a successful \<open>write_all\<close>
  appends its argument, a failed one appends a part of it, and the framebuffer leaves the line alone.
\<close>

definition uart_line :: "'u io_ops \<Rightarrow> ('u \<Rightarrow> bytes) \<Rightarrow> bool" where
  "uart_line io out_of \<longleftrightarrow>
     (\<forall>buf u u'. uart_write_all io buf u = (Inr (), u') \<longrightarrow> out_of u' = out_of u @ buf) \<and>
     (\<forall>buf u. out_of (fb_write_bytes io buf u) = out_of u)"

definition console_ok :: "'u console \<Rightarrow> bool" where
  "console_ok con \<longleftrightarrow> length (con_buffer con) \<le> SERIAL_BUFFER_SIZE \<and> console_log_wf (con_log con)"

text \<open>Everything accepted so far, in order: what is on the line followed by what is still buffered.\<close>

definition console_view :: "('u \<Rightarrow> bytes) \<Rightarrow> 'u console \<Rightarrow> bytes" where
  "console_view out_of con = out_of (con_device con) @ con_buffer con"

lemma device_write_all_ok:
  assumes "uart_line io out_of" and "io_device_write_all io con buf = (Inr x, con')"
  shows "out_of (con_device con') = out_of (con_device con) @ buf" "con_buffer con' = con_buffer con"
    "con_log con' = (if buf = [] then con_log con else console_log_append (con_log con) buf)"
  using assms
  by (auto simp: io_device_write_all_def io_device_write_def uart_line_def split: if_splits prod.splits sum.splits)

lemma console_flush_ok:
  assumes "uart_line io out_of" and "console_flush io con = (Inr x, con')"
  shows "console_view out_of con' = console_view out_of con" "con_buffer con' = []"
  using assms device_write_all_ok [OF assms(1), of con "con_buffer con"]
  by (auto simp: console_flush_def console_view_def split: if_splits prod.splits sum.splits)

lemma buffer_bytes_ok:
  assumes "uart_line io out_of" and "buffer_bytes io con buf = (Inr n, con')"
  shows "console_view out_of con' = console_view out_of con @ buf" "n = length buf"
    "con_buffer con' \<in> {[], con_buffer con @ buf}"
  using assms console_flush_ok [OF assms(1), of "con\<lparr>con_buffer := con_buffer con @ buf\<rparr>"]
  by (auto simp: buffer_bytes_def Let_def console_view_def split: if_splits prod.splits sum.splits)

lemma console_write_ok:
  assumes io: "uart_line io out_of" and w: "console_write io con buf = (Inr n, con')"
    and len: "length (con_buffer con) \<le> SERIAL_BUFFER_SIZE"
  shows "console_view out_of con' = console_view out_of con @ buf" "n = length buf"
    "length (con_buffer con') \<le> SERIAL_BUFFER_SIZE"
proof -
  have "console_view out_of con' = console_view out_of con @ buf \<and> n = length buf \<and>
    length (con_buffer con') \<le> SERIAL_BUFFER_SIZE"
  proof (cases "length buf \<le> SERIAL_BUFFER_SIZE - length (con_buffer con)")
    case True
    then have "buffer_bytes io con buf = (Inr n, con')"
      using w by (simp add: console_write_def)
    from buffer_bytes_ok [OF io this] show ?thesis
      using True len by auto
  next
    case False
    obtain x con1 where c1: "io_device_write_all io con (con_buffer con) = (Inr x, con1)"
      and rest: "(if SERIAL_BUFFER_SIZE \<le> length buf
          then (case io_device_write_all io (con1\<lparr>con_buffer := []\<rparr>) buf of
              (Inl e, con) \<Rightarrow> (Inl e, con) | (Inr _, con) \<Rightarrow> (Inr (length buf), con))
          else buffer_bytes io (con1\<lparr>con_buffer := []\<rparr>) buf) = (Inr n, con')"
      using w False by (auto simp: console_write_def Let_def split: prod.splits sum.splits)
    note d = device_write_all_ok [OF io c1]
    have v: "console_view out_of (con1\<lparr>con_buffer := []\<rparr>) = console_view out_of con"
      using d by (simp add: console_view_def)
    show ?thesis
    proof (cases "SERIAL_BUFFER_SIZE \<le> length buf")
      case True
      then show ?thesis
        using rest v device_write_all_ok [OF io, of "con1\<lparr>con_buffer := []\<rparr>" buf]
        by (auto simp: console_view_def split: prod.splits sum.splits)
    next
      case False
      then show ?thesis
        using rest v buffer_bytes_ok [OF io, of "con1\<lparr>con_buffer := []\<rparr>" buf] by auto
    qed
  qed
  then show "console_view out_of con' = console_view out_of con @ buf" "n = length buf"
    "length (con_buffer con') \<le> SERIAL_BUFFER_SIZE" by simp_all
qed

lemma stdout_write_ok:
  assumes io: "uart_line io out_of" and w: "generic_stdout_write io con buf = (Inr n, con')"
    and len: "length (con_buffer con) \<le> SERIAL_BUFFER_SIZE"
  shows "out_of (con_device con') = out_of (con_device con) @ con_buffer con @ buf" "n = length buf" "con_buffer con' = []"
proof -
  obtain con1 x where c: "console_write io con buf = (Inr n, con1)" "console_flush io con1 = (Inr x, con')"
    using w by (auto simp: generic_stdout_write_def split: prod.splits sum.splits)
  show "out_of (con_device con') = out_of (con_device con) @ con_buffer con @ buf" "n = length buf" "con_buffer con' = []"
    using console_write_ok [OF io c(1) len] console_flush_ok [OF io c(2)] by (simp_all add: console_view_def)
qed

section \<open>What has been logged\<close>

text \<open>
  While capture is on, the log followed by the buffer is the newest part of everything written; the log's
  invariant and the capture flag survive every write, successful or not.
\<close>

definition console_logged :: "'u console \<Rightarrow> bytes" where
  "console_logged con = newest CONSOLE_LOG_CAPACITY (console_log_view (con_log con) @ con_buffer con)"

lemma newest_append: "newest n (newest n xs @ ys) = newest n (xs @ ys)"
proof (cases "length xs \<le> n")
  case False
  then have "length xs - n + n = length xs" by simp
  with False show ?thesis by (simp add: newest_def add.commute)
qed (simp add: newest_def)

lemma console_log_append_capture: "cl_capture_enabled (console_log_append self bs) = cl_capture_enabled self"
  by (auto simp: console_log_append_def Let_def)

lemma device_write_all_log:
  assumes "io_device_write_all io con buf = (r, con')"
  shows "con_buffer con' = con_buffer con" "con_log con' \<in> {con_log con, console_log_append (con_log con) buf}"
    "\<not> isl r \<Longrightarrow> con_log con' = console_log_append (con_log con) buf"
  using assms
  by (auto simp: io_device_write_all_def io_device_write_def console_log_append_skip split: if_splits prod.splits sum.splits)

lemma console_write_cases:
  assumes "console_write io con buf = (r, con')"
  obtains (buffered) "buffer_bytes io con buf = (r, con')"
  | (failed) e where "io_device_write_all io con (con_buffer con) = (Inl e, con')" "r = Inl e"
  | (direct) x con1 s where "io_device_write_all io con (con_buffer con) = (Inr x, con1)"
      "io_device_write_all io (con1\<lparr>con_buffer := []\<rparr>) buf = (s, con')" "isl r = isl s"
  | (rebuffered) x con1 where "io_device_write_all io con (con_buffer con) = (Inr x, con1)"
      "buffer_bytes io (con1\<lparr>con_buffer := []\<rparr>) buf = (r, con')"
proof (cases "length buf \<le> SERIAL_BUFFER_SIZE - length (con_buffer con)")
  case True
  then show thesis using assms buffered by (simp add: console_write_def)
next
  case False
  obtain s con1 where d: "io_device_write_all io con (con_buffer con) = (s, con1)" by force
  show thesis
  proof (cases s)
    case (Inl e)
    then show ?thesis using assms False d failed by (simp add: console_write_def)
  next
    case (Inr x)
    obtain s2 con2 where d2: "io_device_write_all io (con1\<lparr>con_buffer := []\<rparr>) buf = (s2, con2)" by force
    show ?thesis
    proof (cases "SERIAL_BUFFER_SIZE \<le> length buf")
      case True
      then have "con' = con2" "isl r = isl s2"
        using assms False d Inr d2 by (auto simp: console_write_def Let_def split: sum.splits)
      then show ?thesis using direct d d2 Inr by blast
    next
      case small: False
      then show ?thesis
        using assms False d Inr rebuffered by (simp add: console_write_def Let_def)
    qed
  qed
qed

text \<open>One step of the argument for each routine: the log stays well formed and keeps its capture flag.\<close>

definition log_kept :: "'u console \<Rightarrow> 'u console \<Rightarrow> bool" where
  "log_kept con con' \<longleftrightarrow> (console_log_wf (con_log con) \<longrightarrow> console_log_wf (con_log con')) \<and>
     cl_capture_enabled (con_log con') = cl_capture_enabled (con_log con)"

lemma log_kept_trans: "log_kept a b \<Longrightarrow> log_kept b c \<Longrightarrow> log_kept a c"
  by (simp add: log_kept_def)

lemma log_kept_buffer [simp]: "log_kept (con\<lparr>con_buffer := x\<rparr>) con' = log_kept con con'"
  "log_kept con (con'\<lparr>con_buffer := y\<rparr>) = log_kept con con'" "log_kept con con"
  by (simp_all add: log_kept_def)

lemma device_write_all_kept: "io_device_write_all io con buf = (r, con') \<Longrightarrow> log_kept con con'"
  using device_write_all_log(2) [of io con buf r con'] console_log_append_wf console_log_append_capture
  by (auto simp: log_kept_def)

lemma console_flush_kept: "console_flush io con = (r, con') \<Longrightarrow> log_kept con con'"
  by (auto simp: console_flush_def dest: device_write_all_kept split: if_splits prod.splits sum.splits)

lemma buffer_bytes_kept: "buffer_bytes io con buf = (r, con') \<Longrightarrow> log_kept con con'"
  using console_flush_kept [of io "con\<lparr>con_buffer := con_buffer con @ buf\<rparr>"]
  by (auto simp: buffer_bytes_def Let_def split: if_splits prod.splits sum.splits)

lemma console_write_kept:
  assumes "console_write io con buf = (r, con')"
  shows "log_kept con con'"
  using assms
proof (cases rule: console_write_cases)
  case (direct x con1 s)
  then show ?thesis
    using device_write_all_kept [OF direct(1)] device_write_all_kept [OF direct(2)] log_kept_trans by simp blast
next
  case (rebuffered x con1)
  then show ?thesis
    using device_write_all_kept [OF rebuffered(1)] buffer_bytes_kept [OF rebuffered(2)] log_kept_trans by simp blast
qed (auto intro: device_write_all_kept buffer_bytes_kept)

lemma stdout_kept: "generic_stdout_write io con buf = (r, con') \<Longrightarrow> log_kept con con'"
  using console_write_kept [of io con buf] console_flush_kept [of io] log_kept_trans
  by (fastforce simp: generic_stdout_write_def split: prod.splits sum.splits)

lemma device_write_all_logged:
  assumes "io_device_write_all io con buf = (Inr x, con')" and "console_log_wf (con_log con)" and "cl_capture_enabled (con_log con)"
  shows "console_log_view (con_log con') = newest CONSOLE_LOG_CAPACITY (console_log_view (con_log con) @ buf)"
  using device_write_all_log(3) [OF assms(1)] console_log_append_view [OF assms(2), of buf] assms(3) by simp

lemma console_flush_logged:
  assumes "console_flush io con = (Inr x, con')" and "console_log_wf (con_log con)" and "cl_capture_enabled (con_log con)"
  shows "console_logged con' = console_logged con"
  using assms(1) device_write_all_logged [of io con "con_buffer con", OF _ assms(2,3)]
  by (auto simp: console_flush_def console_logged_def newest_append [of _ _ "[]", simplified] split: if_splits prod.splits sum.splits)

lemma buffer_bytes_logged:
  assumes "buffer_bytes io con buf = (Inr n, con')" and "console_log_wf (con_log con)" and "cl_capture_enabled (con_log con)"
  shows "console_logged con' = newest CONSOLE_LOG_CAPACITY (console_logged con @ buf)"
  using assms(1) console_flush_logged [of io "con\<lparr>con_buffer := con_buffer con @ buf\<rparr>"] assms(2,3)
  by (auto simp: buffer_bytes_def Let_def console_logged_def newest_append split: if_splits prod.splits sum.splits)

lemma console_write_logged:
  assumes w: "console_write io con buf = (Inr n, con')" and wf: "console_log_wf (con_log con)" and cap: "cl_capture_enabled (con_log con)"
  shows "console_logged con' = newest CONSOLE_LOG_CAPACITY (console_logged con @ buf)"
  using w
proof (cases rule: console_write_cases)
  case buffered
  then show ?thesis by (rule buffer_bytes_logged [OF _ wf cap])
next
  case (direct x con1 s)
  note k = device_write_all_kept [OF direct(1)]
  have v1: "console_log_view (con_log con1) = console_logged con"
    using device_write_all_logged [OF direct(1) wf cap] by (simp add: console_logged_def)
  obtain y where s: "s = Inr y" using direct(3) by (cases s) simp_all
  have "console_log_view (con_log con') = newest CONSOLE_LOG_CAPACITY (console_log_view (con_log con1) @ buf)"
    using device_write_all_logged [OF direct(2) [unfolded s]] k wf cap by (simp add: log_kept_def)
  moreover have "con_buffer con' = []"
    using device_write_all_log(1) [OF direct(2)] by simp
  ultimately show ?thesis
    using v1 newest_append [of CONSOLE_LOG_CAPACITY _ "[]"] by (simp add: console_logged_def)
next
  case (rebuffered x con1)
  note k = device_write_all_kept [OF rebuffered(1)]
  have "console_logged (con1\<lparr>con_buffer := []\<rparr>) = console_logged con"
    using device_write_all_logged [OF rebuffered(1) wf cap] newest_append [of CONSOLE_LOG_CAPACITY _ "[]"]
    by (simp add: console_logged_def)
  then show ?thesis
    using buffer_bytes_logged [OF rebuffered(2)] k wf cap by (simp add: log_kept_def)
qed simp

lemma stdout_logged:
  assumes w: "generic_stdout_write io con buf = (Inr n, con')" and wf: "console_log_wf (con_log con)" and cap: "cl_capture_enabled (con_log con)"
  shows "console_logged con' = newest CONSOLE_LOG_CAPACITY (console_logged con @ buf)"
proof -
  obtain con1 x where c: "console_write io con buf = (Inr n, con1)" "console_flush io con1 = (Inr x, con')"
    using w by (auto simp: generic_stdout_write_def split: prod.splits sum.splits)
  then show ?thesis
    using console_write_logged [OF c(1) wf cap] console_flush_logged [OF c(2)] console_write_kept [OF c(1)] wf cap
    by (simp add: log_kept_def)
qed

section \<open>Properties\<close>

text \<open>
  C15.  Standard output loses, duplicates and reorders nothing: a successful write puts on the line
  exactly the bytes still buffered followed by its own, leaves the buffer empty and reports the full
  length; while capture is on, the console log then holds the newest 256 KiB of what it held followed
  by the same bytes.
\<close>

theorem stdout_in_order:
  assumes "uart_line io out_of" and "console_ok con" and "generic_stdout_write io con buf = (Inr n, con')"
  shows "out_of (con_device con') = out_of (con_device con) @ con_buffer con @ buf \<and> con_buffer con' = [] \<and>
    n = length buf \<and> console_ok con' \<and>
    (cl_capture_enabled (con_log con) \<longrightarrow> console_log_view (con_log con') =
      newest CONSOLE_LOG_CAPACITY (console_log_view (con_log con) @ con_buffer con @ buf))"
proof -
  have len: "length (con_buffer con) \<le> SERIAL_BUFFER_SIZE" and wf: "console_log_wf (con_log con)"
    using assms(2) by (simp_all add: console_ok_def)
  note out = stdout_write_ok [OF assms(1,3) len]
  have "console_log_wf (con_log con')"
    using stdout_kept [OF assms(3)] wf by (simp add: log_kept_def)
  moreover from this have "newest CONSOLE_LOG_CAPACITY (console_log_view (con_log con')) = console_log_view (con_log con')"
    by (simp add: newest_def console_log_view_def console_log_wf_def)
  then have "console_log_view (con_log con') = newest CONSOLE_LOG_CAPACITY (console_log_view (con_log con) @ con_buffer con @ buf)"
    if "cl_capture_enabled (con_log con)"
    using stdout_logged [OF assms(3) wf that] newest_append [of CONSOLE_LOG_CAPACITY "console_log_view (con_log con) @ con_buffer con" buf]
    by (simp add: console_logged_def out(3))
  ultimately show ?thesis
    using out by (simp add: console_ok_def)
qed

definition list_io :: "bytes io_ops" where
  "list_io = \<lparr>uart_write_all = (\<lambda>buf u. (Inr (), u @ buf)), uart_read = (\<lambda>n u. (Inr [], u)),
     uart_read_ready = (\<lambda>u. (Inr False, u)), fb_write_bytes = (\<lambda>buf u. u)\<rparr>"

definition list_console :: "bytes console" where
  "list_console = \<lparr>con_device = [], con_log = console_log_new, con_buffer = [65]\<rparr>"

theorem stdout_in_order_witness:
  "\<exists>con'. generic_stdout_write list_io list_console [66, 10] = (Inr 2, con') \<and> con_device con' = [65, 66, 10] \<and>
     con_buffer con' = []"
proof -
  obtain con' where w: "generic_stdout_write list_io list_console [66, 10] = (Inr 2, con')"
    by (simp add: generic_stdout_write_def console_write_def buffer_bytes_def console_flush_def io_device_write_all_def
        io_device_write_def list_io_def list_console_def SERIAL_BUFFER_SIZE_def Let_def)
  have "uart_line list_io (\<lambda>u. u)" "console_ok list_console"
    by (simp_all add: uart_line_def list_io_def console_ok_def list_console_def SERIAL_BUFFER_SIZE_def console_log_new_wf)
  from stdout_in_order [OF this w] w show ?thesis
    by (simp add: list_console_def)
qed

end
