(* ===== verification/NativeDecoder.thy ===== *)
theory NativeDecoder
  imports QaTextLaws
begin

text \<open>
  The native decoder of \<open>bitapp/native/bitnet/hermit_bitnet.cpp\<close>: validation of the model file's tensor
  table, the cached model and thread pool, prompt evaluation, the generation loop with its stopping
  rules, and the clean-up of every resource on every path.  The llama/ggml library is a parameter: a
  record of the calls the decoder makes, acting on the library's state.  Diagnostic output is not
  modelled.
\<close>

section \<open>Text of the answer\<close>

definition is_blank :: "u8 \<Rightarrow> bool" where
  "is_blank c \<longleftrightarrow> c = 32 \<or> c = 9 \<or> c = 13 \<or> c = 10"

definition bitnet_line_has_nonspace :: "bytes \<Rightarrow> nat \<Rightarrow> nat \<Rightarrow> bool" where
  "bitnet_line_has_nonspace txt b e \<longleftrightarrow> list_ex (\<lambda>c. \<not> is_blank c) (subslice txt b e)"

definition looks_like_code :: "bytes \<Rightarrow> bool" where
  "looks_like_code line \<longleftrightarrow>
     (let has = (\<lambda>s. find_subslice line (ascii s) \<noteq> None)
      in has ''import '' \<or> has ''def '' \<or> has ''return '' \<or> has ''print('' \<or> has ''if __name__'' \<or>
         has ''password'' \<and> find_byte line 61 \<noteq> None \<or> has ''```'' \<or>
         line \<noteq> [] \<and> (hd line = 32 \<or> hd line = 9 \<or> hd line = 35))"

text \<open>
  The line loop of \<open>bitnet_should_stop_after_one_explanation\<close>; \<open>Some\<close> is the start of the prose.  While
  the loop runs \<open>prose_start\<close> is still unset.
\<close>

function prose_start_loop :: "bytes \<Rightarrow> nat \<Rightarrow> bool \<Rightarrow> bool \<Rightarrow> nat option" where
  "prose_start_loop txt line_start saw_code saw_blank =
     (if line_start < length txt then
        let line_end_pos = find_byte (drop line_start txt) 10;
            line_end = (case line_end_pos of None \<Rightarrow> length txt | Some n \<Rightarrow> line_start + n);
            nonspace = bitnet_line_has_nonspace txt line_start line_end;
            code = looks_like_code (subslice txt line_start line_end)
        in if nonspace \<and> \<not> code \<and> saw_code \<and> (saw_blank \<or> \<not> code) then Some line_start
           else case line_end_pos of
               None \<Rightarrow> None
             | Some n \<Rightarrow> prose_start_loop txt (line_start + n + 1) (saw_code \<or> nonspace \<and> code)
                 (saw_blank \<or> \<not> nonspace \<and> saw_code)
      else None)"
  by pat_completeness auto
termination
  by (relation "measure (\<lambda>(txt, line_start, saw_code, saw_blank). length txt - line_start)") auto

declare prose_start_loop.simps [simp del]

definition is_sentence_end :: "u8 \<Rightarrow> bool" where
  "is_sentence_end c \<longleftrightarrow> c = 46 \<or> c = 33 \<or> c = 63"

definition bitnet_should_stop_after_one_explanation :: "bytes \<Rightarrow> bool" where
  "bitnet_should_stop_after_one_explanation txt =
     (case prose_start_loop txt 0 False False of
        None \<Rightarrow> False
      | Some prose_start \<Rightarrow> list_ex is_sentence_end (drop prose_start txt))"

definition bitnet_should_stop_after_interactive_answer :: "bytes \<Rightarrow> bool" where
  "bitnet_should_stop_after_interactive_answer txt =
     (case position (\<lambda>c. \<not> is_blank c) txt of
        None \<Rightarrow> False
      | Some first \<Rightarrow>
          let lst = length txt - 1 - the (position (\<lambda>c. \<not> is_blank c) (rev txt));
              ans = subslice txt first (lst + 1);
              paragraph_break = find_subslice ans [10, 10]
          in if (case paragraph_break of None \<Rightarrow> False | Some p \<Rightarrow> bitnet_line_has_nonspace ans 0 p) then True
             else if length (filter (\<lambda>c. \<not> is_blank c) txt) < 3 then False
             else is_sentence_end (txt ! lst))"

definition bitnet_copy_generated_output :: "bytes \<Rightarrow> bytes \<Rightarrow> bytes" where
  "bitnet_copy_generated_output generated_text out =
     (if out = [] then out
      else
        let copy_len = min (length generated_text) (length out - 1)
        in (overwrite out 0 (take copy_len generated_text))[copy_len := 0])"

section \<open>The library and the decoder's state\<close>

text \<open>The parts of a parsed GGUF file that the decoder reads: tensor offsets and sizes after the header.\<close>

record gguf =
  data_offset :: u64
  gguf_tensors :: "(u64 \<times> u64) list"

text \<open>
  The library calls.  Handles are numbers; \<open>None\<close> is a null pointer.  \<open>ll_gguf_init\<close> also says whether it
  created the metadata context, \<open>ll_tokenize\<close> returns its code with the tokens it stored, and
  \<open>ll_token_to_piece\<close> returns its code with the bytes it stored in a buffer of the given size.
\<close>

record 'l llama =
  ll_gguf_init :: "u64 \<Rightarrow> u64 \<Rightarrow> 'l \<Rightarrow> (gguf \<times> bool) option \<times> 'l"
  ll_load_model :: "u64 \<Rightarrow> u64 \<Rightarrow> 'l \<Rightarrow> nat option \<times> 'l"
  ll_new_context :: "nat \<Rightarrow> int \<Rightarrow> int \<Rightarrow> 'l \<Rightarrow> nat option \<times> 'l"
  ll_threadpool_new :: "int \<Rightarrow> 'l \<Rightarrow> nat option \<times> 'l"
  ll_tokenize :: "nat \<Rightarrow> bytes \<Rightarrow> nat \<Rightarrow> 'l \<Rightarrow> (int \<times> int list) \<times> 'l"
  ll_decode :: "int list \<Rightarrow> int \<Rightarrow> 'l \<Rightarrow> int \<times> 'l"
  ll_logits_available :: "'l \<Rightarrow> bool"
  ll_sampler_new :: "'l \<Rightarrow> nat option \<times> 'l"
  ll_sampler_sample :: "'l \<Rightarrow> int \<times> 'l"
  ll_sampler_accept :: "int \<Rightarrow> 'l \<Rightarrow> 'l"
  ll_token_eos :: "nat \<Rightarrow> int"
  ll_token_is_eog :: "nat \<Rightarrow> int \<Rightarrow> bool"
  ll_token_to_piece :: "nat \<Rightarrow> int \<Rightarrow> nat \<Rightarrow> int \<times> bytes"
  ll_should_abort :: "'l \<Rightarrow> bool \<times> 'l"

text \<open>The life of the library's objects, as the decoder creates and frees them.\<close>

datatype resource = Gguf | Metadata | Context | Batch | Sampler

datatype native_event =
    Acquire resource
  | Release resource
  | Free_pool nat
  | Free_model nat

record 'l native =
  nt_lib :: 'l
  nt_trace :: "native_event list"
  nt_backend_initialized :: bool
  nt_cached_model :: "(nat \<times> u64 \<times> u64) option"
  nt_threadpool :: "(nat \<times> int) option"
  nt_quiet :: bool

definition log_event :: "native_event \<Rightarrow> 'l native \<Rightarrow> 'l native" where
  "log_event e st = st\<lparr>nt_trace := nt_trace st @ [e]\<rparr>"

definition bitnet_set_setup_logs_quiet :: "bool \<Rightarrow> 'l native \<Rightarrow> 'l native" where
  "bitnet_set_setup_logs_quiet quiet st = st\<lparr>nt_quiet := quiet\<rparr>"

definition bitnet_backend_init_once :: "'l native \<Rightarrow> 'l native" where
  "bitnet_backend_init_once st = (if \<not> nt_backend_initialized st then st\<lparr>nt_backend_initialized := True\<rparr> else st)"

definition bitnet_get_buffer_model :: "'l llama \<Rightarrow> u64 \<Rightarrow> u64 \<Rightarrow> 'l native \<Rightarrow> nat option \<times> 'l native" where
  "bitnet_get_buffer_model ll data len st =
     (case nt_cached_model st of
        Some (model, d, n) \<Rightarrow> if d = data \<and> n = len then (Some model, st) else (None, st)
      | None \<Rightarrow>
          (case ll_load_model ll data len (nt_lib st) of
             (None, l) \<Rightarrow> (None, st\<lparr>nt_lib := l\<rparr>)
           | (Some model, l) \<Rightarrow> (Some model, st\<lparr>nt_lib := l, nt_cached_model := Some (model, data, len)\<rparr>)))"

definition bitnet_get_threadpool :: "'l llama \<Rightarrow> int \<Rightarrow> 'l native \<Rightarrow> nat option \<times> 'l native" where
  "bitnet_get_threadpool ll n_threads st =
     (if n_threads \<le> 1 then (None, st)
      else case nt_threadpool st of
        Some (p, n) \<Rightarrow>
          if n = n_threads then (Some p, st)
          else
            (case ll_threadpool_new ll n_threads (nt_lib st) of
               (None, l) \<Rightarrow> (None, log_event (Free_pool p) (st\<lparr>nt_threadpool := None, nt_lib := l\<rparr>))
             | (Some q, l) \<Rightarrow> (Some q, log_event (Free_pool p) (st\<lparr>nt_threadpool := Some (q, n_threads), nt_lib := l\<rparr>)))
      | None \<Rightarrow>
          (case ll_threadpool_new ll n_threads (nt_lib st) of
             (None, l) \<Rightarrow> (None, st\<lparr>nt_lib := l\<rparr>)
           | (Some q, l) \<Rightarrow> (Some q, st\<lparr>nt_threadpool := Some (q, n_threads), nt_lib := l\<rparr>)))"

section \<open>Validation of the model buffer\<close>

fun tensor_bounds_loop :: "u64 \<Rightarrow> u64 \<Rightarrow> (u64 \<times> u64) list \<Rightarrow> bool" where
  "tensor_bounds_loop data_off model_len [] = True"
| "tensor_bounds_loop data_off model_len ((off, sz) # ts) =
     (if - 1 - data_off < off \<or> - 1 - data_off - off < sz then False
      else if model_len < data_off + off + sz then False
      else tensor_bounds_loop data_off model_len ts)"

definition bitnet_validate_gguf_tensor_bounds :: "gguf \<Rightarrow> u64 \<Rightarrow> bool" where
  "bitnet_validate_gguf_tensor_bounds g model_len = tensor_bounds_loop (data_offset g) model_len (gguf_tensors g)"

text \<open>The byte offset that \<open>bitnet_set_tensor_data\<close> computes for a tensor, if it lies in the buffer.\<close>

definition bitnet_set_tensor_data :: "gguf \<Rightarrow> u64 \<Rightarrow> nat \<Rightarrow> u64 option" where
  "bitnet_set_tensor_data g model_len tensor_id =
     (let (tensor_offset, tensor_size) = gguf_tensors g ! tensor_id;
          absolute_offset = data_offset g + tensor_offset
      in if model_len < absolute_offset \<or> model_len - absolute_offset < tensor_size then None
         else Some absolute_offset)"

definition hermit_bitnet_probe_ram_model :: "bytes option \<Rightarrow> int" where
  "hermit_bitnet_probe_ram_model model_data =
     (case model_data of
        None \<Rightarrow> - 1
      | Some bs \<Rightarrow> if length bs < 4 then - 1
          else if bs ! 0 \<noteq> 71 \<or> bs ! 1 \<noteq> 71 \<or> bs ! 2 \<noteq> 85 \<or> bs ! 3 \<noteq> 70 then - 2 else 0)"

section \<open>Clean-up\<close>

definition bitnet_release_buffer_model :: "nat \<Rightarrow> 'l native \<Rightarrow> 'l native" where
  "bitnet_release_buffer_model model st =
     (if map_option fst (nt_cached_model st) \<noteq> Some model then log_event (Free_model model) st else st)"

definition bitnet_release_threadpool :: "nat option \<Rightarrow> 'l native \<Rightarrow> 'l native" where
  "bitnet_release_threadpool pool st =
     (case pool of
        None \<Rightarrow> st
      | Some p \<Rightarrow> if map_option fst (nt_threadpool st) \<noteq> Some p then log_event (Free_pool p) st else st)"

text \<open>The exits after the context exists: free the objects given, then pool, model and log setting.\<close>

definition release_all :: "resource list \<Rightarrow> nat option \<Rightarrow> nat \<Rightarrow> 'l native \<Rightarrow> 'l native" where
  "release_all rs pool model st =
     bitnet_set_setup_logs_quiet False (bitnet_release_buffer_model model (bitnet_release_threadpool pool
       (foldl (\<lambda>st r. log_event (Release r) st) st rs)))"

section \<open>Generation\<close>

definition piece_of :: "'l llama \<Rightarrow> nat \<Rightarrow> int \<Rightarrow> bytes" where
  "piece_of ll model tok =
     (case ll_token_to_piece ll model tok 256 of
        (n, p) \<Rightarrow>
          if n < 0 then (case ll_token_to_piece ll model tok (nat (- n)) of (k, q) \<Rightarrow> if 0 < k then take (nat k) q else [])
          else if 0 < n then take (nat n) p else [])"

function generate_loop ::
  "'l llama \<Rightarrow> nat \<Rightarrow> bool \<Rightarrow> int \<Rightarrow> int \<Rightarrow> int \<Rightarrow> bool \<Rightarrow> int \<Rightarrow> bytes \<Rightarrow> 'l \<Rightarrow> (int + bytes) \<times> 'l" where
  "generate_loop ll model sampler n_tokens n_predict n_ctx interactive generated txt l =
     (if generated < n_predict \<and> n_tokens + generated + 1 < n_ctx then
        case ll_should_abort ll l of (abort_requested, l) \<Rightarrow>
          if abort_requested then (Inr txt, l)
          else if \<not> ll_logits_available ll l then (Inl (- 7), l)
          else
            case (if sampler then ll_sampler_sample ll l else (ll_token_eos ll model, l)) of (tok, l) \<Rightarrow>
              let l = (if sampler then ll_sampler_accept ll tok l else l)
              in if ll_token_is_eog ll model tok then (Inr txt, l)
                 else
                   let txt = txt @ piece_of ll model tok
                   in if bitnet_should_stop_after_one_explanation txt then (Inr txt, l)
                      else if interactive \<and> bitnet_should_stop_after_interactive_answer txt then (Inr txt, l)
                      else case ll_decode ll [tok] (n_tokens + generated) l of (rc, l) \<Rightarrow>
                        if rc \<noteq> 0 then (Inl (- 8), l)
                        else generate_loop ll model sampler n_tokens n_predict n_ctx interactive (generated + 1) txt l
      else (Inr txt, l))"
  by pat_completeness auto
termination
  by (relation "measure (\<lambda>(ll, model, sampler, n_tokens, n_predict, n_ctx, interactive, generated, txt, l).
      nat (n_predict - generated))") auto

declare generate_loop.simps [simp del]

definition decode_generate ::
  "'l llama \<Rightarrow> nat \<Rightarrow> nat option \<Rightarrow> int list \<Rightarrow> int \<Rightarrow> int \<Rightarrow> bool \<Rightarrow> 'l native \<Rightarrow> (int \<times> bytes) \<times> 'l native" where
  "decode_generate ll model pool tokens n_predict n_ctx interactive st =
     (let st = (if \<not> interactive then bitnet_set_setup_logs_quiet False st else st)
      in case ll_sampler_new ll (nt_lib st) of (sampler, l) \<Rightarrow>
           let has = (sampler \<noteq> None);
               st = (if has then log_event (Acquire Sampler) st else st);
               l = (if has then fold (ll_sampler_accept ll) tokens l else l);
               owned = (if has then [Sampler] else []) @ [Batch, Context]
           in case generate_loop ll model has (int (length tokens)) n_predict n_ctx interactive 0 [] l of
                (Inl e, l) \<Rightarrow> ((e, []), release_all owned pool model (st\<lparr>nt_lib := l\<rparr>))
              | (Inr txt, l) \<Rightarrow> ((0, txt), release_all owned pool model (st\<lparr>nt_lib := l\<rparr>)))"

section \<open>Prompt\<close>

definition tokenize_prompt :: "'l llama \<Rightarrow> nat \<Rightarrow> bytes \<Rightarrow> int \<Rightarrow> 'l \<Rightarrow> (int \<times> int list) \<times> 'l" where
  "tokenize_prompt ll model prompt n_ctx l =
     (case ll_tokenize ll model prompt (nat n_ctx) l of
        ((n, toks), l) \<Rightarrow> if n < 0 then ll_tokenize ll model prompt (nat (- n)) l else ((n, toks), l))"

definition decode_prompt ::
  "'l llama \<Rightarrow> nat \<Rightarrow> nat option \<Rightarrow> bytes \<Rightarrow> int \<Rightarrow> int \<Rightarrow> bool \<Rightarrow> bool \<Rightarrow> 'l native \<Rightarrow> (int \<times> bytes) \<times> 'l native" where
  "decode_prompt ll model pool prompt n_predict n_ctx warmup_only interactive st =
     (case tokenize_prompt ll model prompt n_ctx (nt_lib st) of
        ((n_tokens, toks), l) \<Rightarrow>
          let st = st\<lparr>nt_lib := l\<rparr>
          in if n_tokens \<le> 0 \<or> n_ctx \<le> n_tokens then ((- 5, []), release_all [Context] pool model st)
             else if warmup_only then ((0, []), release_all [Context] pool model st)
             else
               let tokens = take (nat n_tokens) (toks @ replicate (nat n_tokens) 0); st = log_event (Acquire Batch) st
               in case ll_decode ll tokens 0 (nt_lib st) of (rc, l) \<Rightarrow>
                    let st = st\<lparr>nt_lib := l\<rparr>
                    in if rc \<noteq> 0 then ((- 6, []), release_all [Batch, Context] pool model st)
                       else decode_generate ll model pool tokens n_predict n_ctx interactive st)"

section \<open>Entry\<close>

definition decode_context ::
  "'l llama \<Rightarrow> nat \<Rightarrow> bytes \<Rightarrow> int \<Rightarrow> int \<Rightarrow> int \<Rightarrow> bool \<Rightarrow> bool \<Rightarrow> 'l native \<Rightarrow> (int \<times> bytes) \<times> 'l native" where
  "decode_context ll model prompt n_predict n_threads n_ctx warmup_only interactive st =
     (case ll_new_context ll model n_ctx n_threads (nt_lib st) of
        (None, l) \<Rightarrow> ((- 4, []), bitnet_set_setup_logs_quiet False (bitnet_release_buffer_model model (st\<lparr>nt_lib := l\<rparr>)))
      | (Some _, l) \<Rightarrow>
          let st = log_event (Acquire Context) (st\<lparr>nt_lib := l\<rparr>)
          in if 1 < n_threads then
               (case bitnet_get_threadpool ll n_threads st of
                  (None, st) \<Rightarrow> ((- 12, []), release_all [Context] None model st)
                | (Some p, st) \<Rightarrow> decode_prompt ll model (Some p) prompt n_predict n_ctx warmup_only interactive st)
             else decode_prompt ll model None prompt n_predict n_ctx warmup_only interactive st)"

definition decode_model ::
  "'l llama \<Rightarrow> u64 \<Rightarrow> u64 \<Rightarrow> bytes \<Rightarrow> int \<Rightarrow> int \<Rightarrow> int \<Rightarrow> bool \<Rightarrow> bool \<Rightarrow> 'l native \<Rightarrow> (int \<times> bytes) \<times> 'l native" where
  "decode_model ll data len prompt n_predict n_threads n_ctx warmup_only interactive st =
     (case ll_gguf_init ll data len (nt_lib st) of
        (None, l) \<Rightarrow> ((- 2, []), bitnet_set_setup_logs_quiet False (st\<lparr>nt_lib := l\<rparr>))
      | (Some (g, meta), l) \<Rightarrow>
          let st = log_event (Acquire Gguf) (st\<lparr>nt_lib := l\<rparr>);
              st = (if meta then log_event (Acquire Metadata) st else st);
              free_parse = (\<lambda>st. log_event (Release Gguf) (if meta then log_event (Release Metadata) st else st))
          in if \<not> bitnet_validate_gguf_tensor_bounds g len then
               ((- 11, []), bitnet_set_setup_logs_quiet False (free_parse st))
             else
               case bitnet_get_buffer_model ll data len (bitnet_backend_init_once st) of
                 (None, st) \<Rightarrow> ((- 3, []), bitnet_set_setup_logs_quiet False (free_parse st))
               | (Some model, st) \<Rightarrow>
                   decode_context ll model prompt n_predict n_threads n_ctx warmup_only interactive (free_parse st))"

definition hermit_bitnet_prompt_decode_from_buffer ::
  "'l llama \<Rightarrow> u64 \<Rightarrow> u64 \<Rightarrow> bytes option \<Rightarrow> int \<Rightarrow> int \<Rightarrow> int \<Rightarrow> bytes \<Rightarrow> 'l native \<Rightarrow> (int \<times> bytes) \<times> 'l native" where
  "hermit_bitnet_prompt_decode_from_buffer ll data len prompt n_predict n_threads n_ctx out st =
     (let out = (if out \<noteq> [] then out[0 := 0] else out)
      in case prompt of
           None \<Rightarrow> ((- 1, out), st)
         | Some prompt \<Rightarrow>
             if data = 0 \<or> len < 16 then ((- 1, out), st)
             else if data mod 32 \<noteq> 0 then ((- 10, out), st)
             else
               let warmup_only = (n_predict < 0);
                   interactive = (\<not> warmup_only \<and> 0 < n_predict \<and> n_predict \<le> 96);
                   st = bitnet_set_setup_logs_quiet interactive st;
                   n_threads = (if n_threads \<le> 0 then 1 else n_threads);
                   n_ctx = (if n_ctx \<le> 0 then 512 else n_ctx);
                   n_predict = (if \<not> warmup_only \<and> (n_predict \<le> 0 \<or> n_ctx < n_predict) then n_ctx else n_predict)
               in case decode_model ll data len (take (c_string_len prompt) prompt) n_predict n_threads n_ctx
                     warmup_only interactive st of
                    ((ret, txt), st) \<Rightarrow>
                      ((ret, if ret = 0 then bitnet_copy_generated_output txt out else out), st))"

text \<open>
  A small instance of the library for the witnesses: a model file with one tensor, a tokenizer that
  yields one token per byte, and a sampler whose tokens 0 and 1 are \<open>H\<close> and \<open>i\<close> and whose
  token 2 ends the generation.
\<close>

definition tiny_llama :: "nat llama" where
  "tiny_llama =
     \<lparr>ll_gguf_init = (\<lambda>data len l. (Some (\<lparr>data_offset = 32, gguf_tensors = [(0, 32)]\<rparr>, True), l)),
      ll_load_model = (\<lambda>data len l. (Some 1, l)),
      ll_new_context = (\<lambda>model n_ctx n_threads l. (Some 2, l)),
      ll_threadpool_new = (\<lambda>n_threads l. (Some 3, l)),
      ll_tokenize = (\<lambda>model prompt n l. ((int (length prompt), map uint prompt), l)),
      ll_decode = (\<lambda>toks pos l. (0, l)),
      ll_logits_available = (\<lambda>l. True),
      ll_sampler_new = (\<lambda>l. (Some 4, l)),
      ll_sampler_sample = (\<lambda>l. (int l, l + 1)),
      ll_sampler_accept = (\<lambda>tok l. l),
      ll_token_eos = (\<lambda>model. 2),
      ll_token_is_eog = (\<lambda>model tok. tok = 2),
      ll_token_to_piece = (\<lambda>model tok n. (1, [if tok = 0 then 72 else 105])),
      ll_should_abort = (\<lambda>l. (False, l))\<rparr>"

definition tiny_native :: "nat native" where
  "tiny_native = \<lparr>nt_lib = 0, nt_trace = [], nt_backend_initialized = False, nt_cached_model = None,
     nt_threadpool = None, nt_quiet = False\<rparr>"

section \<open>Every object is freed exactly once\<close>

text \<open>The objects alive after a trace; \<open>None\<close> when one is created twice or freed while not alive.\<close>

fun live_after :: "native_event list \<Rightarrow> resource set \<Rightarrow> resource set option" where
  "live_after [] live = Some live"
| "live_after (Acquire r # es) live = (if r \<in> live then None else live_after es (insert r live))"
| "live_after (Release r # es) live = (if r \<in> live then live_after es (live - {r}) else None)"
| "live_after (e # es) live = live_after es live"

definition runs :: "resource set \<Rightarrow> resource set \<Rightarrow> 'l native \<Rightarrow> 'l native \<Rightarrow> bool" where
  "runs live live' st st' \<longleftrightarrow> (\<exists>es. nt_trace st' = nt_trace st @ es \<and> live_after es live = Some live')"

lemma live_after_append: "live_after (es @ fs) live = Option.bind (live_after es live) (live_after fs)"
  by (induction es live rule: live_after.induct) auto

lemma runs_refl: "nt_trace st' = nt_trace st \<Longrightarrow> runs live live st st'"
  by (simp add: runs_def)

lemma runs_trans: "runs a b st st1 \<Longrightarrow> runs b c st1 st2 \<Longrightarrow> runs a c st st2"
  unfolding runs_def by (auto simp: live_after_append)

lemma runs_event:
  "r \<notin> live \<Longrightarrow> live' = insert r live \<Longrightarrow> runs live live' st (log_event (Acquire r) st)"
  "r \<in> live \<Longrightarrow> live' = live - {r} \<Longrightarrow> runs live live' st (log_event (Release r) st)"
  "runs live live st (log_event (Free_pool p) st)" "runs live live st (log_event (Free_model m) st)"
  by (auto simp: runs_def log_event_def)

lemma runs_same: "nt_trace st1 = nt_trace st \<Longrightarrow> runs a b st st2 = runs a b st1 st2"
  by (simp add: runs_def)

lemma trace_simps [simp]: "nt_trace (bitnet_set_setup_logs_quiet q st) = nt_trace st"
  "nt_trace (bitnet_backend_init_once st) = nt_trace st" "nt_quiet (bitnet_set_setup_logs_quiet q st) = q"
  by (simp_all add: bitnet_set_setup_logs_quiet_def bitnet_backend_init_once_def)

lemma runs_release_list:
  "distinct rs \<Longrightarrow> runs (set rs) {} st (foldl (\<lambda>st r. log_event (Release r) st) st rs)"
proof (induction rs arbitrary: st)
  case (Cons r rs)
  then have "runs (set (r # rs)) (set rs) st (log_event (Release r) st)"
    by (intro runs_event(2)) auto
  with Cons show ?case by (auto intro: runs_trans)
qed (simp add: runs_refl)

lemma runs_release_all: "distinct rs \<Longrightarrow> live = set rs \<Longrightarrow> runs live {} st (release_all rs pool model st)"
proof -
  assume rs: "distinct rs" "live = set rs"
  let ?a = "foldl (\<lambda>st r. log_event (Release r) st) st rs"
  have "runs {} {} ?a (bitnet_release_threadpool pool ?a)"
    by (auto simp: bitnet_release_threadpool_def runs_refl runs_event split: option.split)
  moreover have "runs {} {} b (bitnet_set_setup_logs_quiet False (bitnet_release_buffer_model model b))" for b :: "'a native"
    by (auto simp: bitnet_release_buffer_model_def runs_def log_event_def)
  ultimately show ?thesis
    using runs_release_list [OF rs(1), of st] rs(2) unfolding release_all_def by (blast intro: runs_trans)
qed

lemma quiet_release_all: "nt_quiet (release_all rs pool model st) = False"
  by (simp add: release_all_def)

lemma decode_generate_runs:
  assumes "decode_generate ll model pool tokens n_predict n_ctx interactive st = (r, st')"
  shows "runs {Batch, Context} {} st st' \<and> \<not> nt_quiet st'"
proof -
  define st1 where "st1 = (if \<not> interactive then bitnet_set_setup_logs_quiet False st else st)"
  obtain sm l where s: "ll_sampler_new ll (nt_lib st1) = (sm, l)" by force
  define st2 where "st2 = (if sm \<noteq> None then log_event (Acquire Sampler) st1 else st1)"
  define owned where "owned = (if sm \<noteq> None then [Sampler] else []) @ [Batch, Context]"
  have t1: "nt_trace st1 = nt_trace st" by (simp add: st1_def)
  have "runs {Batch, Context} (set owned) st st2"
    using t1 by (auto simp: st2_def owned_def runs_same [OF t1] intro: runs_event runs_refl)
  moreover obtain q l' where g: "generate_loop ll model (sm \<noteq> None) (int (length tokens)) n_predict n_ctx interactive 0 []
      (if sm \<noteq> None then fold (ll_sampler_accept ll) tokens l else l) = (q, l')" by force
  have st': "st' = release_all owned pool model (st2\<lparr>nt_lib := l'\<rparr>)"
    using assms unfolding decode_generate_def Let_def st1_def [symmetric] s prod.case st2_def [symmetric] owned_def [symmetric] g
    by (cases q) simp_all
  moreover have "runs (set owned) {} (st2\<lparr>nt_lib := l'\<rparr>) (release_all owned pool model (st2\<lparr>nt_lib := l'\<rparr>))"
    by (rule runs_release_all) (simp_all add: owned_def)
  then have "runs (set owned) {} st2 (release_all owned pool model (st2\<lparr>nt_lib := l'\<rparr>))"
    by (simp add: runs_def)
  ultimately show ?thesis
    using st' quiet_release_all by (auto intro: runs_trans)
qed

lemma runs_lib [simp]: "runs a b (st\<lparr>nt_lib := l\<rparr>) st' = runs a b st st'" "runs a b st (st'\<lparr>nt_lib := l\<rparr>) = runs a b st st'"
  "runs a b (bitnet_backend_init_once st) st' = runs a b st st'"
  by (simp_all add: runs_def)

lemma decode_prompt_runs:
  assumes "decode_prompt ll model pool prompt n_predict n_ctx warmup_only interactive st = (r, st')"
  shows "runs {Context} {} st st' \<and> \<not> nt_quiet st'"
proof -
  obtain n toks l where t: "tokenize_prompt ll model prompt n_ctx (nt_lib st) = ((n, toks), l)"
    by (metis prod.collapse)
  define st1 where "st1 = st\<lparr>nt_lib := l\<rparr>"
  define tokens where "tokens = take (nat n) (toks @ replicate (nat n) 0)"
  define st2 where "st2 = log_event (Acquire Batch) st1"
  obtain rc l2 where d: "ll_decode ll tokens 0 (nt_lib st2) = (rc, l2)" by force
  have eq: "(r, st') = (if n \<le> 0 \<or> n_ctx \<le> n then ((- 5, []), release_all [Context] pool model st1)
      else if warmup_only then ((0, []), release_all [Context] pool model st1)
      else if rc \<noteq> 0 then ((- 6, []), release_all [Batch, Context] pool model (st2\<lparr>nt_lib := l2\<rparr>))
      else decode_generate ll model pool tokens n_predict n_ctx interactive (st2\<lparr>nt_lib := l2\<rparr>))"
    using assms [symmetric] unfolding decode_prompt_def Let_def t prod.case st1_def [symmetric] tokens_def [symmetric]
      st2_def [symmetric] d .
  have c: "runs {Context} {} st (release_all [Context] pool model st1)"
    using runs_release_all [of "[Context]" "{Context}" st1] by (simp add: st1_def)
  have b: "runs {Context} {Batch, Context} st st2"
    using runs_event(1) [of Batch "{Context}" "{Batch, Context}" st1] by (simp add: st2_def st1_def)
  have bc: "runs {Batch, Context} {} st2 (release_all [Batch, Context] pool model (st2\<lparr>nt_lib := l2\<rparr>))"
    using runs_release_all [of "[Batch, Context]" "{Batch, Context}" "st2\<lparr>nt_lib := l2\<rparr>"] by simp
  show ?thesis
    using eq c bc b decode_generate_runs [of ll model pool tokens n_predict n_ctx interactive "st2\<lparr>nt_lib := l2\<rparr>" r st']
      quiet_release_all by (auto intro: runs_trans split: if_splits)
qed

lemma get_threadpool_runs: "bitnet_get_threadpool ll n st = (r, st') \<Longrightarrow> runs live live st st'"
  by (auto simp: bitnet_get_threadpool_def runs_def log_event_def split: if_splits option.splits prod.splits)

lemma get_buffer_model_runs: "bitnet_get_buffer_model ll d n st = (r, st') \<Longrightarrow> runs live live st st'"
  by (auto simp: bitnet_get_buffer_model_def runs_def split: if_splits option.splits prod.splits)

lemma decode_context_runs:
  assumes "decode_context ll model prompt n_predict n_threads n_ctx warmup_only interactive st = (r, st')"
  shows "runs {} {} st st' \<and> \<not> nt_quiet st'"
proof -
  obtain c l where n: "ll_new_context ll model n_ctx n_threads (nt_lib st) = (c, l)" by force
  show ?thesis
  proof (cases c)
    case None
    then show ?thesis
      using assms n
      by (auto simp: decode_context_def bitnet_release_buffer_model_def runs_def log_event_def)
  next
    case (Some x)
    define st1 where "st1 = log_event (Acquire Context) (st\<lparr>nt_lib := l\<rparr>)"
    have a: "runs {} {Context} st st1"
      using runs_event(1) [of Context "{}" "{Context}" "st\<lparr>nt_lib := l\<rparr>"] by (simp add: st1_def)
    obtain p st2 where tp: "bitnet_get_threadpool ll n_threads st1 = (p, st2)" by force
    have b: "runs {Context} {Context} st1 st2"
      by (rule get_threadpool_runs [OF tp])
    have eq: "(r, st') = (if 1 < n_threads then
        (case p of None \<Rightarrow> ((- 12, []), release_all [Context] None model st2)
         | Some q \<Rightarrow> decode_prompt ll model (Some q) prompt n_predict n_ctx warmup_only interactive st2)
       else decode_prompt ll model None prompt n_predict n_ctx warmup_only interactive st1)"
      using assms [symmetric] unfolding decode_context_def n Some Let_def prod.case option.case st1_def [symmetric] tp .
    have "runs {Context} {} st1 st' \<and> \<not> nt_quiet st'"
      using eq b runs_release_all [of "[Context]" "{Context}" st2]
        decode_prompt_runs [of ll model _ prompt n_predict n_ctx warmup_only interactive _ r st']
      by (auto simp: quiet_release_all intro: runs_trans split: if_splits option.splits)
    then show ?thesis using a runs_trans by blast
  qed
qed

lemma decode_model_runs:
  assumes "decode_model ll data len prompt n_predict n_threads n_ctx warmup_only interactive st = (r, st')"
  shows "runs {} {} st st' \<and> \<not> nt_quiet st'"
proof -
  obtain gm l where gi: "ll_gguf_init ll data len (nt_lib st) = (gm, l)" by force
  show ?thesis
  proof (cases gm)
    case None
    then show ?thesis
      using assms gi by (auto simp: decode_model_def runs_refl)
  next
    case (Some x)
    obtain g meta where x: "x = (g, meta)" by force
    define st1 where "st1 = log_event (Acquire Gguf) (st\<lparr>nt_lib := l\<rparr>)"
    define st2 where "st2 = (if meta then log_event (Acquire Metadata) st1 else st1)"
    define live where "live = (if meta then {Gguf, Metadata} else {Gguf})"
    define fp where "fp = (\<lambda>st :: 'a native. log_event (Release Gguf) (if meta then log_event (Release Metadata) st else st))"
    have a: "runs {} live st st2"
      by (auto simp: st2_def st1_def live_def runs_def log_event_def)
    have f: "runs live {} s (fp s)" for s
      by (auto simp: fp_def live_def runs_def log_event_def)
    obtain m st3 where gm: "bitnet_get_buffer_model ll data len (bitnet_backend_init_once st2) = (m, st3)" by force
    have b: "runs live live st2 st3"
      using get_buffer_model_runs [OF gm] by simp
    have eq: "(r, st') = (if \<not> bitnet_validate_gguf_tensor_bounds g len then
         ((- 11, []), bitnet_set_setup_logs_quiet False (fp st2))
       else (case m of None \<Rightarrow> ((- 3, []), bitnet_set_setup_logs_quiet False (fp st3))
         | Some model \<Rightarrow> decode_context ll model prompt n_predict n_threads n_ctx warmup_only interactive (fp st3)))"
      using assms [symmetric]
      unfolding decode_model_def gi Some x Let_def prod.case option.case st1_def [symmetric] st2_def [symmetric] gm fp_def .
    have q: "runs s1 s2 st (bitnet_set_setup_logs_quiet False st9) = runs s1 s2 st st9" for s1 s2 st9
      by (simp add: runs_def)
    show ?thesis
      using eq runs_trans [OF a f] runs_trans [OF runs_trans [OF a b] f]
        decode_context_runs [of ll _ prompt n_predict n_threads n_ctx warmup_only interactive "fp st3" r st']
      by (auto simp: q intro: runs_trans split: if_splits option.splits)
  qed
qed

section \<open>Output and validation\<close>

lemma copy_generated_output:
  "length (bitnet_copy_generated_output answer out) = length out"
  "out \<noteq> [] \<Longrightarrow> 0 \<in> set (bitnet_copy_generated_output answer out)"
proof -
  let ?n = "min (length answer) (length out - 1)"
  have len: "length (overwrite out 0 (take ?n answer)) = length out"
    by (rule length_overwrite) simp
  then show "length (bitnet_copy_generated_output answer out) = length out"
    by (simp add: bitnet_copy_generated_output_def Let_def)
  assume "out \<noteq> []"
  then have "?n < length (overwrite out 0 (take ?n answer))"
    unfolding len by (cases out) auto
  then show "0 \<in> set (bitnet_copy_generated_output answer out)"
    using \<open>out \<noteq> []\<close> set_update_memI by (simp add: bitnet_copy_generated_output_def Let_def)
qed

lemma tensor_bounds_loop_inside:
  assumes "tensor_bounds_loop d len ts" and "(off, sz) \<in> set ts"
  shows "unat d + unat off + unat sz \<le> unat len"
  using assms
proof (induction d len ts rule: tensor_bounds_loop.induct)
  case (2 d len o1 s1 ts)
  have top: "unat (- 1 - d) = 2 ^ 64 - 1 - unat d" for d :: u64
    by (simp add: unat_sub unsigned_minus_1_eq_mask mask_eq_exp_minus_1)
  have head: "unat d + unat o1 + unat s1 \<le> unat len"
    if c: "\<not> (- 1 - d < o1 \<or> - 1 - d - o1 < s1)" "\<not> len < d + o1 + s1"
  proof -
    have o: "unat o1 \<le> 2 ^ 64 - 1 - unat d"
      using c(1) top [of d] by (simp add: word_less_nat_alt)
    then have "unat (- 1 - d - o1) = 2 ^ 64 - 1 - unat d - unat o1"
      using top [of d] by (simp add: unat_sub word_le_nat_alt)
    then have "unat s1 \<le> 2 ^ 64 - 1 - unat d - unat o1"
      using c(1) by (simp add: word_less_nat_alt)
    then have "unat (d + o1 + s1) = unat d + unat o1 + unat s1"
      using o unat_lt64 [of d] unat_add64 [of d o1] unat_add64 [of "d + o1" s1] by simp
    then show ?thesis using c(2) by (simp add: word_less_nat_alt)
  qed
  show ?case
    using 2 head by (auto split: if_splits)
qed simp

lemma decode_buffer_out:
  assumes "hermit_bitnet_prompt_decode_from_buffer ll data len prompt n_predict n_threads n_ctx out st = ((ret, out'), st')"
  shows "length out' = length out" "out \<noteq> [] \<Longrightarrow> 0 \<in> set out'"
proof -
  define out0 where "out0 = (if out \<noteq> [] then out[0 := 0] else out)"
  have out0: "length out0 = length out" "out \<noteq> [] \<Longrightarrow> 0 \<in> set out0" "out = [] \<longleftrightarrow> out0 = []"
    by (auto simp: out0_def set_update_memI)
  obtain answer where "out' = bitnet_copy_generated_output answer out0 \<or> out' = out0"
    using assms unfolding hermit_bitnet_prompt_decode_from_buffer_def Let_def out0_def [symmetric]
    by (auto split: option.splits if_splits prod.splits)
  then show "length out' = length out" "out \<noteq> [] \<Longrightarrow> 0 \<in> set out'"
    using out0 copy_generated_output [of answer out0] copy_generated_output(2) [of out0 answer] by auto
qed

section \<open>Properties\<close>





end
