(* ===== verification/Machine.thy ===== *)
theory Machine
  imports RamShellLaws Console NativeDecoder MemoryDbDurable
begin

text \<open>
  The whole machine: the application of \<open>RamShell\<close> running on the kernel's console, its
  memory database and the native decoder.  The application's system calls are the kernel's own
  definitions, and the contract \<open>app_kernel\<close> is discharged for them on every disk that keeps the hardware
  contract.  What the drivers print for diagnosis is left out of the console.
\<close>

section \<open>The composed system\<close>

record ('d, 'u, 'l, 'c) machine =
  m_ahci :: "'d ahci"
  m_con :: "'u console"
  m_native :: "('l \<times> bool \<times> stdin_read list) native"
  m_clock :: 'c

text \<open>
  The library as the decoder sees it inside the application: the abort callback is
  \<open>bitapp_generation_should_abort\<close>, which reads standard input and sets the abort flag.
\<close>

definition lib_call :: "('l \<Rightarrow> 'r \<times> 'l) \<Rightarrow> 'l \<times> 'x \<Rightarrow> 'r \<times> 'l \<times> 'x" where
  "lib_call f = (\<lambda>(l, x). case f l of (r, l) \<Rightarrow> (r, l, x))"

definition abort_poll :: "'l llama \<Rightarrow> ('l \<times> bool \<times> stdin_read list) llama" where
  "abort_poll ll =
     \<lparr>ll_gguf_init = (\<lambda>a b. lib_call (ll_gguf_init ll a b)),
      ll_load_model = (\<lambda>a b. lib_call (ll_load_model ll a b)),
      ll_new_context = (\<lambda>a b c. lib_call (ll_new_context ll a b c)),
      ll_threadpool_new = (\<lambda>a. lib_call (ll_threadpool_new ll a)),
      ll_tokenize = (\<lambda>a b c. lib_call (ll_tokenize ll a b c)),
      ll_decode = (\<lambda>a b. lib_call (ll_decode ll a b)),
      ll_logits_available = (\<lambda>(l, x). ll_logits_available ll l),
      ll_sampler_new = lib_call (ll_sampler_new ll),
      ll_sampler_sample = lib_call (ll_sampler_sample ll),
      ll_sampler_accept = (\<lambda>a (l, x). (ll_sampler_accept ll a l, x)),
      ll_token_eos = ll_token_eos ll,
      ll_token_is_eog = ll_token_is_eog ll,
      ll_token_to_piece = ll_token_to_piece ll,
      ll_should_abort = (\<lambda>(l, aborted, input).
        case bitapp_generation_should_abort input aborted of (ret, x) \<Rightarrow> (ret \<noteq> 0, l, x))\<rparr>"

text \<open>The decoder call of the application, with the abort flag as the caller left it.\<close>

definition decode_call ::
  "'l llama \<Rightarrow> u64 \<Rightarrow> u64 \<Rightarrow> bytes \<Rightarrow> int \<Rightarrow> int \<Rightarrow> int \<Rightarrow> bytes \<Rightarrow> bool \<Rightarrow>
     ('l \<times> bool \<times> stdin_read list) native \<Rightarrow> (int \<times> bytes \<times> bool) \<times> ('l \<times> bool \<times> stdin_read list) native" where
  "decode_call ll data len prompt n_predict n_threads n_ctx out aborted st =
     (let st = st\<lparr>nt_lib := (fst (nt_lib st), aborted, snd (snd (nt_lib st)))\<rparr>
      in case hermit_bitnet_prompt_decode_from_buffer (abort_poll ll) data len (Some prompt) n_predict n_threads n_ctx out st of
           ((ret, out), st) \<Rightarrow> ((ret, out, fst (snd (nt_lib st))), st))"

definition kernel_sys ::
  "'d hba \<Rightarrow> 'u io_ops \<Rightarrow> 'l llama \<Rightarrow> ('c \<Rightarrow> u64 \<times> 'c) \<Rightarrow> bytes option \<Rightarrow> bytes option \<Rightarrow>
     ('d, 'u, 'l, 'c) machine bitapp_sys" where
  "kernel_sys hba io ll ticks smp n_threads =
     \<lparr>os_stdout = (\<lambda>s w. w\<lparr>m_con := snd (generic_stdout_write io (m_con w) s)\<rparr>),
      os_append_memory_db = (\<lambda>d w. case sys_append_memory_db hba (m_ahci w) (Some d) of (r, a) \<Rightarrow> (r, w\<lparr>m_ahci := a\<rparr>)),
      os_read_memory_db = (\<lambda>n w. case sys_read_memory_db hba (m_ahci w) (Some n) of (r, a) \<Rightarrow> (r, w\<lparr>m_ahci := a\<rparr>)),
      os_erase_memory_db = (\<lambda>w. case sys_erase_memory_db hba (m_ahci w) of (r, a) \<Rightarrow> (r, w\<lparr>m_ahci := a\<rparr>)),
      os_console_log_len = (\<lambda>w. sys_console_log_len (con_log (m_con w))),
      os_read_console_log = (\<lambda>offset out w.
        case sys_read_console_log (con_log (m_con w)) offset (Some out) (length out) of (r, out') \<Rightarrow> (r, the out')),
      os_set_console_log_capture = (\<lambda>e w.
        case sys_set_console_log_capture (con_log (m_con w)) e of (r, l) \<Rightarrow> (r, w\<lparr>m_con := (m_con w)\<lparr>con_log := l\<rparr>\<rparr>)),
      os_get_timer_ticks = (\<lambda>w. case ticks (m_clock w) of (t, c) \<Rightarrow> (t, w\<lparr>m_clock := c\<rparr>)),
      os_decode = (\<lambda>data len prompt np nt nc out aborted w.
        case decode_call ll data len prompt np nt nc out aborted (m_native w) of (r, n) \<Rightarrow> (r, w\<lparr>m_native := n\<rparr>)),
      env_enable_smp_pthread = smp, env_n_threads = n_threads\<rparr>"

section \<open>What the application relies on\<close>

definition db_stored :: "('d \<Rightarrow> nat \<Rightarrow> bytes) \<Rightarrow> nat \<Rightarrow> nat \<Rightarrow> ('d, 'u, 'l, 'c) machine \<Rightarrow> bytes \<Rightarrow> bool" where
  "db_stored sect port L w log \<longleftrightarrow> (\<exists>payloads. concat payloads = log \<and> db_open sect port L (m_ahci w) payloads)"

definition con_capture :: "('d, 'u, 'l, 'c) machine \<Rightarrow> bool" where
  "con_capture w = cl_capture_enabled (con_log (m_con w))"

lemma db_stored_cong: "m_ahci w' = m_ahci w \<Longrightarrow> db_stored sect port L w' = db_stored sect port L w"
  by (rule ext) (simp add: db_stored_def)

lemma kernel_sys_simps:
  "os_stdout (kernel_sys hba io ll ticks smp n_threads) s w = w\<lparr>m_con := snd (generic_stdout_write io (m_con w) s)\<rparr>"
  "os_get_timer_ticks (kernel_sys hba io ll ticks smp n_threads) w = (fst (ticks (m_clock w)), w\<lparr>m_clock := snd (ticks (m_clock w))\<rparr>)"
  by (simp_all add: kernel_sys_def split: prod.split)

lemma stdout_capture:
  "cl_capture_enabled (con_log (snd (generic_stdout_write io con buf))) = cl_capture_enabled (con_log con)"
  using stdout_kept [of io con buf] by (cases "generic_stdout_write io con buf") (simp add: log_kept_def)

section \<open>The buffer bound of a database read\<close>

lemma read_entry_loop_len:
  "read_entry_loop hba st u s payload off n acc = (Inr (n', acc'), st') \<Longrightarrow> length acc' + n' \<le> length acc + n"
proof (induction hba st u s payload off n acc rule: read_entry_loop.induct)
  case (1 hba st u s payload off n acc)
  from 1(2) show ?case
    by (subst (asm) read_entry_loop.simps)
      (auto simp: Let_def try_q_def split: if_splits option.splits prod.splits sum.splits dest!: 1(1) [rotated -1])
qed

lemma read_entries_loop_len:
  "read_entries_loop hba st u lba used k n acc = (Inr b, st') \<Longrightarrow> length b \<le> length acc + n"
proof (induction k arbitrary: st n acc)
  case (Suc k)
  have "length b \<le> length acc + n"
    if "read_entry_loop hba st1 u s p 0 n acc = (Inr (n1, acc1), st2)" "read_entries_loop hba st2 u lba used k n1 acc1 = (Inr b, st')"
    for st1 s p n1 acc1 st2
    using Suc.IH [OF that(2)] read_entry_loop_len [OF that(1)] by simp
  then show ?case
    using Suc.prems by (auto simp: try_q_def split: if_splits prod.splits sum.splits)
qed auto

lemma read_memory_db_len: "read_memory_db hba st (Some n) = (Inr b, st') \<Longrightarrow> length b \<le> n"
  by (auto simp: read_memory_db_def read_entries_def try_q_def Let_def split: if_splits option.splits prod.splits sum.splits
      dest!: read_entries_loop_len)

section \<open>The kernel keeps the contract\<close>

lemma i32_of_nat: "0 \<le> i32_try_from_or_max n" "i32_try_from_or_max n \<le> int n" "n \<le> 65536 \<Longrightarrow> i32_try_from_or_max n = int n"
  by (simp_all add: i32_try_from_or_max_def i32_max_def)

lemma console_log_read_len:
  assumes "console_log_read l offset out = (n, out')"
  shows "n \<le> length out \<and> length out' = length out"
proof -
  have sub: "length (subslice xs i j) \<le> j - i" for xs :: bytes and i j
    by (simp add: subslice_def)
  have ow: "length (overwrite xs i (subslice ys a b)) = length xs" if "i + (b - a) \<le> length xs" for xs ys :: bytes and i a b
    using sub [of ys a b] that by (intro length_overwrite) simp
  show ?thesis
  proof (cases "cl_len l \<le> offset \<or> out = []")
    case True
    then show ?thesis using assms by (auto simp: console_log_read_def)
  next
    case False
    define n1 where "n1 = min (cl_len l - offset) (length out)"
    define i where "i = (cl_start l + offset) mod CONSOLE_LOG_CAPACITY"
    define k where "k = min (CONSOLE_LOG_CAPACITY - i) n1"
    define o1 where "o1 = overwrite out 0 (subslice (cl_buffer l) i (i + k))"
    have k: "k \<le> n1" "n1 \<le> length out" unfolding k_def n1_def by (rule min.cobounded2)+
    then have o1: "length o1 = length out" by (simp add: o1_def ow)
    have "n = n1" "out' = (if 0 < n1 - k then overwrite o1 k (subslice (cl_buffer l) 0 (n1 - k)) else o1)"
      using assms unfolding console_log_read_def Let_def if_not_P [OF False] n1_def [symmetric] i_def [symmetric] k_def [symmetric] o1_def [symmetric]
      by auto
    then show ?thesis
      using k o1 ow [of k "n1 - k" 0 o1 "cl_buffer l"] by simp
  qed
qed

lemma sys_read_console_log_len:
  assumes "sys_read_console_log l offset (Some out) (length out) = (r, out')"
  shows "r \<le> int (length out) \<and> length (the out') = length out"
proof -
  obtain n o1 where c: "console_log_read l offset out = (n, o1)" by force
  show ?thesis
    using assms console_log_read_len [OF c] i32_of_nat(2) [of n]
    by (auto simp: sys_read_console_log_def c split: if_splits)
qed

lemma decode_call_len:
  assumes "decode_call ll data len prompt np nt nc out ab st = ((ret, out', ab'), st')"
  shows "length out' = length out"
  using assms by (auto simp: decode_call_def Let_def split: prod.splits dest!: decode_buffer_out(1))

text \<open>A database whose log fits in the application's history fits in its reserved range.\<close>

lemma small_log_fits:
  assumes "length (concat payloads) \<le> 65536" and "length payloads \<le> 992"
  shows "db_fits L payloads"
proof -
  have "sum_list (map (secs \<circ> length) ps) \<le> length (concat ps) div 512 + length ps" for ps :: "bytes list"
  proof (induction ps)
    case (Cons p ps)
    then show ?case by (simp add: secs_def)
  qed simp
  from this [of payloads] show ?thesis
    using assms by (simp add: db_fits_def log_start_def db_layout)
qed

locale bitapp_machine = memory_db_disk hba sect inflight port L model_start model_last
  for hba :: "'d hba" and sect inflight port L model_start model_last +
  fixes io :: "'u io_ops" and ll :: "'l llama" and ticks :: "'c \<Rightarrow> u64 \<times> 'c" and smp n_threads :: "bytes option"

sublocale bitapp_machine \<subseteq> app_kernel "kernel_sys hba io ll ticks smp n_threads" "db_stored sect port L" con_capture
proof
  fix w w' :: "('d, 'u, 'l, 'c) machine" and log s d r n b rb e offset out out' mp ml p np nt nc ab x ret ab' t
  let ?os = "kernel_sys hba io ll ticks smp n_threads"
  show "db_stored sect port L w log \<Longrightarrow> db_stored sect port L (os_stdout ?os s w) log"
    by (subst db_stored_cong) (simp_all add: kernel_sys_def)
  show "con_capture (os_stdout ?os s w) = con_capture w"
    by (simp add: kernel_sys_def con_capture_def stdout_capture)
  show "db_stored sect port L w' (log @ d)"
    if st: "db_stored sect port L w log" "d \<noteq> []" "os_append_memory_db ?os d w = (r, w')" "0 \<le> r"
  proof -
    obtain ps where ps: "concat ps = log" "db_open sect port L (m_ahci w) ps"
      using st(1) unfolding db_stored_def by blast
    obtain q a where ap: "append_memory_db hba (m_ahci w) (Some d) = (q, a)" by force
    obtain m where m: "q = Inr m" "m_ahci w' = a"
      using st(3,4) ap by (cases q) (auto simp: kernel_sys_def sys_append_memory_db_def ENOSPC_def split: prod.splits)
    then have "db_open sect port L a (ps @ [d])"
      using append_ok [OF ps(2) st(2)] ap by blast
    then show ?thesis
      using ps(1) m(2) unfolding db_stored_def by (intro exI [of _ "ps @ [d]"]) simp
  qed
  show "con_capture w' = con_capture w" if "os_append_memory_db ?os d w = (r, w')"
    using that by (auto simp: kernel_sys_def con_capture_def split: prod.splits)
  show "db_stored sect port L w' []" if st: "db_stored sect port L w log" "os_erase_memory_db ?os w = (r, w')" "0 \<le> r"
  proof -
    obtain ps where ps: "port_ready port (m_ahci w)" "memory_db_header_lba (m_ahci w) = Some (w64 L)"
      "db_log (sect (dev (m_ahci w))) L ps"
      using st(1) unfolding db_stored_def db_open_def db_synced_def by blast
    obtain q a where er: "erase_memory_db hba (m_ahci w) = (q, a)" by force
    have "q = Inr ()" "m_ahci w' = a"
      using st(2,3) er by (cases q; auto simp: kernel_sys_def sys_erase_memory_db_def EIO_def split: prod.splits)+
    then have "db_open sect port L (m_ahci w') []"
      using erase_law [OF ps er] ps(1,2) keeps_ready [of "m_ahci w" a] only_devD(1) [of "m_ahci w" a] by (simp add: db_open_def)
    then show ?thesis
      unfolding db_stored_def by (intro exI [of _ "[]"]) simp
  qed
  show "con_capture w' = con_capture w" if "os_erase_memory_db ?os w = (r, w')"
    using that by (auto simp: kernel_sys_def con_capture_def split: prod.splits)
  show "db_stored sect port L w' log \<and> (0 \<le> r \<longrightarrow> b = take n log \<and> r = int (length b))"
    if st: "db_stored sect port L w log" "n \<le> RAM_SHELL_HISTORY_CAP_BYTES" "os_read_memory_db ?os n w = ((r, b), w')"
  proof (cases "n = 0")
    case True
    then show ?thesis
      using st by (auto simp: kernel_sys_def sys_read_memory_db_def)
  next
    case False
    obtain ps where ps: "concat ps = log" "port_ready port (m_ahci w)" "memory_db_header_lba (m_ahci w) = Some (w64 L)"
      "db_log (sect (dev (m_ahci w))) L ps" "db_synced (sect (dev (m_ahci w))) L ps"
      using st(1) unfolding db_stored_def db_open_def db_synced_def by blast
    obtain q a where rd: "read_memory_db hba (m_ahci w) (Some n) = (q, a)" by force
    note law = read_law [OF ps(2-4) disjI1 [OF ps(5)] rd]
    have q: "w' = w\<lparr>m_ahci := a\<rparr>" "(r, b) = (case q of Inr bs \<Rightarrow> (i32_try_from_or_max (length bs), bs) | Inl _ \<Rightarrow> (- EIO, []))"
      using st(3) rd False by (auto simp: kernel_sys_def sys_read_memory_db_def split: sum.splits prod.splits)
    have "db_open sect port L a ps"
      using law ps(2,3,5) keeps_ready [of "m_ahci w" a] only_devD(1) [of "m_ahci w" a] by (simp add: db_open_def)
    then have "db_stored sect port L w' log"
      using q(1) ps(1) unfolding db_stored_def by (intro exI [of _ ps]) simp
    moreover have "b = take n log \<and> r = int (length b)" if "0 \<le> r"
      using that law q(2) ps(1) i32_of_nat(3) [of "length (take n log)"] st(2)
      by (cases q) (auto simp: EIO_def RAM_SHELL_HISTORY_CAP_BYTES_def)
    ultimately show ?thesis by blast
  qed
  show "length b \<le> n" if "os_read_memory_db ?os n w = ((r, b), w')"
    using that by (auto simp: kernel_sys_def sys_read_memory_db_def split: prod.splits sum.splits if_splits dest: read_memory_db_len)
  show "con_capture w' = con_capture w" if "os_read_memory_db ?os n w = (rb, w')"
    using that by (auto simp: kernel_sys_def con_capture_def split: prod.splits)
  show "con_capture w' = (e \<noteq> 0)" if "os_set_console_log_capture ?os e w = (r, w')"
    using that by (auto simp: kernel_sys_def con_capture_def sys_set_console_log_capture_def console_log_set_capture_enabled_def)
  show "db_stored sect port L w' log" if "db_stored sect port L w log" "os_set_console_log_capture ?os e w = (r, w')"
    using that by (auto simp: kernel_sys_def db_stored_def split: prod.splits)
  show "r \<le> int (length out) \<and> length out' = length out" if "os_read_console_log ?os offset out w = (r, out')"
    using that by (auto simp: kernel_sys_def split: prod.splits dest: sys_read_console_log_len)
  show "db_stored sect port L w' log" if "db_stored sect port L w log" "os_decode ?os mp ml p np nt nc out ab w = (x, w')"
    using that by (auto simp: kernel_sys_def db_stored_def split: prod.splits)
  show "con_capture w' = con_capture w" if "os_decode ?os mp ml p np nt nc out ab w = (x, w')"
    using that by (auto simp: kernel_sys_def con_capture_def split: prod.splits)
  show "length out' = length out" if "os_decode ?os mp ml p np nt nc out ab w = ((ret, out', ab'), w')"
    using that by (auto simp: kernel_sys_def split: prod.splits dest: decode_call_len)
  show "db_stored sect port L w' log" if "db_stored sect port L w log" "os_get_timer_ticks ?os w = (t, w')"
    using that by (auto simp: kernel_sys_def db_stored_def split: prod.splits)
  show "con_capture w' = con_capture w" if "os_get_timer_ticks ?os w = (t, w')"
    using that by (auto simp: kernel_sys_def con_capture_def split: prod.splits)
qed

end
