(* ===== verification/MachineProps.thy ===== *)
theory MachineProps
  imports Machine MemoryDbProps
begin

text \<open>
  The properties of the whole machine: the application on the kernel's own system calls, over
  any disk that keeps the hardware contract, with an instance of each on the reference machine.
\<close>

context bitapp_machine
begin

lemmas machine_step = ram_shell_step_result
  and machine_run = ram_shell_run_result
  and machine_boot = run_ok
  and machine_history = run_history

lemma machine_recover:
  assumes "db_open sect port L a ps" and "db_fits L ps" and "db_restart hba sect port L a a1"
    and "ensure_memory_db hba a1 (w64 L) model_start model_last = (Inr u, a2)"
  shows "db_open sect port L a2 ps"
  using recover_ok [OF open_on_disk [OF assms(1,2)] assms(3,4)] .

end

lemma bitapp_machineI: "ata_disk hba sect inflight port \<Longrightarrow> bitapp_machine hba sect inflight port"
  by (simp add: bitapp_machine_def memory_db_disk_def)

section \<open>The reference machine\<close>

definition ref_ticks :: "nat \<Rightarrow> u64 \<times> nat" where
  "ref_ticks n = (word_of_nat n, n + 1)"

definition ref_machine :: "ref_disk ahci \<Rightarrow> (ref_disk, bytes, nat, nat) machine" where
  "ref_machine a = \<lparr>m_ahci = a, m_con = list_console,
     m_native = \<lparr>nt_lib = (0, False, []), nt_trace = [], nt_backend_initialized = False, nt_cached_model = None,
       nt_threadpool = None, nt_quiet = False\<rparr>, m_clock = 0\<rparr>"

interpretation refm: bitapp_machine ref_hba ref_sect ref_inflight ref_port 1000 0 0 list_io tiny_llama ref_ticks None None
  by unfold_locales

abbreviation ref_os :: "(ref_disk, bytes, nat, nat) machine bitapp_sys" where
  "ref_os \<equiv> kernel_sys ref_hba list_io tiny_llama ref_ticks None None"

lemma ref_machine_capture: "con_capture (ref_machine a)"
  by (simp add: con_capture_def ref_machine_def list_console_def console_log_new_capture)

lemma ref_machine_stored: "ref_db log a \<Longrightarrow> db_stored ref_sect ref_port 1000 (ref_machine a) (concat log)"
  unfolding db_stored_def by (rule exI [of _ log]) (simp add: ref_machine_def ref_db_open(6))

text \<open>
  A shell that has answered one question, with a command typed and the answer not yet saved.
\<close>

definition ref_session :: "qa_record list \<times> bytes" where
  "ref_session = session_cmd_apply (Ask (ascii ''hi'') (ascii ''yes'')) ([], [])"

definition ref_shell :: "bytes \<Rightarrow> ref_disk ahci \<Rightarrow> (ref_disk, bytes, nat, nat) machine ram_shell" where
  "ref_shell line a = \<lparr>sh_line = line @ replicate (RAM_SHELL_LINE_LEN - length line) 0, sh_line_len = length line,
     sh_mode = Command, sh_log_offset = 0, sh_delta = snd ref_session, sh_history = fst ref_session,
     sh_world = ref_machine a\<rparr>"

lemma ref_session_ok: "session_bounded (fst ref_session) (snd ref_session)" "keys_unique (fst ref_session)"
  "session_synced [] (fst ref_session) (snd ref_session)" "snd ref_session \<noteq> []" "length (snd ref_session) \<le> 100" "fst ref_session \<noteq> []"
proof -
  have e: "session_cmd_apply (Ask (ascii ''hi'') (ascii ''yes'')) ([], []) = (fst ref_session, snd ref_session)"
    by (simp add: ref_session_def)
  have size: "session_cmd_size (Ask (ascii ''hi'') (ascii ''yes'')) \<le> 100" by (simp add: ascii_def)
  then have "session_cmd_size (Ask (ascii ''hi'') (ascii ''yes'')) \<le> SESSION_CMD_MAX"
    by (simp add: SESSION_CMD_MAX_def BITNET_OUTPUT_BUF_LEN_def)
  then show "session_bounded (fst ref_session) (snd ref_session)"
    using session_cmd_bounded [OF _ e] by (simp add: session_bounded_def history_payload_len_def)
  show "keys_unique (fst ref_session)"
    using keys_unique_cmd [OF _ e] by (simp add: keys_unique_def List.map_filter_simps)
  show "session_synced [] (fst ref_session) (snd ref_session)" "length (snd ref_session) \<le> 100"
    using session_cmd_synced [OF session_synced_empty _ e] size by (simp_all add: RAM_SHELL_HISTORY_CAP_BYTES_def)
  show "snd ref_session \<noteq> []" "fst ref_session \<noteq> []"
    by (simp_all add: ref_session_def append_to_history_def Let_def append_serialized_qa_def upsert_history_record_def)
qed

lemma ref_shell_inv:
  "list_all printable line \<Longrightarrow> length line < RAM_SHELL_LINE_LEN \<Longrightarrow> shell_inv con_capture (ref_shell line a)"
  using ref_session_ok ref_machine_capture by (simp add: shell_inv_def ref_shell_def)

lemma ref_shell_calls:
  assumes "ref_db [] a"
  shows "\<exists>a'. sys_append_memory_db ref_hba a (Some (snd ref_session)) = (int (length (snd ref_session)), a') \<and>
      ref_db [snd ref_session] a'"
    and "\<not> append_failed ref_os (put_out ref_os [10] (ref_shell line a))"
    and "\<not> call_failed ref_os (put_out ref_os [10] (ref_shell line a))"
proof -
  have "\<exists>a'. append_memory_db ref_hba a (Some (snd ref_session)) = (Inr (length (snd ref_session)), a') \<and> ref_db [snd ref_session] a'"
    using ref_append [OF assms ref_session_ok(4)] ref_session_ok(5) by (simp add: log_start_def secs_def db_layout)
  then show ap: "\<exists>a'. sys_append_memory_db ref_hba a (Some (snd ref_session)) = (int (length (snd ref_session)), a') \<and>
      ref_db [snd ref_session] a'"
    using i32_of_nat(3) [of "length (snd ref_session)"] ref_session_ok(5) by (auto simp: sys_append_memory_db_def)
  show *: "\<not> append_failed ref_os (put_out ref_os [10] (ref_shell line a))"
    using ap by (auto simp: append_failed_def put_out_def ref_shell_def ref_machine_def kernel_sys_def)
  note o = ref_db_open [OF assms]
  have "returns_ok (erase_memory_db ref_hba a)"
    using ref.erase_live [OF o(1,2) ref_db_io [OF assms] o(4,5)] by simp
  then have "0 \<le> fst (sys_erase_memory_db ref_hba a)"
    by (auto simp: sys_erase_memory_db_def returns_ok_def split: prod.splits sum.splits)
  then show "\<not> call_failed ref_os (put_out ref_os [10] (ref_shell line a))"
    using * by (auto simp: call_failed_def put_out_def ref_shell_def ref_machine_def kernel_sys_def split: prod.splits)
qed

text \<open>A database read after a restart does not fail when the disk answers reads.\<close>

lemma db_registers_reads: "db_registers L st st' \<Longrightarrow> reads_ok hba st \<Longrightarrow> reads_ok hba st'"
proof -
  assume "db_registers L st st'" and ok: "reads_ok hba st"
  then have "first_sata_port st' = first_sata_port st" "first_sata_port_cl st' = first_sata_port_cl st"
    by (cases st, cases st', auto simp: db_registers_def memory_db_register_state_def)+
  then show ?thesis using ok reads_ok_statics by blast
qed

lemma restarted_read_ok:
  assumes disk: "ata_disk hba sect inflight port" and op: "db_open sect port L a log" and "reads_ok hba a"
    and "ssd_sector_count a = Some cap" and "m_ahci w = a" and "n \<le> 65536"
  shows "0 \<le> fst (fst (os_read_memory_db (kernel_sys hba io ll ticks smp n_threads) n w))"
proof -
  have st: "port_ready port a" "memory_db_header_lba a = Some (w64 L)" "db_synced (sect (dev a)) L log"
    "db_log (sect (dev a)) L log"
    using op by (auto simp: db_open_def db_synced_def)
  obtain q a' where rd: "read_memory_db hba a (Some n) = (q, a')" by force
  show ?thesis
    using ata_disk.read_law [OF disk st(1,2,4) disjI1 [OF st(3)] rd] assms(3-5) rd i32_of_nat(1)
    by (auto simp: kernel_sys_def sys_read_memory_db_def)
qed

lemma ref_restart:
  assumes st1: "ref_db log st1"
  obtains st3 where "db_restart ref_hba ref_sect ref_port 1000 st1 (st1\<lparr>memory_db_header_lba := None\<rparr>)"
    "ensure_memory_db ref_hba (st1\<lparr>memory_db_header_lba := None\<rparr>) (w64 1000) 0 0 = (Inr (), st3)"
proof -
  let ?st2 = "st1\<lparr>memory_db_header_lba := None\<rparr>"
  have io: "io_ok ref_hba ?st2"
    using st1 by (intro ref_io_ok [where cl = 0]) (auto simp: ref_db_def)
  have r2: "port_ready ref_port ?st2" "ssd_sector_count ?st2 = Some 4000000" "memory_db_header_lba ?st2 = None"
    using ref_db_open [OF st1] by (auto simp: port_ready_def)
  have boot: "db_restart ref_hba ref_sect ref_port 1000 st1 ?st2"
    using r2 io_ok_reads [OF io] by (auto simp: db_restart_def)
  obtain r st3 where en: "ensure_memory_db ref_hba ?st2 (w64 1000) 0 0 = (r, st3)" by force
  have "r = Inr ()"
    using ref.ensure_live [OF r2(1) io ref_bound(1) r2(2), of 0 0] r2(3) returns_okD [OF _ en] by auto
  then show thesis using that boot en by blast
qed

section \<open>Properties\<close>







end
