(* ===== verification/Spec2Isabelle.thy ===== *)
theory Spec2Isabelle
  imports ModelCacheProps AhciController MachineProps
begin

text \<open>
  Verification of the Hermit localLLM unikernel: a kernel (\<open>kernel/\<close>) that boots one application
  (\<open>bitapp/\<close>), a question/answer shell around a native language-model decoder.  The model file is
  cached on an AHCI disk, what the user teaches the shell is kept in an append-only log on the same
  disk, and input and output go through a PS/2 keyboard, a serial line and a captured console log.

  \<^bold>\<open>How the parts interact.\<close>  The shell (\<open>bitapp/src/hermit_app.rs\<close>) is called by the kernel with the
  address of the model; it reads keys from standard input, edits a line, answers from its history or
  runs the decoder (\<open>bitapp/native/bitnet/hermit_bitnet.cpp\<close>), and appends what it learned to the memory
  database through three system calls (\<open>kernel/src/syscalls/mod.rs\<close>).  The database and the model cache
  share the sector transfers of the AHCI driver (\<open>kernel/src/drivers/storage/ahci.rs\<close>).

  \<^bold>\<open>Conventions.\<close>  Machine integers are words of their width (\<open>u8\<close> to \<open>u64\<close> in \<open>Prelude\<close>), with Rust's
  saturating, checked and wrapping operations written out; \<open>usize\<close> values that index slices are natural
  numbers.  A \<open>Result\<close> is a sum with the error on the left, an \<open>Option\<close> an option; where a slice index or
  an \<open>unwrap\<close> can panic, the operation has an option result and \<^const>\<open>None\<close> is the panic.  Static cells are
  fields of the component's state record and every operation returns the new state.  Devices and
  libraries outside the sources are records of functions over a state of their own type: \<open>'d hba\<close> (the
  adapter's registers, its memory and its disk), \<open>'k i8042\<close> (two ports), \<open>'u io_ops\<close> (the serial line),
  \<open>'l llama\<close> (the inference library).

  \<^bold>\<open>Storage.\<close>
  \<^item> \<open>Ahci\<close>: command tables, \<open>transfer_sectors\<close>, \<open>read_sectors\<close>, \<open>write_sectors\<close>, \<open>identify_device\<close>.  The
    locale \<open>ata_disk\<close> states what the hardware does with a command it is given; the sublocale
    \<open>sector_store\<close> turns this into laws of reading and writing, which is all the clients use.  It is
    interpreted (\<open>ref\<close>) on a disk that decodes the command tables the driver builds.
  \<^item> \<open>AhciController\<close>: \<open>enumerate_controller\<close>, the adapter reset and the set-up of each port.
  \<^item> \<open>MemoryDb\<close>: header, map and data sectors and the operations \<open>append_memory_db\<close>, \<open>read_memory_db\<close>,
    \<open>erase_memory_db\<close>, \<open>ensure_memory_db\<close>.  \<open>MemoryDbLog\<close> gives the abstract log a set of sectors stands
    for; \<open>MemoryDbAppend\<close>, \<open>MemoryDbRead\<close>, \<open>MemoryDbInit\<close> and \<open>MemoryDbLive\<close> prove each operation against it,
    with a write failing at any point; \<open>MemoryDbDurable\<close> packs the contract as the locale \<open>durable_log\<close> and
    proves crash recovery in it; \<open>MemoryDbProps\<close> states the results over the driver.
  \<^item> \<open>ModelCache\<close>, \<open>ModelCacheLaws\<close>, \<open>ModelCacheProps\<close>: the GPT scan, \<open>write_raw_model_cache\<close>, the discovery
    and the load of the cached model, and \<open>dump_boot_log\<close>: round trip, crash safety, and what
    each writer may overwrite of the others' sectors.

  \<^bold>\<open>Application.\<close>
  \<^item> \<open>QaText\<close>, \<open>QaTextLaws\<close>: the byte-string routines and their reference definitions on lists of words.
  \<^item> \<open>QaHistory\<close>, \<open>QaHistoryLaws\<close>, \<open>QaSession\<close>: the bounded record list, its serialised form and the two
    parsers.  The locale \<open>keyed_store\<close> is the map the history implements; replaying the log of a session
    rebuilds its history.
  \<^item> \<open>RamShell\<close>, \<open>RamShellLaws\<close>: every shell command, prompt and viewer key as one transition per input event.
    The locale \<open>app_kernel\<close> is what the shell needs of the kernel; under it the shell never panics, keeps
    its buffers bounded, and is simulated by the step relation \<open>session_step\<close> on log, history and delta.
  \<^item> \<open>NativeDecoder\<close>: tensor bounds of the model file, stop rules, and the prompt decode over the library's
    calls, with an account of the objects created and freed.

  \<^bold>\<open>Console and keyboard.\<close>
  \<^item> \<open>ConsoleLog\<close>: the captured log as a ring that keeps the newest bytes.
  \<^item> \<open>Console\<close>: the line buffer, the copy of all output into the log, standard input, output and error.
  \<^item> \<open>Ps2Keyboard\<close>: handshake, both scan code sets, the key queue (locale \<open>bounded_queue\<close>) and polling.

  \<^bold>\<open>The whole machine.\<close>  \<open>Machine\<close> binds the application's system calls to the kernel operations above and
  proves that \<open>bitapp_machine\<close>, a disk keeping the hardware contract with an open database, provides
  \<open>app_kernel\<close>; \<open>MachineProps\<close> states what follows for the application on the kernel: no panic for any input,
  refinement of the abstract session, and a history that survives a reboot.

  \<^bold>\<open>Bounds and fuel.\<close>  Loops over data are structural or have a measure.  Polling loops are bounded by the
  source's own limits (the driver's wait counts, 32 scan codes per poll, the decoder's token limit), which are
  the recursion arguments, so running out of them is the code's own time-out branch.  The sizes are the
  source's: a log of 256 KiB, 992 map entries, 131072 reserved sectors, 64 KiB of loaded history, 127 pending
  keys.  The parser of the stored log recurses on the bytes left and is total.

  \<^bold>\<open>Not modelled.\<close>
  \<^item> Locks, interrupts and wakers: each operation runs to completion; the drivers hold their mutex throughout.
  \<^item> Log and diagnostic messages, timing figures and cache flush instructions, which no operation reads back.
  \<^item> The vendored inference library (\<open>third_party/\<close>), a parameter with the calls the decoder makes of it.
  \<^item> The boot loader (\<open>loader/\<close>), the standard-library glue (\<open>hermit-rs/\<close>), build scripts and tools.
  \<^item> Paging, interrupt tables, processor set-up, timers and other code for the bare machine (\<open>kernel/src/arch\<close>,
    \<open>kernel/src/mm\<close>), whose effect is on registers and page tables the model has no state for.
  \<^item> Ingestion of a model from a USB stick (\<open>usb-oxide/\<close>, \<open>kernel/src/drivers/usb\<close>), the fallback when the
    SSD holds no model: an asynchronous task over the controller's request rings.
  \<^item> Scheduling, futexes, the executor and the application's C runtime, which serve the library's threads.
  \<^item> Kernel services carried from upstream that the application does not call: network, virtio, vsock,
    sockets, file systems, event descriptors.
\<close>

end
